(* ===== verification/Prelude.thy ===== *)
theory Prelude
  imports Main "HOL-Library.Word"
begin

text \<open>
  What every other theory shares: the names of the machine integers, the result of a
  fallible Rust function, checked and saturating arithmetic, big-endian bytes, and the
  little of Rust's string library that the code uses.

  dog is compiled with overflow checks on, in release builds too (\<open>Cargo.toml\<close>,
  \<open>overflow-checks = true\<close>), and with \<open>panic = "abort"\<close>: an addition that overflows
  ends the program. So a result has three forms, and \<open>Panic\<close> is a value of the model
  that the theorems can, and do, rule out.
\<close>

unbundle bit_operations_syntax

type_synonym u8 = "8 word"
type_synonym u16 = "16 word"
type_synonym u32 = "32 word"
type_synonym u64 = "64 word"

named_theorems wp_rules "weakest preconditions of readers"
named_theorems stable_rules "readers that do not look past what they consume"


subsection \<open>Results\<close>

datatype ('e, 'a) outcome = Ok 'a | Err 'e | Panic

text \<open>The operator \<open>?\<close>: go on with the value, or return what stopped the computation.\<close>

fun bind_outcome :: "('e, 'a) outcome \<Rightarrow> ('a \<Rightarrow> ('e, 'b) outcome) \<Rightarrow> ('e, 'b) outcome" where
  "bind_outcome (Ok x) f = f x"
| "bind_outcome (Err e) f = Err e"
| "bind_outcome Panic f = Panic"

fun map_err :: "('e \<Rightarrow> 'f) \<Rightarrow> ('e, 'a) outcome \<Rightarrow> ('f, 'a) outcome" where
  "map_err g (Ok x) = Ok x"
| "map_err g (Err e) = Err (g e)"
| "map_err g Panic = Panic"

text \<open>\<open>iter.map(f).collect::<Result<Vec<_>, _>>()\<close>: every value, or the first failure.\<close>

fun collect_outcome :: "('a \<Rightarrow> ('e, 'b) outcome) \<Rightarrow> 'a list \<Rightarrow> ('e, 'b list) outcome" where
  "collect_outcome f [] = Ok []"
| "collect_outcome f (x # xs) =
     bind_outcome (f x) (\<lambda>y. bind_outcome (collect_outcome f xs) (\<lambda>ys. Ok (y # ys)))"

lemma bind_outcome_Ok_iff:
  "bind_outcome m f = Ok y \<longleftrightarrow> (\<exists>x. m = Ok x \<and> f x = Ok y)"
  by (cases m) auto

lemma bind_outcome_Err_iff:
  "bind_outcome m f = Err e \<longleftrightarrow> m = Err e \<or> (\<exists>x. m = Ok x \<and> f x = Err e)"
  by (cases m) auto

lemma bind_outcome_Panic_iff:
  "bind_outcome m f = Panic \<longleftrightarrow> m = Panic \<or> (\<exists>x. m = Ok x \<and> f x = Panic)"
  by (cases m) auto

lemma map_err_Ok_iff [simp]: "map_err g m = Ok x \<longleftrightarrow> m = Ok x"
  by (cases m) auto

lemma map_err_Panic_iff [simp]: "map_err g m = Panic \<longleftrightarrow> m = Panic"
  by (cases m) auto

lemma collect_outcome_Ok_iff:
  "collect_outcome f xs = Ok ys \<longleftrightarrow> list_all2 (\<lambda>x y. f x = Ok y) xs ys"
proof (induction xs arbitrary: ys)
  case Nil
  then show ?case by auto
next
  case (Cons x xs)
  then show ?case by (auto simp: bind_outcome_Ok_iff list_all2_Cons1)
qed

lemma list_all2_right: "list_all2 P xs ys \<Longrightarrow> y \<in> set ys \<Longrightarrow> \<exists>x \<in> set xs. P x y"
  by (metis in_set_conv_nth list_all2_conv_all_nth)

lemma collect_outcome_Err:
  "collect_outcome f xs = Err e \<Longrightarrow> \<exists>x \<in> set xs. f x = Err e"
  by (induction xs) (auto simp: bind_outcome_Err_iff)

lemma collect_outcome_no_panic:
  "(\<And>x. x \<in> set xs \<Longrightarrow> f x \<noteq> Panic) \<Longrightarrow> collect_outcome f xs \<noteq> Panic"
  by (induction xs) (auto simp: bind_outcome_Panic_iff)


subsection \<open>Checked and saturating arithmetic\<close>

text \<open>\<open>a + b\<close> with overflow checks: a panic where the sum does not fit.\<close>

definition add_or_panic :: "'n::len word \<Rightarrow> 'n word \<Rightarrow> ('e, 'n word) outcome" where
  "add_or_panic a b = (if unat a + unat b < 2 ^ LENGTH('n) then Ok (a + b) else Panic)"

definition sub_or_panic :: "'n::len word \<Rightarrow> 'n word \<Rightarrow> ('e, 'n word) outcome" where
  "sub_or_panic a b = (if b \<le> a then Ok (a - b) else Panic)"

definition mul_or_panic :: "'n::len word \<Rightarrow> 'n word \<Rightarrow> ('e, 'n word) outcome" where
  "mul_or_panic a b = (if unat a * unat b < 2 ^ LENGTH('n) then Ok (a * b) else Panic)"

definition pow_or_panic :: "'n::len word \<Rightarrow> u32 \<Rightarrow> ('e, 'n word) outcome" where
  "pow_or_panic a n = (if unat a ^ unat n < 2 ^ LENGTH('n) then Ok (a ^ unat n) else Panic)"

definition checked_sub :: "'n::len word \<Rightarrow> 'n word \<Rightarrow> 'n word option" where
  "checked_sub a b = (if b \<le> a then Some (a - b) else None)"

definition saturating_sub :: "'n::len word \<Rightarrow> 'n word \<Rightarrow> 'n word" where
  "saturating_sub a b = (if b \<le> a then a - b else 0)"

definition saturating_add :: "'n::len word \<Rightarrow> 'n word \<Rightarrow> 'n word" where
  "saturating_add a b = (if unat a + unat b < 2 ^ LENGTH('n) then a + b else - 1)"

lemma unat_add_no_overflow:
  fixes a b :: "'n::len word"
  assumes "unat a + unat b < 2 ^ LENGTH('n)"
  shows "unat (a + b) = unat a + unat b"
  using assms by (simp add: unat_word_ariths)

lemma add_or_panic_Ok_iff:
  fixes a b c :: "'n::len word"
  shows "add_or_panic a b = Ok c \<longleftrightarrow> unat c = unat a + unat b"
proof
  assume "add_or_panic a b = Ok c"
  then show "unat c = unat a + unat b"
    by (auto simp: add_or_panic_def unat_add_no_overflow split: if_splits)
next
  assume eq: "unat c = unat a + unat b"
  then have "unat a + unat b < 2 ^ LENGTH('n)"
    by (metis unsigned_less)
  moreover from this eq have "c = a + b"
    by (simp add: unat_add_no_overflow word_unat_eq_iff)
  ultimately show "add_or_panic a b = Ok c"
    by (simp add: add_or_panic_def)
qed

lemma add_or_panic_not_Err [simp]: "add_or_panic a b \<noteq> Err e"
  by (simp add: add_or_panic_def)

lemma checked_sub_Some_iff:
  "checked_sub a b = Some c \<longleftrightarrow> unat a = unat b + unat c"
proof
  assume "checked_sub a b = Some c"
  then have "b \<le> a" "c = a - b" by (auto simp: checked_sub_def split: if_splits)
  then show "unat a = unat b + unat c"
    by (simp add: unat_sub word_le_nat_alt)
next
  assume eq: "unat a = unat b + unat c"
  then have le: "b \<le> a" by (simp add: word_le_nat_alt)
  with eq have "unat c = unat (a - b)" by (simp add: unat_sub)
  then have "c = a - b" by (simp add: word_unat_eq_iff)
  with le show "checked_sub a b = Some c" by (simp add: checked_sub_def)
qed

lemma mul_or_panic_Ok_iff:
  fixes a b c :: "'n::len word"
  shows "mul_or_panic a b = Ok c \<longleftrightarrow> unat c = unat a * unat b"
proof
  assume "mul_or_panic a b = Ok c"
  then show "unat c = unat a * unat b"
    by (auto simp: mul_or_panic_def unat_word_ariths split: if_splits)
next
  assume eq: "unat c = unat a * unat b"
  then have "unat a * unat b < 2 ^ LENGTH('n)"
    by (metis unsigned_less)
  moreover from this eq have "c = a * b"
    by (simp add: unat_word_ariths word_unat_eq_iff)
  ultimately show "mul_or_panic a b = Ok c"
    by (simp add: mul_or_panic_def)
qed

lemma unat_power_no_overflow:
  fixes a :: "'n::len word"
  assumes "unat a ^ n < 2 ^ LENGTH('n)"
  shows "unat (a ^ n) = unat a ^ n"
proof -
  have "a ^ n = word_of_nat (unat a ^ n)" by simp
  then have "unat (a ^ n) = unat a ^ n mod 2 ^ LENGTH('n)"
    by (metis take_bit_eq_mod unat_of_nat)
  with assms show ?thesis by simp
qed

lemma unat_sub_le: "b \<le> a \<Longrightarrow> unat (a - b) = unat a - unat b"
  by (simp add: unat_sub)

lemma sub_or_panic_Ok_iff:
  "sub_or_panic a b = Ok c \<longleftrightarrow> unat a = unat b + unat c"
proof -
  have "sub_or_panic a b = Ok c \<longleftrightarrow> checked_sub a b = Some c"
    by (simp add: sub_or_panic_def checked_sub_def)
  then show ?thesis by (simp only: checked_sub_Some_iff)
qed

lemma unat_saturating_sub: "unat (saturating_sub a b) = unat a - unat b"
  by (auto simp: saturating_sub_def unat_sub word_le_nat_alt)

lemma unat_saturating_add_fits:
  fixes a b :: "'n::len word"
  assumes "unat a + unat b < 2 ^ LENGTH('n)"
  shows "unat (saturating_add a b) = unat a + unat b"
  using assms by (simp add: saturating_add_def unat_add_no_overflow)


subsection \<open>Big-endian bytes\<close>

definition be16 :: "u8 \<Rightarrow> u8 \<Rightarrow> u16" where
  "be16 a b = word_of_nat (unat a * 256 + unat b)"

definition be32 :: "u8 \<Rightarrow> u8 \<Rightarrow> u8 \<Rightarrow> u8 \<Rightarrow> u32" where
  "be32 a b c d = word_of_nat (((unat a * 256 + unat b) * 256 + unat c) * 256 + unat d)"

definition be_bytes16 :: "u16 \<Rightarrow> u8 list" where
  "be_bytes16 w = [word_of_nat (unat w div 256), word_of_nat (unat w mod 256)]"

definition be_bytes32 :: "u32 \<Rightarrow> u8 list" where
  "be_bytes32 w =
     [word_of_nat (unat w div 2 ^ 24), word_of_nat (unat w div 2 ^ 16 mod 256),
      word_of_nat (unat w div 2 ^ 8 mod 256), word_of_nat (unat w mod 256)]"

lemma unat_u8_less: "unat (b :: u8) < 256"
  using unsigned_less [of b] by simp

lemma unat_u16_less: "unat (w :: u16) < 65536"
  using unsigned_less [of w] by simp

lemma unat_u32_less: "unat (w :: u32) < 4294967296"
  using unsigned_less [of w] by simp

lemma unat_ucast_u8_u16 [simp]: "unat (ucast (b :: u8) :: u16) = unat b"
  using unat_u8_less [of b] by (simp add: unsigned_ucast_eq take_bit_eq_mod)

lemma unat_of_nat_u8 [simp]: "n < 256 \<Longrightarrow> unat (word_of_nat n :: u8) = n"
  by (simp add: unat_of_nat take_bit_eq_mod)

lemma unat_of_nat_u16 [simp]: "n < 65536 \<Longrightarrow> unat (word_of_nat n :: u16) = n"
  by (simp add: unat_of_nat take_bit_eq_mod)

lemma unat_of_nat_u32 [simp]: "n < 4294967296 \<Longrightarrow> unat (word_of_nat n :: u32) = n"
  by (simp add: unat_of_nat take_bit_eq_mod)

lemma unat_be16: "unat (be16 a b) = unat a * 256 + unat b"
  unfolding be16_def using unat_u8_less [of a] unat_u8_less [of b]
  by (intro unat_of_nat_u16) linarith

lemma unat_be32:
  "unat (be32 a b c d) = ((unat a * 256 + unat b) * 256 + unat c) * 256 + unat d"
  unfolding be32_def
  using unat_u8_less [of a] unat_u8_less [of b] unat_u8_less [of c] unat_u8_less [of d]
  by (intro unat_of_nat_u32) (simp add: distrib_right)

lemma length_be_bytes16 [simp]: "length (be_bytes16 w) = 2"
  by (simp add: be_bytes16_def)

lemma length_be_bytes32 [simp]: "length (be_bytes32 w) = 4"
  by (simp add: be_bytes32_def)

lemma be16_be_bytes16:
  "be16 (word_of_nat (unat w div 256)) (word_of_nat (unat w mod 256)) = w"
proof -
  have "unat w div 256 < 256" using unat_u16_less [of w] by simp
  then show ?thesis by (simp add: word_unat_eq_iff unat_be16)
qed

lemma be_bytes16_be16: "be_bytes16 (be16 a b) = [a, b]"
  using unat_u8_less [of b] by (simp add: be_bytes16_def unat_be16)

lemma be32_be_bytes32:
  "be32 (word_of_nat (unat w div 2 ^ 24)) (word_of_nat (unat w div 2 ^ 16 mod 256))
     (word_of_nat (unat w div 2 ^ 8 mod 256)) (word_of_nat (unat w mod 256)) = w"
proof -
  let ?n = "unat w"
  have "?n div 2 ^ 24 < 256" using unat_u32_less [of w] by simp
  moreover have "((?n div 2 ^ 24 * 256 + ?n div 2 ^ 16 mod 256) * 256 + ?n div 2 ^ 8 mod 256) * 256
      + ?n mod 256 = ?n"
  proof -
    have "?n div 2 ^ 16 = ?n div 2 ^ 8 div 256" "?n div 2 ^ 24 = ?n div 2 ^ 8 div 256 div 256"
      "?n div 2 ^ 8 = ?n div 256"
      by (simp_all add: div_mult2_eq [symmetric])
    then show ?thesis by (simp only: div_mult_mod_eq)
  qed
  ultimately have "unat (be32 (word_of_nat (unat w div 2 ^ 24)) (word_of_nat (unat w div 2 ^ 16 mod 256))
     (word_of_nat (unat w div 2 ^ 8 mod 256)) (word_of_nat (unat w mod 256))) = unat w"
    by (simp add: unat_be32)
  then show ?thesis by (simp add: word_unat_eq_iff)
qed

end
