(* ===== verification/Cursor.thy ===== *)
theory Cursor
  imports Prelude
begin

text \<open>
  Reading from a packet (\<open>dns/src/wire.rs\<close>: \<open>Wire::read\<close>'s \<open>Cursor<&[u8]>\<close>,
  \<open>WireError\<close>, \<open>read_bytes\<close>, \<open>read_character_string\<close>, and the \<open>ReadBytesExt\<close>
  methods of \<open>byteorder\<close> that the code calls).

  A reader takes the whole packet and a position in it, and returns a value with the next
  position. The position of a cursor is not looked at after an error, because every
  reader returns with \<open>?\<close> up to \<open>Response::from_bytes\<close>, so an error has none.
\<close>

subsection \<open>Errors\<close>

datatype MandatedLength = Exactly u16 | AtLeast u16

datatype WireError =
    IO
  | WrongRecordLength u16 MandatedLength  \<comment> \<open>stated, mandated\<close>
  | WrongLabelLength u16 u16              \<comment> \<open>stated, after labels\<close>
  | TooMuchRecursion "u16 list"
  | OutOfBounds u16
  | WrongVersion u8 u8                    \<comment> \<open>stated, maximum supported\<close>

type_synonym 'a reader = "u8 list \<Rightarrow> nat \<Rightarrow> (WireError, 'a \<times> nat) outcome"


subsection \<open>Sequencing\<close>

definition ret :: "'a \<Rightarrow> 'a reader" where
  "ret x buf p = Ok (x, p)"

definition fail :: "WireError \<Rightarrow> 'a reader" where
  "fail e buf p = Err e"

definition bind :: "'a reader \<Rightarrow> ('a \<Rightarrow> 'b reader) \<Rightarrow> 'b reader" where
  "bind m f buf p =
     (case m buf p of Ok (x, q) \<Rightarrow> f x buf q | Err e \<Rightarrow> Err e | Panic \<Rightarrow> Panic)"

declare bind_def [code_unfold]

text \<open>A computation on numbers that reads nothing, such as a checked addition.\<close>

fun lift_outcome :: "(WireError, 'a) outcome \<Rightarrow> 'a reader" where
  "lift_outcome (Ok x) buf p = Ok (x, p)"
| "lift_outcome (Err e) buf p = Err e"
| "lift_outcome Panic buf p = Panic"

abbreviation checked_add :: "u16 \<Rightarrow> u16 \<Rightarrow> u16 reader" where
  "checked_add a b \<equiv> lift_outcome (add_or_panic a b)"

abbreviation checked_minus :: "u16 \<Rightarrow> u16 \<Rightarrow> u16 reader" where
  "checked_minus a b \<equiv> lift_outcome (sub_or_panic a b)"


subsection \<open>The primitive reads\<close>

definition read_u8 :: "u8 reader" where
  "read_u8 buf p = (if p < length buf then Ok (buf ! p, p + 1) else Err IO)"

text \<open>
  \<open>read_exact\<close> into a buffer of \<open>n\<close> bytes. A position past the end of the packet leaves
  nothing to read, which is enough for \<open>n = 0\<close>.
\<close>

definition read_exact :: "nat \<Rightarrow> u8 list reader" where
  "read_exact n buf p =
     (if n \<le> length buf - p then Ok (take n (drop p buf), p + n) else Err IO)"

definition read_u16 :: "u16 reader" where
  "read_u16 = bind (read_exact 2) (\<lambda>bs. ret (be16 (bs ! 0) (bs ! 1)))"

definition read_u32 :: "u32 reader" where
  "read_u32 = bind (read_exact 4) (\<lambda>bs. ret (be32 (bs ! 0) (bs ! 1) (bs ! 2) (bs ! 3)))"

definition read_bytes :: "u16 \<Rightarrow> u8 list reader" where
  "read_bytes len = read_exact (unat len)"

text \<open>A \<open><character-string>\<close>: the bytes, and how many were read with the length byte.\<close>

definition read_character_string :: "(u8 list \<times> u16) reader" where
  "read_character_string =
     bind read_u8 (\<lambda>len.
     bind (read_exact (unat len)) (\<lambda>bytes.
     bind (checked_add 1 (ucast len)) (\<lambda>n.
     ret (bytes, n))))"


subsection \<open>Weakest preconditions\<close>

text \<open>
  \<open>wp m Q buf p\<close>: reading at \<open>p\<close> does not panic, and where it returns, the value and the
  next position satisfy \<open>Q\<close>. An error is always allowed: what the code does on malformed
  packets is to return one.
\<close>

definition wp :: "'a reader \<Rightarrow> ('a \<Rightarrow> nat \<Rightarrow> bool) \<Rightarrow> u8 list \<Rightarrow> nat \<Rightarrow> bool" where
  "wp m Q buf p = (case m buf p of Ok (x, q) \<Rightarrow> Q x q | Err _ \<Rightarrow> True | Panic \<Rightarrow> False)"

lemma wp_ret [wp_rules]: "wp (ret x) Q buf p \<longleftrightarrow> Q x p"
  by (simp add: wp_def ret_def)

lemma wp_fail [wp_rules]: "wp (fail e) Q buf p"
  by (simp add: wp_def fail_def)

lemma wp_bind [wp_rules]:
  "wp (bind m f) Q buf p \<longleftrightarrow> wp m (\<lambda>x q. wp (f x) Q buf q) buf p"
  by (simp add: wp_def bind_def split: outcome.splits prod.splits)

lemma wp_if [wp_rules]:
  "wp (if b then m1 else m2) Q buf p \<longleftrightarrow> (b \<longrightarrow> wp m1 Q buf p) \<and> (\<not> b \<longrightarrow> wp m2 Q buf p)"
  by simp

lemma wp_read_u8 [wp_rules]:
  "wp read_u8 Q buf p \<longleftrightarrow> (p < length buf \<longrightarrow> Q (buf ! p) (p + 1))"
  by (simp add: wp_def read_u8_def)

lemma wp_read_exact [wp_rules]:
  "wp (read_exact n) Q buf p \<longleftrightarrow> (n \<le> length buf - p \<longrightarrow> Q (take n (drop p buf)) (p + n))"
  by (simp add: wp_def read_exact_def)

lemma wp_checked_add [wp_rules]:
  "wp (checked_add a b) Q buf p \<longleftrightarrow>
     unat a + unat b < 65536 \<and> Q (a + b) p"
  by (simp add: wp_def add_or_panic_def)

text \<open>The same as a rule that names the sum by its value.\<close>

lemma wp_checked_addI:
  assumes "unat a + unat b < 65536"
    and "\<And>c. unat c = unat a + unat b \<Longrightarrow> Q c p"
  shows "wp (checked_add a b) Q buf p"
  using assms unat_add_no_overflow [of a b] by (simp add: wp_checked_add)

lemma wp_checked_minus [wp_rules]:
  "wp (checked_minus a b) Q buf p \<longleftrightarrow> b \<le> a \<and> Q (a - b) p"
  by (simp add: wp_def sub_or_panic_def)

lemma wp_mono: "wp m Q buf p \<Longrightarrow> (\<And>x q. Q x q \<Longrightarrow> R x q) \<Longrightarrow> wp m R buf p"
  by (auto simp: wp_def split: outcome.splits)

lemma wp_OkD: "wp m Q buf p \<Longrightarrow> m buf p = Ok (x, q) \<Longrightarrow> Q x q"
  by (simp add: wp_def)

lemma wp_no_panic: "wp m Q buf p \<Longrightarrow> m buf p \<noteq> Panic"
  by (auto simp: wp_def)

lemma wp_read_u16 [wp_rules]:
  "wp read_u16 Q buf p \<longleftrightarrow>
     (2 \<le> length buf - p \<longrightarrow> Q (be16 (buf ! p) (buf ! (p + 1))) (p + 2))"
  by (auto simp: read_u16_def wp_rules)

lemma wp_read_u32 [wp_rules]:
  "wp read_u32 Q buf p \<longleftrightarrow>
     (4 \<le> length buf - p \<longrightarrow>
        Q (be32 (buf ! p) (buf ! (p + 1)) (buf ! (p + 2)) (buf ! (p + 3))) (p + 4))"
  by (auto simp: read_u32_def wp_rules)

lemma wp_read_bytes [wp_rules]:
  "wp (read_bytes n) Q buf p \<longleftrightarrow>
     (unat n \<le> length buf - p \<longrightarrow> Q (take (unat n) (drop p buf)) (p + unat n))"
  by (simp add: read_bytes_def wp_rules)

lemma unat_one_plus_u8: "unat (1 + ucast (len :: u8) :: u16) = 1 + unat len"
  using unat_u8_less [of len] by (simp add: unat_word_ariths)

lemma wp_read_character_string:
  assumes "\<And>bytes n. length bytes + 1 = unat n \<Longrightarrow> unat n \<le> 256 \<Longrightarrow>
             p + unat n \<le> length buf \<Longrightarrow> Q (bytes, n) (p + unat n)"
  shows "wp read_character_string Q buf p"
proof -
  have small: "unat (1 :: u16) + unat (ucast (len :: u8) :: u16) < 65536" for len
    using unat_u8_less [of len] by simp
  have "Q (take (unat (buf ! p)) (drop (Suc p) buf), 1 + ucast (buf ! p))
      (p + unat (1 + ucast (buf ! p) :: u16))"
    if "p < length buf" "unat (buf ! p) \<le> length buf - Suc p"
    by (rule assms) (use that unat_u8_less [of "buf ! p"] in \<open>auto simp: unat_one_plus_u8\<close>)
  then show ?thesis
    by (simp add: read_character_string_def wp_rules unat_one_plus_u8 small [simplified])
qed


subsection \<open>Readers do not look past what they consume\<close>

text \<open>
  A reader is stable when more bytes after the packet change nothing about a read that
  succeeded, as long as the packet is no longer than a DNS message can be.
\<close>

definition stable :: "'a reader \<Rightarrow> bool" where
  "stable m \<longleftrightarrow> (\<forall>buf p x q zs. length (buf @ zs) < 65536 \<longrightarrow>
     m buf p = Ok (x, q) \<longrightarrow> m (buf @ zs) p = Ok (x, q))"

lemma stableI:
  "(\<And>buf p x q zs. length (buf @ zs) < 65536 \<Longrightarrow> m buf p = Ok (x, q) \<Longrightarrow>
     m (buf @ zs) p = Ok (x, q)) \<Longrightarrow> stable m"
  by (simp add: stable_def)

lemma stableD:
  "stable m \<Longrightarrow> length (buf @ zs) < 65536 \<Longrightarrow> m buf p = Ok (x, q) \<Longrightarrow>
     m (buf @ zs) p = Ok (x, q)"
  unfolding stable_def by blast

lemma stable_ret [stable_rules]: "stable (ret x)"
  by (simp add: stable_def ret_def)

lemma stable_fail [stable_rules]: "stable (fail e)"
  by (simp add: stable_def fail_def)

lemma stable_bind [stable_rules]:
  "stable m \<Longrightarrow> (\<And>x. stable (f x)) \<Longrightarrow> stable (bind m f)"
  unfolding stable_def by (auto simp: bind_def split: outcome.splits prod.splits)

lemma stable_if [stable_rules]:
  "(b \<Longrightarrow> stable m1) \<Longrightarrow> (\<not> b \<Longrightarrow> stable m2) \<Longrightarrow> stable (if b then m1 else m2)"
  by simp

lemma stable_lift_outcome [stable_rules]: "stable (lift_outcome r)"
  by (rule stableI, cases r) auto

lemma stable_read_u8 [stable_rules]: "stable read_u8"
  by (auto simp: stable_def read_u8_def nth_append split: if_splits)

lemma stable_read_exact [stable_rules]: "stable (read_exact n)"
  by (auto simp: stable_def read_exact_def split: if_splits)

lemma stable_read_u16 [stable_rules]: "stable read_u16"
  unfolding read_u16_def by (intro stable_rules)

lemma stable_read_u32 [stable_rules]: "stable read_u32"
  unfolding read_u32_def by (intro stable_rules)

lemma stable_read_bytes [stable_rules]: "stable (read_bytes n)"
  unfolding read_bytes_def by (intro stable_rules)

lemma stable_read_character_string [stable_rules]: "stable read_character_string"
  unfolding read_character_string_def by (intro stable_rules)

lemma stable_case_prod [stable_rules]:
  "(\<And>x y. stable (f x y)) \<Longrightarrow> stable (case z of (x, y) \<Rightarrow> f x y)"
  by (cases z) simp

lemma stable_case_option [stable_rules]:
  "stable m \<Longrightarrow> (\<And>x. stable (f x)) \<Longrightarrow> stable (case z of None \<Rightarrow> m | Some x \<Rightarrow> f x)"
  by (cases z) simp_all


subsection \<open>Reading back what was written\<close>

text \<open>
  \<open>parses m bs x\<close>: wherever the bytes \<open>bs\<close> stand in a packet, reading at their start
  returns \<open>x\<close> and stops right after them.
\<close>

definition parses :: "'a reader \<Rightarrow> u8 list \<Rightarrow> 'a \<Rightarrow> bool" where
  "parses m bs x \<longleftrightarrow> (\<forall>pre post. length (pre @ bs @ post) < 65536 \<longrightarrow>
     m (pre @ bs @ post) (length pre) = Ok (x, length pre + length bs))"

lemma parsesI:
  "(\<And>pre post. length (pre @ bs @ post) < 65536 \<Longrightarrow>
      m (pre @ bs @ post) (length pre) = Ok (x, length pre + length bs)) \<Longrightarrow> parses m bs x"
  by (simp add: parses_def)

lemma parsesD:
  "parses m bs x \<Longrightarrow> length (pre @ bs @ post) < 65536 \<Longrightarrow>
     m (pre @ bs @ post) (length pre) = Ok (x, length pre + length bs)"
  by (simp add: parses_def)

lemma parses_whole: "parses m bs x \<Longrightarrow> length bs < 65536 \<Longrightarrow> m bs 0 = Ok (x, length bs)"
  using parsesD [of m bs x "[]" "[]"] by simp

lemma parses_ret: "parses (ret x) [] x"
  by (simp add: parses_def ret_def)

lemma parses_bind:
  assumes "parses m bs x" and "parses (f x) cs y"
  shows "parses (bind m f) (bs @ cs) y"
proof (rule parsesI)
  fix pre post :: "u8 list"
  assume len: "length (pre @ (bs @ cs) @ post) < 65536"
  then have "m (pre @ bs @ cs @ post) (length pre) = Ok (x, length pre + length bs)"
    using parsesD [OF assms(1), of pre "cs @ post"] by simp
  moreover have "f x ((pre @ bs) @ cs @ post) (length (pre @ bs))
      = Ok (y, length (pre @ bs) + length cs)"
    by (rule parsesD [OF assms(2)]) (use len in simp)
  ultimately show "bind m f (pre @ (bs @ cs) @ post) (length pre) = Ok (y, length pre + length (bs @ cs))"
    by (simp add: bind_def add.assoc)
qed

text \<open>The same with the bytes of the first reader put in front of the rest.\<close>

lemma parses_bind': "parses m bs x \<Longrightarrow> parses (f x) cs y \<Longrightarrow> ds = bs @ cs \<Longrightarrow> parses (bind m f) ds y"
  by (simp add: parses_bind)

lemma parses_bind_Nil: "parses m [] x \<Longrightarrow> parses (f x) cs y \<Longrightarrow> parses (bind m f) cs y"
  using parses_bind [of m "[]" x f cs y] by simp

lemma parses_bind_last: "parses m bs x \<Longrightarrow> parses (f x) [] y \<Longrightarrow> parses (bind m f) bs y"
  using parses_bind [of m bs x f "[]" y] by simp

lemma parses_lift_outcome: "r = Ok x \<Longrightarrow> parses (lift_outcome r) [] x"
  by (simp add: parses_def)

lemma parses_ret': "y = x \<Longrightarrow> bs = [] \<Longrightarrow> parses (ret x) bs y"
  by (simp add: parses_ret)

lemma parses_checked_minus: "b \<le> a \<Longrightarrow> parses (checked_minus a b) [] (a - b)"
  by (simp add: parses_def sub_or_panic_def)

lemma parses_checked_add:
  "unat a + unat b < 65536 \<Longrightarrow> parses (checked_add a b) [] (a + b)"
  by (simp add: parses_def add_or_panic_def)

lemma parses_read_u8: "parses read_u8 [b] b"
  by (simp add: parses_def read_u8_def nth_append)

lemma parses_read_exact: "length bs = n \<Longrightarrow> parses (read_exact n) bs bs"
  by (auto simp: parses_def read_exact_def)

lemma parses_read_u16: "parses read_u16 (be_bytes16 w) w"
  unfolding read_u16_def
  by (rule parses_bind' [OF parses_read_exact [of "be_bytes16 w"]])
    (simp_all add: parses_ret be_bytes16_def be16_be_bytes16)

lemma parses_read_u32: "parses read_u32 (be_bytes32 w) w"
  unfolding read_u32_def
  by (rule parses_bind' [OF parses_read_exact [of "be_bytes32 w"]])
    (simp_all add: parses_ret be_bytes32_def be32_be_bytes32 [simplified])

lemma parses_read_character_string:
  assumes "length bs < 256"
  shows "parses read_character_string (word_of_nat (length bs) # bs) (bs, word_of_nat (1 + length bs))"
proof -
  let ?l = "word_of_nat (length bs) :: u8"
  have l: "unat ?l = length bs" using assms by simp
  have sum: "1 + ucast ?l = (word_of_nat (1 + length bs) :: u16)"
    using unat_of_nat_u16 [of "1 + length bs"] assms
    by (simp only: word_unat_eq_iff unat_one_plus_u8 l)
  have "parses (checked_add 1 (ucast ?l)) [] (word_of_nat (1 + length bs))"
    unfolding sum [symmetric] by (rule parses_checked_add) (use assms l in simp)
  then have "parses (bind (checked_add 1 (ucast ?l)) (\<lambda>n. ret (bs, n))) []
      (bs, word_of_nat (1 + length bs))"
    by (rule parses_bind') (simp_all add: parses_ret)
  then show ?thesis
    unfolding read_character_string_def
    by (intro parses_bind' [OF parses_read_u8 [of ?l]] parses_bind' [OF parses_read_exact [of bs]])
      (use assms in auto)
qed

end
