(* ===== verification/Flags.thy ===== *)
theory Flags
  imports Cursor
begin

text \<open>
  The numbers in a message's header and questions (\<open>dns/src/types.rs\<close> and the encoders at
  the end of \<open>dns/src/wire.rs\<close>): classes, opcodes, response codes and the flags, as types
  and as bits.
\<close>

subsection \<open>Classes\<close>

datatype QClass = IN | CH | HS | QC_Other u16

definition qclass_from_u16 :: "u16 \<Rightarrow> QClass" where
  "qclass_from_u16 uu =
     (if uu = 0x0001 then IN else if uu = 0x0003 then CH else if uu = 0x0004 then HS
      else QC_Other uu)"

fun qclass_to_u16 :: "QClass \<Rightarrow> u16" where
  "qclass_to_u16 IN = 0x0001"
| "qclass_to_u16 CH = 0x0003"
| "qclass_to_u16 HS = 0x0004"
| "qclass_to_u16 (QC_Other uu) = uu"

lemma qclass_to_from [simp]: "qclass_to_u16 (qclass_from_u16 uu) = uu"
  by (simp add: qclass_from_u16_def)

lemma qclass_from_inject: "qclass_from_u16 a = qclass_from_u16 b \<longleftrightarrow> a = b"
  by (metis qclass_to_from)

text \<open>A class is canonical when it is the one its number is read as.\<close>

definition canonical_class :: "QClass \<Rightarrow> bool" where
  "canonical_class c = (qclass_from_u16 (qclass_to_u16 c) = c)"

lemma canonical_class_from [simp]: "canonical_class (qclass_from_u16 uu)"
  by (simp add: canonical_class_def)


subsection \<open>Opcodes and response codes\<close>

datatype Opcode = Op_Query | Op_Other u8

definition opcode_from_bits :: "u8 \<Rightarrow> Opcode" where
  "opcode_from_bits bits =
     (let other = bits AND 0xF in if other = 0 then Op_Query else Op_Other other)"

fun opcode_to_bits :: "Opcode \<Rightarrow> u8" where
  "opcode_to_bits Op_Query = 0"
| "opcode_to_bits (Op_Other n) = n AND 0xF"

datatype ErrorCode =
    FormatError | ServerFailure | NXDomain | NotImplemented | QueryRefused | BadVersion
  | EC_Other u16 | EC_Private u16

definition error_code_from_bits :: "u16 \<Rightarrow> ErrorCode option" where
  "error_code_from_bits bits =
     (if 0x0F01 \<le> bits \<and> bits \<le> 0x0FFF then Some (EC_Private bits)
      else if bits = 0 then None
      else if bits = 1 then Some FormatError
      else if bits = 2 then Some ServerFailure
      else if bits = 3 then Some NXDomain
      else if bits = 4 then Some NotImplemented
      else if bits = 5 then Some QueryRefused
      else if bits = 16 then Some BadVersion
      else Some (EC_Other bits))"

lemma error_code_None_iff: "error_code_from_bits bits = None \<longleftrightarrow> bits = 0"
  by (auto simp: error_code_from_bits_def)

lemma error_code_inject: "error_code_from_bits a = error_code_from_bits b \<Longrightarrow> a = b"
  unfolding error_code_from_bits_def by (simp split: if_splits)


subsection \<open>Flags\<close>

record Flags =
  flag_response :: bool
  flag_opcode :: Opcode
  flag_authoritative :: bool
  flag_truncated :: bool
  flag_recursion_desired :: bool
  flag_recursion_available :: bool
  flag_authentic_data :: bool
  flag_checking_disabled :: bool
  flag_error_code :: "ErrorCode option"

definition has_bit :: "u16 \<Rightarrow> u16 \<Rightarrow> bool" where
  "has_bit bits b = (bits AND b = b)"

definition flags_from_u16 :: "u16 \<Rightarrow> Flags" where
  "flags_from_u16 bits =
     \<lparr> flag_response = has_bit bits 0x8000,
       flag_opcode = opcode_from_bits (drop_bit 3 (be_bytes16 bits ! 0 AND 0x78)),
       flag_authoritative = has_bit bits 0x0400,
       flag_truncated = has_bit bits 0x0200,
       flag_recursion_desired = has_bit bits 0x0100,
       flag_recursion_available = has_bit bits 0x0080,
       flag_authentic_data = has_bit bits 0x0020,
       flag_checking_disabled = has_bit bits 0x0010,
       flag_error_code = error_code_from_bits (bits AND 0xF) \<rparr>"

definition flags_to_u16 :: "Flags \<Rightarrow> u16" where
  "flags_to_u16 f =
     (let bits = 0;
          bits = if flag_response f then bits OR 0x8000 else bits;
          bits = bits OR push_bit 11 (ucast (opcode_to_bits (flag_opcode f)));
          bits = if flag_authoritative f then bits OR 0x0400 else bits;
          bits = if flag_truncated f then bits OR 0x0200 else bits;
          bits = if flag_recursion_desired f then bits OR 0x0100 else bits;
          bits = if flag_recursion_available f then bits OR 0x0080 else bits;
          bits = if flag_authentic_data f then bits OR 0x0020 else bits;
          bits = if flag_checking_disabled f then bits OR 0x0010 else bits
      in bits)"

definition flags_query :: Flags where
  "flags_query = flags_from_u16 0x0100"

definition flags_standard_response :: Flags where
  "flags_standard_response = flags_from_u16 0x8180"


subsection \<open>Flags are their bits\<close>

lemma has_bit_power: "has_bit bits (2 ^ n) \<longleftrightarrow> bit bits n" if "n < 16"
proof
  assume "has_bit bits (2 ^ n)"
  then have "bit (bits AND 2 ^ n) n = bit (2 ^ n :: u16) n"
    by (simp add: has_bit_def)
  then show "bit bits n" using that by (simp add: bit_and_iff bit_exp_iff)
next
  assume "bit bits n"
  then show "has_bit bits (2 ^ n)"
    unfolding has_bit_def by (intro bit_word_eqI) (auto simp: bit_simps)
qed

lemma has_bit_simps [simp]:
  "has_bit bits 0x8000 \<longleftrightarrow> bit bits 15" "has_bit bits 0x0400 \<longleftrightarrow> bit bits 10"
  "has_bit bits 0x0200 \<longleftrightarrow> bit bits 9"  "has_bit bits 0x0100 \<longleftrightarrow> bit bits 8"
  "has_bit bits 0x0080 \<longleftrightarrow> bit bits 7"  "has_bit bits 0x0020 \<longleftrightarrow> bit bits 5"
  "has_bit bits 0x0010 \<longleftrightarrow> bit bits 4"
  using has_bit_power [of 15 bits] has_bit_power [of 10 bits] has_bit_power [of 9 bits]
    has_bit_power [of 8 bits] has_bit_power [of 7 bits] has_bit_power [of 5 bits]
    has_bit_power [of 4 bits]
  by simp_all

lemma word16_eqI:
  fixes a b :: u16
  assumes "\<And>n. n \<in> {0, 1, 2, 3, 4, 5, 6, 7, 8, 9, 10, 11, 12, 13, 14, 15} \<Longrightarrow> bit a n = bit b n"
  shows "a = b"
proof (rule bit_word_eqI)
  fix n assume "n < LENGTH(16)"
  then have "n \<in> {0, 1, 2, 3, 4, 5, 6, 7, 8, 9, 10, 11, 12, 13, 14, 15}"
    unfolding insert_iff empty_iff len_num1 len_bit0 by presburger
  then show "bit a n = bit b n" by (rule assms)
qed

lemma high_byte: "be_bytes16 w ! 0 = ucast (drop_bit 8 w)"
  using unat_u16_less [of w]
  by (simp add: be_bytes16_def word_unat_eq_iff unsigned_ucast_eq take_bit_eq_mod drop_bit_eq_div
      unat_drop_bit_eq unat_of_nat unat_div_distrib)

lemma opcode_of_bits:
  "ucast (opcode_to_bits (opcode_from_bits b)) = (ucast (b AND 0xF) :: u16)"
  by (simp add: opcode_from_bits_def Let_def)

text \<open>Every bit but the reserved one and the four of the response code.\<close>

definition header_flag_mask :: u16 where
  "header_flag_mask = 0xFFB0"

text \<open>
  The flags of a message carry every bit of the header's second field, except the reserved
  bit Z and the response code, which the encoder leaves out: encoding decoded flags gives
  back the number with just those bits cleared.
\<close>

theorem flags_to_from_u16:
  "flags_to_u16 (flags_from_u16 bits) = bits AND header_flag_mask"
proof (rule word16_eqI)
  fix n :: nat
  assume "n \<in> {0, 1, 2, 3, 4, 5, 6, 7, 8, 9, 10, 11, 12, 13, 14, 15}"
  then show "bit (flags_to_u16 (flags_from_u16 bits)) n = bit (bits AND header_flag_mask) n"
    by (elim insertE emptyE)
      (simp_all add: flags_to_u16_def flags_from_u16_def header_flag_mask_def Let_def opcode_of_bits
        high_byte bit_simps bit_numeral_rec)
qed

lemma opcode_bit_4 [simp]: "\<not> bit (opcode_to_bits oc) 4"
  by (cases oc) (simp_all add: bit_simps bit_numeral_rec)

lemma bit_flags_to_u16:
  "bit (flags_to_u16 f) 15 = flag_response f"
  "bit (flags_to_u16 f) 10 = flag_authoritative f"
  "bit (flags_to_u16 f) 9 = flag_truncated f"
  "bit (flags_to_u16 f) 8 = flag_recursion_desired f"
  "bit (flags_to_u16 f) 7 = flag_recursion_available f"
  "bit (flags_to_u16 f) 5 = flag_authentic_data f"
  "bit (flags_to_u16 f) 4 = flag_checking_disabled f"
  by (simp_all add: flags_to_u16_def Let_def bit_simps bit_numeral_rec)

lemma flags_to_u16_no_rcode: "flags_to_u16 f AND 0xF = 0"
  by (rule word16_eqI, elim insertE emptyE)
    (simp_all add: flags_to_u16_def Let_def bit_simps bit_numeral_rec)

lemma opcode_to_bits_masked: "opcode_to_bits oc AND 0xF = opcode_to_bits oc"
  by (cases oc) (simp_all add: ac_simps)

lemma opcode_bits_of_flags:
  "drop_bit 3 (be_bytes16 (flags_to_u16 f) ! 0 AND 0x78) = opcode_to_bits (flag_opcode f)"
proof (subst opcode_to_bits_masked [symmetric], rule bit_word_eqI)
  fix n assume "n < LENGTH(8)"
  then have "n \<in> {0, 1, 2, 3, 4, 5, 6, 7}"
    unfolding insert_iff empty_iff len_num1 len_bit0 by presburger
  then show "bit (drop_bit 3 (be_bytes16 (flags_to_u16 f) ! 0 AND 0x78)) n
      = bit (opcode_to_bits (flag_opcode f) AND 0xF) n"
    unfolding high_byte
    by (elim insertE emptyE)
      (simp_all add: flags_to_u16_def Let_def bit_simps bit_numeral_rec)
qed

lemma flags_from_to:
  assumes "opcode_from_bits (opcode_to_bits (flag_opcode f)) = flag_opcode f"
  shows "flags_from_u16 (flags_to_u16 f) = f\<lparr>flag_error_code := None\<rparr>"
proof -
  have "error_code_from_bits 0 = None" by (simp add: error_code_None_iff)
  then show ?thesis
    unfolding flags_from_u16_def opcode_bits_of_flags flags_to_u16_no_rcode
    by (simp add: bit_flags_to_u16 assms)
qed

text \<open>
  Flags survive being sent: what is decoded from encoded flags is the same flags, with no
  response code, for every opcode that fits its four bits and is not a second spelling of
  \<open>Op_Query\<close>.
\<close>

theorem flags_from_to_u16:
  assumes "opcode_from_bits (opcode_to_bits (flag_opcode f)) = flag_opcode f"
  shows "flags_from_u16 (flags_to_u16 f) = f\<lparr>flag_error_code := None\<rparr>"
  by (rule flags_from_to [OF assms])

lemma flags_from_to_u16_witness:
  "flags_from_u16 (flags_to_u16 flags_query) = flags_query\<lparr>flag_error_code := None\<rparr>"
  by (rule flags_from_to_u16)
    (simp add: flags_query_def flags_from_u16_def be_bytes16_def opcode_from_bits_def)

end
