(* ===== verification/Rust_Str.thy ===== *)
theory Rust_Str
  imports Prelude
begin

text \<open>
  The part of Rust's string library that dog uses. A Rust \<open>str\<close> is UTF-8, so it is
  modelled as a HOL \<open>string\<close> whose characters are its bytes: \<open>length\<close> is \<open>str::len\<close>,
  and searching for, splitting at and comparing ASCII text is the same on bytes as on
  characters. Only \<open>str::chars\<close> looks at code points, so it decodes them.
\<close>

subsection \<open>Bytes and characters\<close>

definition byte_of_char :: "char \<Rightarrow> u8" where
  "byte_of_char c = word_of_nat (of_char c)"

definition char_of_byte :: "u8 \<Rightarrow> char" where
  "char_of_byte b = char_of (unat b)"

definition bytes_of :: "string \<Rightarrow> u8 list" where
  "bytes_of s = map byte_of_char s"

lemma of_char_less [simp]: "(of_char c :: nat) < 256"
  using of_char_mod_256 [of c] by (metis mod_less_divisor zero_less_numeral)

lemma unat_byte_of_char [simp]: "unat (byte_of_char c) = of_char c"
  by (simp add: byte_of_char_def)

lemma char_of_byte_of_char [simp]: "char_of_byte (byte_of_char c) = c"
  by (simp add: char_of_byte_def)

lemma byte_of_char_of_byte [simp]: "byte_of_char (char_of_byte b) = b"
  using unat_u8_less [of b]
  by (simp add: word_unat_eq_iff char_of_byte_def)

lemma of_char_char_of_byte [simp]: "of_char (char_of_byte b) = unat b"
  using unat_u8_less [of b] by (simp add: char_of_byte_def)

lemma char_of_byte_inject [simp]: "char_of_byte a = char_of_byte b \<longleftrightarrow> a = b"
  by (metis byte_of_char_of_byte)

lemma length_bytes_of [simp]: "length (bytes_of s) = length s"
  by (simp add: bytes_of_def)


subsection \<open>ASCII case\<close>

definition ascii_lower :: "u8 \<Rightarrow> u8" where
  "ascii_lower b = (if 0x41 \<le> b \<and> b \<le> 0x5A then b + 0x20 else b)"

definition eq_bytes_ignore_ascii_case :: "u8 list \<Rightarrow> u8 list \<Rightarrow> bool" where
  "eq_bytes_ignore_ascii_case a b =
     (length a = length b \<and> list_all (\<lambda>(x, y). ascii_lower x = ascii_lower y) (zip a b))"

definition eq_ignore_ascii_case :: "string \<Rightarrow> string \<Rightarrow> bool" where
  "eq_ignore_ascii_case s t = eq_bytes_ignore_ascii_case (bytes_of s) (bytes_of t)"

lemma list_all_zip_eq_map:
  "length a = length b \<Longrightarrow>
     list_all (\<lambda>(x, y). f x = f y) (zip a b) \<longleftrightarrow> map f a = map f b"
  by (induction a b rule: list_induct2) auto

lemma eq_bytes_ignore_ascii_case_iff:
  "eq_bytes_ignore_ascii_case a b \<longleftrightarrow> map ascii_lower a = map ascii_lower b"
  unfolding eq_bytes_ignore_ascii_case_def
  by (metis length_map list_all_zip_eq_map)


subsection \<open>Decimal numbers\<close>

definition digit :: "nat \<Rightarrow> char" where
  "digit n = char_of (48 + n)"

fun dec :: "nat \<Rightarrow> string" where
  "dec n = (if n < 10 then [digit n] else dec (n div 10) @ [digit (n mod 10)])"

declare dec.simps [simp del]

text \<open>The format \<open>{n:0w}\<close>: at least \<open>w\<close> digits, filled with zeros.\<close>

definition dec_padded :: "nat \<Rightarrow> nat \<Rightarrow> string" where
  "dec_padded w n = replicate (w - length (dec n)) CHR ''0'' @ dec n"

definition is_ascii_digit :: "char \<Rightarrow> bool" where
  "is_ascii_digit c = (48 \<le> (of_char c :: nat) \<and> (of_char c :: nat) \<le> 57)"

definition is_ascii_alphabetic :: "char \<Rightarrow> bool" where
  "is_ascii_alphabetic c =
     (let n = (of_char c :: nat) in (65 \<le> n \<and> n \<le> 90) \<or> (97 \<le> n \<and> n \<le> 122))"

definition is_ascii_alphanumeric :: "char \<Rightarrow> bool" where
  "is_ascii_alphanumeric c = (is_ascii_alphabetic c \<or> is_ascii_digit c)"

definition is_ascii_graphic :: "char \<Rightarrow> bool" where
  "is_ascii_graphic c = (0x21 \<le> (of_char c :: nat) \<and> (of_char c :: nat) \<le> 0x7E)"

definition digit_value :: "char \<Rightarrow> nat" where
  "digit_value c = of_char c - 48"

lemma of_char_digit: "n < 10 \<Longrightarrow> (of_char (digit n) :: nat) = 48 + n"
  by (simp add: digit_def)

lemma digit_value_digit [simp]: "n < 10 \<Longrightarrow> digit_value (digit n) = n"
  by (simp add: digit_value_def of_char_digit)

lemma is_ascii_digit_digit [simp]: "n < 10 \<Longrightarrow> is_ascii_digit (digit n)"
  by (simp add: is_ascii_digit_def of_char_digit)

lemma dec_not_Nil [simp]: "dec n \<noteq> []"
  by (subst dec.simps) simp

lemma dec_digits: "list_all is_ascii_digit (dec n)"
proof (induction n rule: dec.induct)
  case (1 n)
  then show ?case by (cases "n < 10") (simp_all add: dec.simps [of n])
qed

text \<open>The value of a string of digits, by Horner's rule.\<close>

definition digits_value :: "string \<Rightarrow> nat" where
  "digits_value s = foldl (\<lambda>v c. v * 10 + digit_value c) 0 s"

lemma digits_value_snoc: "digits_value (s @ [c]) = digits_value s * 10 + digit_value c"
  by (simp add: digits_value_def)

lemma digits_value_dec: "digits_value (dec n) = n"
proof (induction n rule: dec.induct)
  case (1 n)
  show ?case
  proof (cases "n < 10")
    case True
    then show ?thesis by (simp add: dec.simps [of n] digits_value_def)
  next
    case False
    with 1 show ?thesis by (simp add: dec.simps [of n] digits_value_snoc)
  qed
qed

lemma digits_value_zeros: "digits_value (replicate k CHR ''0'' @ s) = digits_value s"
  by (induction k) (simp_all add: digits_value_def digit_value_def)

lemma digits_value_dec_padded: "digits_value (dec_padded w n) = n"
  by (simp add: dec_padded_def digits_value_zeros digits_value_dec)

lemma length_dec_le: "n < 10 ^ k \<Longrightarrow> 0 < k \<Longrightarrow> length (dec n) \<le> k"
proof (induction k arbitrary: n)
  case 0
  then show ?case by simp
next
  case (Suc k)
  show ?case
  proof (cases "n < 10")
    case True
    then show ?thesis by (simp add: dec.simps [of n])
  next
    case False
    with Suc.prems have "n div 10 < 10 ^ k" "0 < k"
      by (auto intro: less_mult_imp_div_less Suc_leI gr0I)
    with Suc.IH have "length (dec (n div 10)) \<le> k" by blast
    with False show ?thesis by (simp add: dec.simps [of n])
  qed
qed

lemma length_dec_padded: "n < 10 ^ w \<Longrightarrow> 0 < w \<Longrightarrow> length (dec_padded w n) = w"
  using length_dec_le [of n w] by (simp add: dec_padded_def)

lemma dec_padded_digits: "list_all is_ascii_digit (dec_padded w n)"
proof -
  have "list_all is_ascii_digit (replicate k CHR ''0'')" for k
    by (induction k) (simp_all add: is_ascii_digit_def)
  then show ?thesis by (simp add: dec_padded_def dec_digits)
qed


subsection \<open>Searching and splitting\<close>

fun strip_prefix :: "'a list \<Rightarrow> 'a list \<Rightarrow> 'a list option" where
  "strip_prefix [] s = Some s"
| "strip_prefix (x # xs) [] = None"
| "strip_prefix (x # xs) (y # ys) = (if x = y then strip_prefix xs ys else None)"

text \<open>\<open>strip_suffix\<close> for one character.\<close>

definition strip_suffix_char :: "'a \<Rightarrow> 'a list \<Rightarrow> 'a list option" where
  "strip_suffix_char c s = (if s \<noteq> [] \<and> last s = c then Some (butlast s) else None)"

fun split_char :: "'a \<Rightarrow> 'a list \<Rightarrow> 'a list list" where
  "split_char c [] = [[]]"
| "split_char c (x # xs) =
     (if x = c then [] # split_char c xs
      else case split_char c xs of [] \<Rightarrow> [[x]] | y # ys \<Rightarrow> (x # y) # ys)"

fun split_once :: "'a \<Rightarrow> 'a list \<Rightarrow> ('a list \<times> 'a list) option" where
  "split_once c [] = None"
| "split_once c (x # xs) =
     (if x = c then Some ([], xs)
      else case split_once c xs of None \<Rightarrow> None | Some (a, b) \<Rightarrow> Some (x # a, b))"

definition rsplit_once :: "'a \<Rightarrow> 'a list \<Rightarrow> ('a list \<times> 'a list) option" where
  "rsplit_once c s = map_option (\<lambda>(a, b). (rev b, rev a)) (split_once c (rev s))"

fun contains_str :: "'a list \<Rightarrow> 'a list \<Rightarrow> bool" where
  "contains_str pat [] = (pat = [])"
| "contains_str pat (x # xs) = (strip_prefix pat (x # xs) \<noteq> None \<or> contains_str pat xs)"

lemma strip_prefix_Some_iff: "strip_prefix p s = Some r \<longleftrightarrow> s = p @ r"
  by (induction p s rule: strip_prefix.induct) auto

lemma strip_prefix_None_iff: "strip_prefix p s = None \<longleftrightarrow> (\<forall>r. s \<noteq> p @ r)"
  by (metis not_None_eq strip_prefix_Some_iff)

lemma strip_suffix_char_Some_iff: "strip_suffix_char c s = Some r \<longleftrightarrow> s = r @ [c]"
  by (cases s rule: rev_cases) (auto simp: strip_suffix_char_def)

lemma split_char_not_Nil [simp]: "split_char c s \<noteq> []"
  by (cases s) (auto split: list.splits)

text \<open>Splitting loses nothing: joining the pieces with the separator gives the string.\<close>

fun join :: "'a list \<Rightarrow> 'a list list \<Rightarrow> 'a list" where
  "join sep [] = []"
| "join sep [x] = x"
| "join sep (x # y # ys) = x @ sep @ join sep (y # ys)"

lemma join_Cons: "ys \<noteq> [] \<Longrightarrow> join sep (x # ys) = x @ sep @ join sep ys"
  by (cases ys) auto

lemma join_Cons_hd: "join sep ((x # y) # ys) = x # join sep (y # ys)"
  by (cases ys) auto

lemma join_split_char: "join [c] (split_char c s) = s"
proof (induction s)
  case Nil
  show ?case by simp
next
  case (Cons x s)
  show ?case
  proof (cases "x = c")
    case True
    with Cons show ?thesis by (simp add: join_Cons)
  next
    case False
    obtain y ys where "split_char c s = y # ys" by (cases "split_char c s") auto
    with False Cons show ?thesis by (simp add: join_Cons_hd)
  qed
qed

lemma split_char_no_sep: "p \<in> set (split_char c s) \<Longrightarrow> c \<notin> set p"
proof (induction s arbitrary: p)
  case Nil
  then show ?case by simp
next
  case (Cons x s)
  then show ?case by (auto split: if_splits list.splits)
qed

lemma split_char_id: "c \<notin> set s \<Longrightarrow> split_char c s = [s]"
  by (induction s) auto

lemma split_char_append: "c \<notin> set a \<Longrightarrow> split_char c (a @ c # b) = a # split_char c b"
  by (induction a) auto

lemma split_once_Some_iff:
  "split_once c s = Some (a, b) \<longleftrightarrow> s = a @ c # b \<and> c \<notin> set a"
proof (induction s arbitrary: a)
  case Nil
  then show ?case by simp
next
  case (Cons x s)
  show ?case
  proof (cases "x = c")
    case True
    then show ?thesis by (cases a) auto
  next
    case False
    have "split_once c (x # s) = Some (a, b)
        \<longleftrightarrow> (\<exists>a'. a = x # a' \<and> split_once c s = Some (a', b))"
      using False by (cases "split_once c s") auto
    also have "\<dots> \<longleftrightarrow> (\<exists>a'. a = x # a' \<and> s = a' @ c # b \<and> c \<notin> set a')"
      by (simp only: Cons.IH)
    also have "\<dots> \<longleftrightarrow> x # s = a @ c # b \<and> c \<notin> set a"
      using False by (cases a) auto
    finally show ?thesis .
  qed
qed

lemma split_once_None_iff: "split_once c s = None \<longleftrightarrow> c \<notin> set s"
proof (induction s)
  case (Cons x s)
  then show ?case by (auto split: option.splits)
qed simp

lemma rsplit_once_Some_iff:
  "rsplit_once c s = Some (a, b) \<longleftrightarrow> s = a @ c # b \<and> c \<notin> set b"
proof -
  have "rsplit_once c s = Some (a, b) \<longleftrightarrow> split_once c (rev s) = Some (rev b, rev a)"
    by (auto simp: rsplit_once_def rev_swap)
  then show ?thesis by (simp add: split_once_Some_iff rev_swap)
qed

lemma rsplit_once_None_iff: "rsplit_once c s = None \<longleftrightarrow> c \<notin> set s"
  by (simp add: rsplit_once_def split_once_None_iff)

lemma contains_str_iff: "contains_str pat s \<longleftrightarrow> (\<exists>a b. s = a @ pat @ b)"
proof (induction s)
  case Nil
  then show ?case by auto
next
  case (Cons x s)
  have "contains_str pat (x # s) \<longleftrightarrow> (\<exists>r. x # s = pat @ r) \<or> (\<exists>a b. s = a @ pat @ b)"
    using Cons strip_prefix_Some_iff [of pat "x # s"] by auto
  also have "\<dots> \<longleftrightarrow> (\<exists>a b. x # s = a @ pat @ b)"
    by (metis (no_types) append_Cons append_Nil list.exhaust list.inject)
  finally show ?case .
qed


subsection \<open>Code points\<close>

text \<open>
  \<open>str::chars\<close>: the code points of a UTF-8 string, whose sequences Rust guarantees to be
  well formed. A sequence cut short, which no \<open>str\<close> holds, ends the list here.
\<close>

fun chars :: "string \<Rightarrow> nat list" where
  "chars [] = []"
| "chars (a # s) =
     (let n = of_char a in
      if n < 0x80 then n # chars s
      else if n < 0xE0 then
        (case s of b # s' \<Rightarrow> ((n mod 0x20) * 0x40 + of_char b mod 0x40) # chars s' | _ \<Rightarrow> [])
      else if n < 0xF0 then
        (case s of b # c # s' \<Rightarrow>
           ((n mod 0x10) * 0x1000 + (of_char b mod 0x40) * 0x40 + of_char c mod 0x40) # chars s'
         | _ \<Rightarrow> [])
      else
        (case s of b # c # d # s' \<Rightarrow>
           ((n mod 8) * 0x40000 + (of_char b mod 0x40) * 0x1000 + (of_char c mod 0x40) * 0x40
             + of_char d mod 0x40) # chars s'
         | _ \<Rightarrow> []))"

text \<open>\<open>char::is_whitespace\<close> (Unicode \<open>White_Space\<close>) and \<open>char::is_control\<close> (Unicode \<open>Cc\<close>).\<close>

definition is_whitespace :: "nat \<Rightarrow> bool" where
  "is_whitespace c =
     ((0x9 \<le> c \<and> c \<le> 0xD) \<or> c = 0x20 \<or> c = 0x85 \<or> c = 0xA0 \<or> c = 0x1680
      \<or> (0x2000 \<le> c \<and> c \<le> 0x200A) \<or> c = 0x2028 \<or> c = 0x2029 \<or> c = 0x202F \<or> c = 0x205F
      \<or> c = 0x3000)"

definition is_control :: "nat \<Rightarrow> bool" where
  "is_control c = (c \<le> 0x1F \<or> (0x7F \<le> c \<and> c \<le> 0x9F))"

lemma chars_ascii: "list_all (\<lambda>c. (of_char c :: nat) < 0x80) s \<Longrightarrow> chars s = map of_char s"
  by (induction s) (simp_all add: Let_def)

end
