(* ===== verification/Wire_Reader.thy ===== *)
theory Wire_Reader
  imports Cursor Rust_Str
begin

text \<open>
  The interface of a record reader, the trait \<open>Wire\<close> of \<open>dns/src/wire.rs\<close>: a function of
  the record's stated length that reads the record at the cursor. Its contract is stated as
  two locales, which every record type's reader interprets, and the reader of a message's
  sections is verified against the contract alone. Also the hexadecimal text of bytes.

  A reader is handed a position in a message of at most 65535 bytes, the most a DNS message
  can have. \<open>TXT\<close> adds up the lengths of its strings in sixteen bits before it has read
  them, so no reader is asked to stand more than 65280 bytes before the end of the message;
  what happens beyond is in the theory \<open>Record_Txt\<close>.
\<close>

definition in_reach :: "u8 list \<Rightarrow> nat \<Rightarrow> bool" where
  "in_reach buf p \<longleftrightarrow> length buf < 65536 \<and> length buf - p \<le> 65280"

lemma in_reachD: "in_reach buf p \<Longrightarrow> length buf < 65536"
  by (simp add: in_reach_def)

text \<open>
  The weak contract: reading does not panic, does not go back, does not leave the packet,
  and does not depend on what follows the packet.
\<close>

locale wire_reader =
  fixes read :: "u16 \<Rightarrow> 'a reader"
  assumes within: "in_reach buf p \<Longrightarrow> p \<le> length buf \<Longrightarrow>
      wp (read len) (\<lambda>x q. p \<le> q \<and> q \<le> length buf) buf p"
    and stable_read: "stable (read len)"
begin

lemma no_panic: "in_reach buf p \<Longrightarrow> p \<le> length buf \<Longrightarrow> read len buf p \<noteq> Panic"
  using within by (rule wp_no_panic)

lemma advances: "in_reach buf p \<Longrightarrow> p \<le> length buf \<Longrightarrow> read len buf p = Ok (x, q) \<Longrightarrow> p \<le> q \<and> q \<le> length buf"
  using within by (rule wp_OkD)

text \<open>Mapping the value, as \<open>Record::from_bytes\<close> does with the record's constructor.\<close>

lemma wp_map:
  "in_reach buf p \<Longrightarrow> p \<le> length buf \<Longrightarrow>
     wp (bind (read len) (\<lambda>x. ret (f x))) (\<lambda>y q. p \<le> q \<and> q \<le> length buf) buf p"
  unfolding wp_bind by (rule wp_mono [OF within]) (auto simp: wp_ret)

lemma stable_map: "stable (bind (read len) (\<lambda>x. ret (f x)))"
  by (intro stable_rules stable_read)

end

text \<open>The strong contract: a record that parses has exactly the length its packet states.\<close>

locale exact_reader =
  fixes read :: "u16 \<Rightarrow> 'a reader"
  assumes exact: "in_reach buf p \<Longrightarrow> p \<le> length buf \<Longrightarrow>
      wp (read len) (\<lambda>x q. q = p + unat len \<and> q \<le> length buf) buf p"
    and exact_stable: "stable (read len)"
begin

lemma consumes: "in_reach buf p \<Longrightarrow> p \<le> length buf \<Longrightarrow> read len buf p = Ok (x, q) \<Longrightarrow> q = p + unat len"
  using wp_OkD [OF exact] by blast

lemma consumes_map:
  "in_reach buf p \<Longrightarrow> p \<le> length buf \<Longrightarrow> bind (read len) (\<lambda>x. ret (f x)) buf p = Ok (y, q) \<Longrightarrow> q = p + unat len"
  using wp_OkD [OF exact] by (fastforce simp: bind_def ret_def split: outcome.splits)

end

sublocale exact_reader \<subseteq> wire_reader read
proof
  show "wp (read len) (\<lambda>x q. p \<le> q \<and> q \<le> length buf) buf p"
    if "in_reach buf p" "p \<le> length buf" for buf p len
    using exact [OF that] by (rule wp_mono) simp
qed (rule exact_stable)


subsection \<open>The end of a record whose length was computed while reading\<close>

text \<open>
  Most records with names or strings in them compare the stated length with what they read,
  and return \<open>WrongLabelLength\<close> when they differ.
\<close>

definition check_length :: "u16 \<Rightarrow> u16 \<Rightarrow> 'a \<Rightarrow> 'a reader" where
  "check_length stated_length length_after_labels x =
     (if stated_length = length_after_labels then ret x
      else fail (WrongLabelLength stated_length length_after_labels))"

lemma wp_check_length [wp_rules]:
  "wp (check_length stated n x) Q buf p \<longleftrightarrow> (stated = n \<longrightarrow> Q x p)"
  by (simp add: check_length_def wp_rules)

lemma stable_check_length [stable_rules]: "stable (check_length stated n x)"
  unfolding check_length_def by (intro stable_rules)

lemma parses_check_length: "parses (check_length n n x) [] x"
  by (simp add: check_length_def parses_ret)


subsection \<open>Hexadecimal\<close>

definition hex_digit :: "nat \<Rightarrow> char" where
  "hex_digit n = ''0123456789abcdef'' ! n"

text \<open>A number in hexadecimal, as \<open>{n:x}\<close> formats it.\<close>

fun hex_nat :: "nat \<Rightarrow> string" where
  "hex_nat n = (if n < 16 then [hex_digit n] else hex_nat (n div 16) @ [hex_digit (n mod 16)])"

declare hex_nat.simps [simp del]

definition hex :: "u8 list \<Rightarrow> string" where
  "hex bytes =
     concat (map (\<lambda>byte. [hex_digit (unat (drop_bit 4 byte)), hex_digit (unat (byte AND 0xF))]) bytes)"

text \<open>Reading hexadecimal back: what the digits stand for.\<close>

definition hex_value :: "char \<Rightarrow> nat" where
  "hex_value c = (let n = of_char c in if n < 97 then n - 48 else n - 87)"

fun unhex :: "string \<Rightarrow> u8 list" where
  "unhex (a # b # s) = word_of_nat (hex_value a * 16 + hex_value b) # unhex s"
| "unhex _ = []"

lemma hex_value_digit:
  assumes "n < 16"
  shows "hex_value (hex_digit n) = n"
proof -
  have "n \<in> {0, 1, 2, 3, 4, 5, 6, 7, 8, 9, 10, 11, 12, 13, 14, 15}"
    unfolding insert_iff empty_iff using assms by presburger
  then show ?thesis by (auto simp: hex_value_def hex_digit_def)
qed

lemma unat_nibbles: "unat (drop_bit 4 (b :: u8)) = unat b div 16" "unat (b AND 0xF) = unat b mod 16"
proof -
  show "unat (drop_bit 4 b) = unat b div 16" by (simp add: unat_drop_bit_eq drop_bit_eq_div unat_div_distrib)
  have "b AND 0xF = take_bit 4 b"
    by (simp add: take_bit_eq_mask mask_eq_exp_minus_1)
  then show "unat (b AND 0xF) = unat b mod 16"
    by (simp add: unat_mod_distrib take_bit_eq_mod)
qed

text \<open>The hexadecimal text of some bytes has two digits for each, and stands for those bytes.\<close>

theorem unhex_hex: "unhex (hex bytes) = bytes \<and> length (hex bytes) = 2 * length bytes"
proof (induction bytes)
  case Nil
  show ?case by (simp add: hex_def)
next
  case (Cons b bytes)
  have "unat b div 16 < 16" "unat b mod 16 < 16" using unat_u8_less [of b] by simp_all
  then have "word_of_nat (hex_value (hex_digit (unat b div 16)) * 16 + hex_value (hex_digit (unat b mod 16))) = b"
    by (simp only: hex_value_digit div_mult_mod_eq) simp
  with Cons show ?case by (simp add: hex_def unat_nibbles)
qed

end
