(* ===== verification/Registry.thy ===== *)
theory Registry
  imports Rust_Str
begin

text \<open>
  The names of record types and DNSSEC numbers (\<open>dns/src/record/registry.rs\<close>), the types
  dog does not parse (\<open>record/others.rs\<close>), and the types it does (\<open>RecordType\<close> in
  \<open>record/mod.rs\<close>).
\<close>

subsection \<open>The IANA registries\<close>

definition RECORD_TYPES :: "(u16 \<times> string) list" where
  "RECORD_TYPES =
    [(1, ''A''),         (2, ''NS''),          (5, ''CNAME''),      (6, ''SOA''),
     (12, ''PTR''),      (13, ''HINFO''),      (15, ''MX''),        (16, ''TXT''),
     (17, ''RP''),       (18, ''AFSDB''),      (24, ''SIG''),       (25, ''KEY''),
     (28, ''AAAA''),     (29, ''LOC''),        (33, ''SRV''),       (35, ''NAPTR''),
     (36, ''KX''),       (37, ''CERT''),       (39, ''DNAME''),     (41, ''OPT''),
     (42, ''APL''),      (43, ''DS''),         (44, ''SSHFP''),     (45, ''IPSECKEY''),
     (46, ''RRSIG''),    (47, ''NSEC''),       (48, ''DNSKEY''),    (49, ''DHCID''),
     (50, ''NSEC3''),    (51, ''NSEC3PARAM''), (52, ''TLSA''),      (53, ''SMIMEA''),
     (55, ''HIP''),      (59, ''CDS''),        (60, ''CDNSKEY''),   (61, ''OPENPGPKEY''),
     (62, ''CSYNC''),    (63, ''ZONEMD''),     (64, ''SVCB''),      (65, ''HTTPS''),
     (108, ''EUI48''),   (109, ''EUI64''),     (249, ''TKEY''),     (250, ''TSIG''),
     (251, ''IXFR''),    (252, ''AXFR''),      (255, ''ANY''),      (256, ''URI''),
     (257, ''CAA''),     (32768, ''TA''),      (32769, ''DLV'')]"

definition DNSSEC_ALGORITHMS :: "(u8 \<times> string) list" where
  "DNSSEC_ALGORITHMS =
    [(1, ''RSAMD5''),          (3, ''DSA''),                 (5, ''RSASHA1''),
     (6, ''DSA-NSEC3-SHA1''),  (7, ''RSASHA1-NSEC3-SHA1''),  (8, ''RSASHA256''),
     (10, ''RSASHA512''),      (12, ''ECC-GOST''),           (13, ''ECDSAP256SHA256''),
     (14, ''ECDSAP384SHA384''), (15, ''ED25519''),           (16, ''ED448'')]"

definition DIGEST_TYPES :: "(u8 \<times> string) list" where
  "DIGEST_TYPES = [(1, ''SHA-1''), (2, ''SHA-256''), (3, ''GOST R 34.11-94''), (4, ''SHA-384'')]"

definition record_type_name :: "u16 \<Rightarrow> string option" where
  "record_type_name number = map_option snd (find (\<lambda>(n, _). n = number) RECORD_TYPES)"

definition record_type_by_name :: "string \<Rightarrow> (u16 \<times> string) option" where
  "record_type_by_name name = find (\<lambda>(_, n). eq_ignore_ascii_case n name) RECORD_TYPES"

definition dnssec_algorithm_name :: "u8 \<Rightarrow> string option" where
  "dnssec_algorithm_name number = map_option snd (find (\<lambda>(n, _). n = number) DNSSEC_ALGORITHMS)"

definition digest_type_name :: "u8 \<Rightarrow> string option" where
  "digest_type_name number = map_option snd (find (\<lambda>(n, _). n = number) DIGEST_TYPES)"


subsection \<open>Types dog does not parse\<close>

datatype UnknownQtype = HeardOf string u16 | UnheardOf u16

definition unknown_from_type_name :: "string \<Rightarrow> UnknownQtype option" where
  "unknown_from_type_name type_name =
     (case record_type_by_name type_name of
        None \<Rightarrow> None
      | Some (number, name) \<Rightarrow> Some (HeardOf name number))"

fun unknown_type_number :: "UnknownQtype \<Rightarrow> u16" where
  "unknown_type_number (HeardOf _ num) = num"
| "unknown_type_number (UnheardOf num) = num"

definition unknown_from_u16 :: "u16 \<Rightarrow> UnknownQtype" where
  "unknown_from_u16 qtype =
     (case record_type_name qtype of Some name \<Rightarrow> HeardOf name qtype | None \<Rightarrow> UnheardOf qtype)"

fun display_unknown :: "UnknownQtype \<Rightarrow> string" where
  "display_unknown (HeardOf name _) = name"
| "display_unknown (UnheardOf num) = dec (unat num)"


subsection \<open>Types dog parses\<close>

datatype RecordType =
    T_A | T_AAAA | T_CAA | T_CNAME | T_DNSKEY | T_DS | T_EUI48 | T_EUI64 | T_HINFO | T_LOC
  | T_MX | T_NAPTR | T_NS | T_NSEC | T_OPENPGPKEY | T_PTR | T_RRSIG | T_SSHFP | T_SOA | T_SRV
  | T_TLSA | T_TXT | T_URI | T_Other UnknownQtype

text \<open>The constants \<open>RR_TYPE\<close> of the record structures.\<close>

fun type_number :: "RecordType \<Rightarrow> u16" where
  "type_number T_A = 1"
| "type_number T_AAAA = 28"
| "type_number T_CAA = 257"
| "type_number T_CNAME = 5"
| "type_number T_DNSKEY = 48"
| "type_number T_DS = 43"
| "type_number T_EUI48 = 108"
| "type_number T_EUI64 = 109"
| "type_number T_HINFO = 13"
| "type_number T_LOC = 29"
| "type_number T_MX = 15"
| "type_number T_NAPTR = 35"
| "type_number T_NS = 2"
| "type_number T_NSEC = 47"
| "type_number T_OPENPGPKEY = 61"
| "type_number T_PTR = 12"
| "type_number T_RRSIG = 46"
| "type_number T_SSHFP = 44"
| "type_number T_SOA = 6"
| "type_number T_SRV = 33"
| "type_number T_TLSA = 52"
| "type_number T_TXT = 16"
| "type_number T_URI = 256"
| "type_number (T_Other u) = unknown_type_number u"

text \<open>The types the macro \<open>try_record!\<close> tries, in its order, with their constants \<open>NAME\<close>.\<close>

definition known_types :: "(RecordType \<times> string) list" where
  "known_types =
    [(T_A, ''A''), (T_AAAA, ''AAAA''), (T_CAA, ''CAA''), (T_CNAME, ''CNAME''),
     (T_DNSKEY, ''DNSKEY''), (T_DS, ''DS''), (T_EUI48, ''EUI48''), (T_EUI64, ''EUI64''),
     (T_HINFO, ''HINFO''), (T_LOC, ''LOC''), (T_MX, ''MX''), (T_NAPTR, ''NAPTR''),
     (T_NS, ''NS''), (T_NSEC, ''NSEC''), (T_OPENPGPKEY, ''OPENPGPKEY''), (T_PTR, ''PTR''),
     (T_RRSIG, ''RRSIG''), (T_SSHFP, ''SSHFP''), (T_SOA, ''SOA''), (T_SRV, ''SRV''),
     (T_TLSA, ''TLSA''), (T_TXT, ''TXT''), (T_URI, ''URI'')]"

definition record_type_from :: "u16 \<Rightarrow> RecordType" where
  "record_type_from number =
     (case find (\<lambda>(t, _). type_number t = number) known_types of
        Some (t, _) \<Rightarrow> t
      | None \<Rightarrow> T_Other (unknown_from_u16 number))"

definition from_type_name :: "string \<Rightarrow> RecordType option" where
  "from_type_name type_name =
     (case find (\<lambda>(_, n). eq_ignore_ascii_case n type_name) known_types of
        Some (t, _) \<Rightarrow> Some t
      | None \<Rightarrow> map_option T_Other (unknown_from_type_name type_name))"


subsection \<open>Numbers, names and types agree\<close>

lemma find_SomeD: "find P xs = Some x \<Longrightarrow> P x \<and> x \<in> set xs"
  by (metis find_Some_iff nth_mem)

lemma unknown_type_number_from [simp]: "unknown_type_number (unknown_from_u16 n) = n"
  by (simp add: unknown_from_u16_def split: option.split)

text \<open>
  Every record type number stands for one record type, and the type keeps its number: a
  type read from a packet or asked for by number is written with the same number.
\<close>

theorem type_number_record_type_from: "type_number (record_type_from n) = n"
  by (auto simp: record_type_from_def split: option.split dest: find_SomeD)

lemma eq_ignore_ascii_case_sym: "eq_ignore_ascii_case s t = eq_ignore_ascii_case t s"
  by (auto simp: eq_ignore_ascii_case_def eq_bytes_ignore_ascii_case_iff)

lemma eq_ignore_ascii_case_refl [simp]: "eq_ignore_ascii_case s s"
  by (simp add: eq_ignore_ascii_case_def eq_bytes_ignore_ascii_case_iff)

lemma eq_ignore_ascii_case_right:
  "eq_ignore_ascii_case s t \<Longrightarrow> eq_ignore_ascii_case n s = eq_ignore_ascii_case n t"
  by (simp add: eq_ignore_ascii_case_def eq_bytes_ignore_ascii_case_iff)

text \<open>The tables' names have no small letters, and among such names case does not matter.\<close>

definition upper_name :: "string \<Rightarrow> bool" where
  "upper_name s = list_all (\<lambda>c. (of_char c :: nat) < 0x61) s"

lemma unat_ascii_lower:
  "unat (ascii_lower b) = (if 65 \<le> unat b \<and> unat b \<le> 90 then unat b + 32 else unat b)"
  by (simp add: ascii_lower_def word_le_nat_alt unat_word_ariths)

lemma ascii_lower_inject_upper:
  assumes "(of_char c :: nat) < 0x61" and "(of_char d :: nat) < 0x61"
    and "ascii_lower (byte_of_char c) = ascii_lower (byte_of_char d)"
  shows "c = d"
proof -
  have "unat (ascii_lower (byte_of_char c)) = unat (ascii_lower (byte_of_char d))"
    using assms by simp
  then have "(of_char c :: nat) = of_char d"
    using assms(1,2) unfolding unat_ascii_lower unat_byte_of_char by (auto split: if_splits)
  then show ?thesis by (metis char_of_char)
qed

lemma map_inject_upper:
  "upper_name s \<Longrightarrow> upper_name t \<Longrightarrow>
     map (ascii_lower \<circ> byte_of_char) s = map (ascii_lower \<circ> byte_of_char) t \<Longrightarrow> s = t"
proof (induction s arbitrary: t)
  case Nil
  then show ?case by simp
next
  case (Cons c s)
  then obtain d t' where "t = d # t'" by (cases t) auto
  with Cons show ?case
    by (auto simp: upper_name_def intro: ascii_lower_inject_upper)
qed

lemma eq_ignore_ascii_case_upper:
  "upper_name s \<Longrightarrow> upper_name t \<Longrightarrow> eq_ignore_ascii_case s t \<longleftrightarrow> s = t"
  unfolding eq_ignore_ascii_case_def eq_bytes_ignore_ascii_case_iff bytes_of_def map_map
  using map_inject_upper by blast

lemma upper_names:
  "list_all (\<lambda>(_, name). upper_name name) known_types"
  "list_all (\<lambda>(_, name). upper_name name) RECORD_TYPES"
  by (simp_all add: known_types_def RECORD_TYPES_def upper_name_def)

lemma find_upper_name:
  "upper_name s \<Longrightarrow> list_all (\<lambda>(_, name). upper_name name) table \<Longrightarrow>
     find (\<lambda>(_, name). eq_ignore_ascii_case name s) table = find (\<lambda>(_, name). name = s) table"
  by (rule find_cong) (auto simp: list_all_iff eq_ignore_ascii_case_upper)

text \<open>The registry's names and the parsed types', all in one table of types.\<close>

definition names_agree :: "u16 \<times> string \<Rightarrow> bool" where
  "names_agree = (\<lambda>(n, name).
     from_type_name name = Some (record_type_from n) \<and> record_type_name n = Some name)"

lemma find_key:
  "distinct (map fst table) \<Longrightarrow> (k, v) \<in> set table \<Longrightarrow> find (\<lambda>(n, _). n = k) table = Some (k, v)"
  by (induction table) (auto simp: image_iff)

lemma find_value:
  "distinct (map snd table) \<Longrightarrow> (k, v) \<in> set table \<Longrightarrow> find (\<lambda>(_, x). x = v) table = Some (k, v)"
  by (induction table) (auto simp: image_iff)

lemma distinct_numbers: "distinct (map fst RECORD_TYPES)"
  by (simp add: RECORD_TYPES_def)

lemma distinct_names: "distinct (map snd RECORD_TYPES)"
  by (simp add: RECORD_TYPES_def)

lemma distinct_known: "distinct (map snd known_types)"
  by (simp add: known_types_def)

lemma known_types_registered:
  "(t, name) \<in> set known_types \<Longrightarrow> (type_number t, name) \<in> set RECORD_TYPES"
proof -
  have "list_all (\<lambda>(t, name). (type_number t, name) \<in> set RECORD_TYPES) known_types"
    by (simp add: known_types_def RECORD_TYPES_def)
  then show "(t, name) \<in> set known_types \<Longrightarrow> (type_number t, name) \<in> set RECORD_TYPES"
    by (auto simp: list_all_iff)
qed

lemma record_type_name_registered:
  "(n, name) \<in> set RECORD_TYPES \<Longrightarrow> record_type_name n = Some name"
  by (simp add: record_type_name_def find_key [OF distinct_numbers])

lemma registry_names_agree: "list_all names_agree RECORD_TYPES"
  unfolding list_all_iff names_agree_def
proof clarify
  fix n name
  assume reg: "(n, name) \<in> set RECORD_TYPES"
  note name = record_type_name_registered [OF reg]
  have upper: "upper_name name" using upper_names(2) reg by (auto simp: list_all_iff)
  have "type_number t = n \<longleftrightarrow> x = name" if "(t, x) \<in> set known_types" for t x
  proof
    assume "type_number t = n"
    with known_types_registered [OF that] have "record_type_name n = Some x"
      by (auto intro: record_type_name_registered)
    with name show "x = name" by simp
  next
    assume "x = name"
    with known_types_registered [OF that] show "type_number t = n"
      using find_value [OF distinct_names reg] find_value [OF distinct_names, of "type_number t" name]
      by simp
  qed
  then have same: "find (\<lambda>(t, _). type_number t = n) known_types = find (\<lambda>(_, x). x = name) known_types"
    by (intro find_cong) auto
  have "from_type_name name = Some (record_type_from n)"
    by (auto simp: from_type_name_def find_upper_name [OF upper] upper_names record_type_from_def
        same unknown_from_type_name_def record_type_by_name_def find_value [OF distinct_names reg]
        unknown_from_u16_def name split: option.split)
  with name show "from_type_name name = Some (record_type_from n) \<and> record_type_name n = Some name"
    by simp
qed

text \<open>
  Every name in the registry, in any mix of cases, is accepted as a record type's name, and
  stands for the same type as the registry's number does, whether dog can parse that type or not;
  the number is shown by that name.
\<close>

theorem registry_name_is_type:
  assumes "(n, name) \<in> set RECORD_TYPES" and "eq_ignore_ascii_case s name"
  shows "from_type_name s = Some (record_type_from n) \<and> record_type_name n = Some name"
proof -
  have "eq_ignore_ascii_case x s = eq_ignore_ascii_case x name" for x
    by (rule eq_ignore_ascii_case_right [OF assms(2)])
  then have "from_type_name s = from_type_name name"
    by (simp only: from_type_name_def unknown_from_type_name_def record_type_by_name_def)
  with assms(1) registry_names_agree show ?thesis
    by (auto simp: list_all_iff names_agree_def)
qed

lemma registry_name_is_type_witness:
  "from_type_name ''https'' = Some (record_type_from 65)"
  using registry_name_is_type [of 65 "''HTTPS''" "''https''"]
  by (simp add: RECORD_TYPES_def eq_ignore_ascii_case_def eq_bytes_ignore_ascii_case_def
      bytes_of_def byte_of_char_def ascii_lower_def)

end
