(* ===== verification/Labels.thy ===== *)
theory Labels
  imports Cursor Rust_Str
begin

text \<open>
  Domain names (\<open>dns/src/strings.rs\<close>): the names a user types (\<open>Labels::encode\<close>), the
  names in packets, with their compression pointers (\<open>read_string_recursive\<close> and
  \<open>write_labels\<close>), and the way they are compared and displayed.

  The specification of a compressed name is the inductive relation \<open>name_at\<close>; the loop and
  the recursion of the code are shown to compute it, to end, and never to panic.
\<close>

subsection \<open>Names\<close>

record labels =
  segments :: "u8 list list"

definition MAX_LABEL :: nat where "MAX_LABEL = 63"
definition MAX_NAME :: nat where "MAX_NAME = 255"
definition RECURSION_LIMIT :: nat where "RECURSION_LIMIT = 8"

text \<open>Why a name is invalid; the code writes each reason as a sentence with the label in it.\<close>

datatype InvalidName =
    EmptyName
  | EmptyLabel
  | SpaceOrControl string
  | NotInternationalised string
  | LabelTooLong string
  | NameTooLong

definition root :: labels where
  "root = \<lparr>segments = []\<rparr>"

definition wire_length :: "labels \<Rightarrow> nat" where
  "wire_length ls = sum_list (map (\<lambda>segment. length segment + 1) (segments ls)) + 1"

definition labels_len :: "labels \<Rightarrow> nat" where
  "labels_len ls = length (segments ls)"

definition extend :: "labels \<Rightarrow> labels \<Rightarrow> labels" where
  "extend ls other = \<lparr>segments = segments ls @ segments other\<rparr>"

definition labels_eq_ignore_ascii_case :: "labels \<Rightarrow> labels \<Rightarrow> bool" where
  "labels_eq_ignore_ascii_case a b =
     (length (segments a) = length (segments b)
      \<and> list_all (\<lambda>(x, y). eq_bytes_ignore_ascii_case x y) (zip (segments a) (segments b)))"


subsection \<open>Encoding the names users type\<close>

text \<open>
  \<open>label_to_ascii\<close> is the \<open>idna\<close> crate's UTS 46 processing, which is not part of the
  repository, so it is a parameter. Compiled without IDNA support, it is \<open>Some\<close>.
\<close>

definition label_to_ascii_plain :: "string \<Rightarrow> string option" where
  "label_to_ascii_plain label = Some label"

definition encode_label :: "(string \<Rightarrow> string option) \<Rightarrow> string \<Rightarrow> (InvalidName, u8 list) outcome" where
  "encode_label label_to_ascii label =
     (if label = [] then Err EmptyLabel
      else if list_ex (\<lambda>c. is_whitespace c \<or> is_control c) (chars label) then Err (SpaceOrControl label)
      else case label_to_ascii label of
        None \<Rightarrow> Err (NotInternationalised label)
      | Some ascii \<Rightarrow>
          if length ascii > MAX_LABEL then Err (LabelTooLong label) else Ok (bytes_of ascii))"

definition encode :: "(string \<Rightarrow> string option) \<Rightarrow> string \<Rightarrow> (InvalidName, labels) outcome" where
  "encode label_to_ascii input =
     (if input = ''.'' then Ok root
      else if input = [] then Err EmptyName
      else
        let without_root = (case strip_suffix_char CHR ''.'' input of Some s \<Rightarrow> s | None \<Rightarrow> input) in
        bind_outcome (collect_outcome (encode_label label_to_ascii) (split_char CHR ''.'' without_root))
          (\<lambda>segs. let labels = \<lparr>segments = segs\<rparr> in
             if wire_length labels > MAX_NAME then Err NameTooLong else Ok labels))"


subsection \<open>Displaying names\<close>

definition write_name_byte :: "u8 \<Rightarrow> string" where
  "write_name_byte b =
     (if b = byte_of_char CHR ''.'' \<or> b = byte_of_char CHR 0x5C \<or> b = byte_of_char CHR 0x22
      then [CHR 0x5C, char_of_byte b]
      else if 0x21 \<le> b \<and> b \<le> 0x7E then [char_of_byte b]
      else CHR 0x5C # dec_padded 3 (unat b))"

definition display_segment :: "u8 list \<Rightarrow> string" where
  "display_segment segment = concat (map write_name_byte segment) @ ''.''"

definition display_labels :: "labels \<Rightarrow> string" where
  "display_labels ls =
     (if segments ls = [] then ''.'' else concat (map display_segment (segments ls)))"


subsection \<open>Writing names to a packet\<close>

datatype IoError = InvalidInput

definition write_label :: "u8 list \<Rightarrow> (IoError, u8 list) outcome" where
  "write_label label =
     (if length label < 256 then Ok (word_of_nat (length label) # label) else Err InvalidInput)"

definition write_labels :: "labels \<Rightarrow> (IoError, u8 list) outcome" where
  "write_labels ls =
     bind_outcome (collect_outcome write_label (segments ls)) (\<lambda>parts. Ok (concat parts @ [0]))"


subsection \<open>Reading names from a packet\<close>

text \<open>The bytes of one label, each counted as it is read.\<close>

fun read_chars :: "nat \<Rightarrow> u8 list \<Rightarrow> u16 \<Rightarrow> (u8 list \<times> u16) reader" where
  "read_chars 0 name_buf bytes_read = ret (name_buf, bytes_read)"
| "read_chars (Suc k) name_buf bytes_read =
     bind read_u8 (\<lambda>c.
     bind (checked_add bytes_read 1) (\<lambda>bytes_read.
     read_chars k (name_buf @ [c]) bytes_read))"

lemma bind_fundef_cong [fundef_cong]:
  assumes "m buf p = m' buf' p'" "buf = buf'"
    and "\<And>x q. m' buf' p' = Ok (x, q) \<Longrightarrow> f x buf' q = f' x buf' q"
  shows "bind m f buf p = bind m' f' buf' p'"
  using assms by (auto simp: bind_def split: outcome.splits)

lemma read_chars_advances:
  "read_chars k name_buf n buf p = Ok (x, q) \<Longrightarrow> q = p + k"
proof (induction k arbitrary: name_buf n p)
  case 0
  then show ?case by (simp add: ret_def)
next
  case (Suc k)
  then have "read_chars k (name_buf @ [buf ! p]) (n + 1) buf (p + 1) = Ok (x, q)"
    by (auto simp: bind_def read_u8_def add_or_panic_def split: if_splits)
  from Suc.IH [OF this] show ?case by simp
qed

text \<open>
  \<open>read_string_recursive\<close>: the loop over the labels of a name, with a recursive call for
  a pointer, whose own count of bytes is dropped. The offsets already followed are in
  \<open>recursions\<close>.
\<close>

function read_string_recursive :: "labels \<Rightarrow> u16 list \<Rightarrow> u16 \<Rightarrow> (labels \<times> u16) reader" where
  "read_string_recursive labels recursions bytes_read buf p =
     bind read_u8 (\<lambda>byte.
     bind (checked_add bytes_read 1) (\<lambda>bytes_read buf p.
       if byte = 0 then ret (labels, bytes_read) buf p
       else if 0xC0 \<le> byte then
         bind read_u8 (\<lambda>name_two.
         bind (checked_add bytes_read 1) (\<lambda>bytes_read buf new_pos.
           let offset = be16 (byte - 0xC0) name_two in
           if List.member recursions offset then Err (TooMuchRecursion recursions)
           else
             let recursions = recursions @ [offset] in
             if RECURSION_LIMIT \<le> length recursions then Err (TooMuchRecursion recursions)
             else case read_string_recursive labels recursions 0 buf (unat offset) of
                 Ok ((labels, _), _) \<Rightarrow> Ok ((labels, bytes_read), new_pos)
               | Err e \<Rightarrow> Err e
               | Panic \<Rightarrow> Panic)) buf p
       else
         bind (read_chars (unat byte) [] bytes_read) (\<lambda>x buf p.
           case x of (name_buf, bytes_read) \<Rightarrow>
             read_string_recursive (labels\<lparr>segments := segments labels @ [name_buf]\<rparr>)
               recursions bytes_read buf p) buf p)) buf p"
  by pat_completeness auto
termination
  by (relation "measures [\<lambda>(_, recursions, _). RECURSION_LIMIT - length recursions,
                          \<lambda>(_, _, _, buf, p). length buf - p]")
    (auto simp: read_u8_def add_or_panic_def dest!: read_chars_advances split: if_splits)

declare read_string_recursive.simps [simp del]

definition read_labels :: "(labels \<times> u16) reader" where
  "read_labels = read_string_recursive root [] 0"


subsection \<open>The reader, one step at a time\<close>

lemma read_chars_eq:
  assumes "unat n + (length buf - p) < 65536"
  shows "read_chars k name_buf n buf p =
    (if k \<le> length buf - p then Ok ((name_buf @ take k (drop p buf), n + word_of_nat k), p + k)
     else Err IO)"
  using assms
proof (induction k arbitrary: name_buf n p)
  case 0
  then show ?case by (simp add: ret_def)
next
  case (Suc k)
  show ?case
  proof (cases "p < length buf")
    case True
    then have step: "unat n + 1 < 65536" "unat (n + 1) + (length buf - (p + 1)) < 65536"
      using Suc.prems unat_add_no_overflow [of n 1] by simp_all
    have "take (Suc k) (drop p buf) = buf ! p # take k (drop (p + 1) buf)"
      using True by (metis Cons_nth_drop_Suc Suc_eq_plus1 take_Suc_Cons)
    with True step Suc.IH [OF step(2)] show ?thesis
      by (auto simp: bind_def read_u8_def add_or_panic_def)
  next
    case False
    then show ?thesis by (simp add: bind_def read_u8_def)
  qed
qed

lemma read_string_step:
  assumes "unat n + (length buf - p) < 65536"
  shows "read_string_recursive ls recs n buf p =
    (if length buf \<le> p then Err IO
     else if buf ! p = 0 then Ok ((ls, n + 1), p + 1)
     else if 0xC0 \<le> buf ! p then
       if length buf \<le> p + 1 then Err IO
       else
         let offset = be16 (buf ! p - 0xC0) (buf ! (p + 1)) in
         if offset \<in> set recs then Err (TooMuchRecursion recs)
         else if RECURSION_LIMIT \<le> length recs + 1 then Err (TooMuchRecursion (recs @ [offset]))
         else (case read_string_recursive ls (recs @ [offset]) 0 buf (unat offset) of
             Ok ((ls', _), _) \<Rightarrow> Ok ((ls', n + 2), p + 2)
           | Err e \<Rightarrow> Err e
           | Panic \<Rightarrow> Panic)
     else if length buf - (p + 1) < unat (buf ! p) then Err IO
     else read_string_recursive
       (ls\<lparr>segments := segments ls @ [take (unat (buf ! p)) (drop (p + 1) buf)]\<rparr>)
       recs (n + 1 + word_of_nat (unat (buf ! p))) buf (p + 1 + unat (buf ! p)))"
proof (cases "p < length buf")
  case True
  then have step: "unat n + 1 < 65536" "unat (n + 1) + (length buf - (p + 1)) < 65536"
    using assms unat_add_no_overflow [of n 1] by simp_all
  have step2: "unat (n + 1) + 1 < 65536" if "p + 1 < length buf"
    using that step assms by simp
  have two: "n + 1 + 1 = n + 2" by (simp add: add.assoc)
  show ?thesis
    using True step step2 two
    by (subst read_string_recursive.simps)
      (auto simp: bind_def read_u8_def add_or_panic_def ret_def Let_def read_chars_eq
        split: outcome.splits)
next
  case False
  then show ?thesis
    by (subst read_string_recursive.simps) (simp add: bind_def read_u8_def)
qed

text \<open>
  The order the reader goes down in: a pointer adds to the offsets followed, a label moves
  on in the packet.
\<close>

lemma name_induct [case_names step]:
  assumes "\<And>ls recs n p.
      (\<And>ls' recs' n' p'. length recs < length recs' \<Longrightarrow> length recs' < RECURSION_LIMIT \<Longrightarrow>
         P ls' recs' n' p') \<Longrightarrow>
      (\<And>ls' n' p'. p < p' \<Longrightarrow> p' \<le> length buf \<Longrightarrow> P ls' recs n' p') \<Longrightarrow> P ls recs n p"
  shows "P (ls :: labels) (recs :: u16 list) (n :: u16) (p :: nat)"
proof -
  let ?r = "measures [\<lambda>(recs :: u16 list, p). RECURSION_LIMIT - length recs, \<lambda>(recs, p). length buf - p]"
  have "\<forall>ls n. P ls (fst z) n (snd z)" for z :: "u16 list \<times> nat"
  proof (induction z rule: wf_induct_rule [OF wf_measures, where fs1 =
        "[\<lambda>(recs, p). RECURSION_LIMIT - length recs, \<lambda>(recs, p). length buf - p]"])
    case (1 z)
    show ?case
    proof (rule allI, rule allI, rule assms)
      fix ls' and recs' :: "u16 list" and n' and p' :: nat
      assume "length (fst z) < length recs'" "length recs' < RECURSION_LIMIT"
      then have "((recs', p'), z) \<in> ?r" by (cases z) auto
      with 1 show "P ls' recs' n' p'" by fastforce
    next
      fix ls' n' p'
      assume "snd z < p'" "p' \<le> length buf"
      then have "((fst z, p'), z) \<in> ?r" by (cases z) auto
      with 1 show "P ls' (fst z) n' p'" by fastforce
    qed
  qed
  from this [of "(recs, p)"] show ?thesis by simp
qed


subsection \<open>The reader never panics, and counts what it consumes\<close>

lemma unat_advance:
  fixes n :: u16
  assumes "unat n + 1 + k < 65536"
  shows "unat (n + 1 + word_of_nat k) = unat n + 1 + k"
proof -
  have "unat (n + 1) = unat n + 1" using assms unat_add_no_overflow [of n 1] by simp
  with assms show ?thesis using unat_add_no_overflow [of "n + 1" "word_of_nat k"] by simp
qed

lemma read_string_advances:
  assumes "length buf < 65536"
  shows "unat n + (length buf - p) < 65536 \<Longrightarrow>
    wp (read_string_recursive ls recs n)
      (\<lambda>(ls', n') q. p < q \<and> q \<le> length buf \<and> unat n' = unat n + (q - p)) buf p"
proof (induction ls recs n p rule: name_induct [where buf = buf])
  case (step ls recs n p)
  note bound = step.prems
  note eq = read_string_step [OF bound, of ls recs]
  show ?case
  proof (cases "p < length buf")
    case False
    then show ?thesis by (simp add: wp_def eq)
  next
    case True
    note one = unat_add_no_overflow [of n 1]
    consider (zero) "buf ! p = 0" | (pointer) "0xC0 \<le> buf ! p"
      | (label) "buf ! p \<noteq> 0" "\<not> 0xC0 \<le> buf ! p" by blast
    then show ?thesis
    proof cases
      case zero
      with True bound one show ?thesis by (simp add: wp_def eq)
    next
      case pointer
      then have "buf ! p \<noteq> 0" by auto
      define offset where "offset = be16 (buf ! p - 0xC0) (buf ! (p + 1))"
      have "wp (read_string_recursive ls (recs @ [offset]) 0) (\<lambda>_ _. True) buf (unat offset)"
        if "length recs + 1 < RECURSION_LIMIT"
        by (rule wp_mono [OF step.IH(1)]) (use that assms in auto)
      then have "read_string_recursive ls (recs @ [offset]) 0 buf (unat offset) \<noteq> Panic"
        if "\<not> RECURSION_LIMIT \<le> length recs + 1"
        using that wp_no_panic by (metis not_le)
      moreover have "unat (n + 2) = unat n + 2" if "p + 1 < length buf"
        using that bound unat_add_no_overflow [of n 2] by simp
      ultimately show ?thesis
        using True pointer \<open>buf ! p \<noteq> 0\<close>
        by (auto simp: wp_def eq Let_def offset_def split: outcome.splits)
    next
      case label
      let ?k = "unat (buf ! p)"
      let ?ls = "ls\<lparr>segments := segments ls @ [take ?k (drop (p + 1) buf)]\<rparr>"
      show ?thesis
      proof (cases "?k \<le> length buf - (p + 1)")
        case False
        with True label show ?thesis by (simp add: wp_def eq)
      next
        case fits: True
        then have n': "unat (n + 1 + word_of_nat ?k) = unat n + 1 + ?k"
          using True bound unat_u8_less [of "buf ! p"] by (intro unat_advance) linarith
        have "wp (read_string_recursive ?ls recs (n + 1 + word_of_nat ?k))
            (\<lambda>(ls', n') q. p + 1 + ?k < q \<and> q \<le> length buf
              \<and> unat n' = unat n + 1 + ?k + (q - (p + 1 + ?k))) buf (p + 1 + ?k)"
          unfolding n' [symmetric]
          by (rule step.IH(2)) (use True fits bound n' in auto)
        moreover have "read_string_recursive ls recs n buf p
            = read_string_recursive ?ls recs (n + 1 + word_of_nat ?k) buf (p + 1 + ?k)"
          using True label fits by (simp add: eq)
        ultimately show ?thesis by (auto simp: wp_def split: outcome.splits)
      qed
    qed
  qed
qed

lemma wp_read_labels:
  assumes "length buf < 65536"
    and "\<And>ls n. p < p + unat n \<Longrightarrow> p + unat n \<le> length buf \<Longrightarrow> Q (ls, n) (p + unat n)"
  shows "wp read_labels Q buf p"
proof -
  have "wp read_labels (\<lambda>(ls', n') q. p < q \<and> q \<le> length buf \<and> unat n' = 0 + (q - p)) buf p"
    unfolding read_labels_def
    using read_string_advances [OF assms(1), of 0 p root "[]"] assms(1) by simp
  then show ?thesis
  proof (rule wp_mono)
    fix x :: "labels \<times> u16" and q
    obtain ls m where x: "x = (ls, m)" by (cases x)
    assume "(case x of (ls', n') \<Rightarrow> \<lambda>q. p < q \<and> q \<le> length buf \<and> unat n' = 0 + (q - p)) q"
    with x have adv: "p < p + unat m" "p + unat m \<le> length buf" and q: "q = p + unat m" by auto
    from adv show "Q x q" unfolding x q by (rule assms(2))
  qed
qed


subsection \<open>Names in packets, specified\<close>

text \<open>
  \<open>name_at buf p hops segs n\<close>: the packet \<open>buf\<close> has at \<open>p\<close> a name with the labels
  \<open>segs\<close> that takes up \<open>n\<close> bytes there, and \<open>hops\<close> are the offsets its pointers lead
  through (RFC 1035, 4.1.4).
\<close>

inductive name_at :: "u8 list \<Rightarrow> nat \<Rightarrow> u16 list \<Rightarrow> u8 list list \<Rightarrow> nat \<Rightarrow> bool" for buf where
  name_end: "p < length buf \<Longrightarrow> buf ! p = 0 \<Longrightarrow> name_at buf p [] [] 1"
| name_label: "p < length buf \<Longrightarrow> buf ! p \<noteq> 0 \<Longrightarrow> buf ! p < 0xC0 \<Longrightarrow>
     p + 1 + unat (buf ! p) \<le> length buf \<Longrightarrow>
     name_at buf (p + 1 + unat (buf ! p)) hops segs n \<Longrightarrow>
     name_at buf p hops (take (unat (buf ! p)) (drop (p + 1) buf) # segs) (1 + unat (buf ! p) + n)"
| name_pointer: "p + 1 < length buf \<Longrightarrow> 0xC0 \<le> buf ! p \<Longrightarrow>
     offset = be16 (buf ! p - 0xC0) (buf ! (p + 1)) \<Longrightarrow>
     name_at buf (unat offset) hops segs n \<Longrightarrow>
     name_at buf p (offset # hops) segs 2"

lemma name_at_bound: "name_at buf p hops segs n \<Longrightarrow> 0 < n \<and> p + n \<le> length buf"
  by (induction rule: name_at.induct) auto

text \<open>The offsets already followed, and those still to follow.\<close>

definition hops_allowed :: "u16 list \<Rightarrow> u16 list \<Rightarrow> bool" where
  "hops_allowed recs hops \<longleftrightarrow>
     distinct hops \<and> set hops \<inter> set recs = {} \<and> (hops = [] \<or> length recs + length hops < RECURSION_LIMIT)"

lemma hops_allowed_Nil [simp]: "hops_allowed recs []"
  by (simp add: hops_allowed_def)

lemma hops_allowed_Cons:
  "hops_allowed recs (h # hops) \<longleftrightarrow>
     h \<notin> set recs \<and> length recs + 1 < RECURSION_LIMIT \<and> hops_allowed (recs @ [h]) hops"
  by (auto simp: hops_allowed_def)

lemma name_at_read:
  assumes "name_at buf p hops segs k" and "length buf < 65536"
    and "unat n + (length buf - p) < 65536" and "hops_allowed recs hops"
  shows "read_string_recursive ls recs n buf p
    = Ok ((ls\<lparr>segments := segments ls @ segs\<rparr>, n + word_of_nat k), p + k)"
  using assms
proof (induction arbitrary: ls recs n rule: name_at.induct)
  case (name_end p)
  then show ?case by (simp add: read_string_step)
next
  case (name_label p hops segs k)
  let ?k = "unat (buf ! p)"
  have n': "unat (n + 1 + word_of_nat ?k) = unat n + 1 + ?k"
    using name_label by (intro unat_advance) linarith
  have "\<not> 0xC0 \<le> buf ! p" "\<not> length buf \<le> p" "\<not> length buf - (p + 1) < ?k"
    using name_label.hyps by (auto simp: not_le)
  with name_label.hyps(2) have "read_string_recursive ls recs n buf p =
    read_string_recursive (ls\<lparr>segments := segments ls @ [take ?k (drop (p + 1) buf)]\<rparr>)
      recs (n + 1 + word_of_nat ?k) buf (p + 1 + ?k)"
    by (simp only: read_string_step [OF name_label.prems(2), of ls recs] if_False)
  also have "\<dots> = Ok ((ls\<lparr>segments := segments ls @ take ?k (drop (p + 1) buf) # segs\<rparr>,
      n + 1 + word_of_nat ?k + word_of_nat k), p + 1 + ?k + k)"
    using name_label.IH [OF name_label.prems(1) _ name_label.prems(3)] name_label.prems(2)
      name_label.hyps n' by simp
  finally show ?case by (simp add: add.assoc)
next
  case (name_pointer p offset hops segs k)
  from name_pointer.prems(3) have h: "offset \<notin> set recs" "length recs + 1 < RECURSION_LIMIT"
      "hops_allowed (recs @ [offset]) hops"
    by (simp_all add: hops_allowed_Cons)
  have "read_string_recursive ls (recs @ [offset]) 0 buf (unat offset)
      = Ok ((ls\<lparr>segments := segments ls @ segs\<rparr>, 0 + word_of_nat k), unat offset + k)"
    by (rule name_pointer.IH) (use name_pointer.prems h in auto)
  moreover from name_pointer.hyps(2) have "buf ! p \<noteq> 0" by auto
  ultimately show ?case
    using name_pointer.hyps h by (simp add: read_string_step [OF name_pointer.prems(2)] Let_def)
qed

lemma read_name_at:
  assumes "length buf < 65536"
  shows "unat n + (length buf - p) < 65536 \<Longrightarrow>
    read_string_recursive ls recs n buf p = Ok ((ls', n'), q) \<Longrightarrow>
    \<exists>hops segs k. name_at buf p hops segs k \<and> hops_allowed recs hops
      \<and> segments ls' = segments ls @ segs"
proof (induction ls recs n p arbitrary: ls' n' q rule: name_induct [where buf = buf])
  case (step ls recs n p)
  note eq = read_string_step [OF step.prems(1), of ls recs]
  note ok = step.prems(2) [unfolded eq]
  have p: "p < length buf" using ok by (auto split: if_splits)
  consider (zero) "buf ! p = 0" | (pointer) "0xC0 \<le> buf ! p"
    | (label) "buf ! p \<noteq> 0" "\<not> 0xC0 \<le> buf ! p" by blast
  then show ?case
  proof cases
    case zero
    with p have "name_at buf p [] [] 1" by (intro name_end)
    moreover from zero ok p have "segments ls' = segments ls @ []" by auto
    ultimately show ?thesis using hops_allowed_Nil by blast
  next
    case pointer
    then have nz: "buf ! p \<noteq> 0" by auto
    define offset where "offset = be16 (buf ! p - 0xC0) (buf ! (p + 1))"
    from ok p pointer nz obtain m q' where
      p1: "p + 1 < length buf" and new: "offset \<notin> set recs"
      and lim: "length recs + 1 < RECURSION_LIMIT"
      and sub: "read_string_recursive ls (recs @ [offset]) 0 buf (unat offset) = Ok ((ls', m), q')"
      by (auto simp: Let_def offset_def not_le split: if_splits outcome.splits)
    have "\<exists>hops segs k. name_at buf (unat offset) hops segs k
        \<and> hops_allowed (recs @ [offset]) hops \<and> segments ls' = segments ls @ segs"
      by (rule step.IH(1) [OF _ _ _ sub]) (use lim assms in auto)
    then obtain hops segs k where sub': "name_at buf (unat offset) hops segs k"
        "hops_allowed (recs @ [offset]) hops" "segments ls' = segments ls @ segs"
      by blast
    from name_pointer [OF p1 pointer offset_def sub'(1)] new lim sub' show ?thesis
      by (metis hops_allowed_Cons)
  next
    case label
    let ?k = "unat (buf ! p)"
    let ?ls = "ls\<lparr>segments := segments ls @ [take ?k (drop (p + 1) buf)]\<rparr>"
    from ok p label have fits: "p + 1 + ?k \<le> length buf"
      and rest: "read_string_recursive ?ls recs (n + 1 + word_of_nat ?k) buf (p + 1 + ?k) = Ok ((ls', n'), q)"
      by (auto split: if_splits)
    have n': "unat (n + 1 + word_of_nat ?k) = unat n + 1 + ?k"
      using fits step.prems(1) by (intro unat_advance) linarith
    have "\<exists>hops segs k. name_at buf (p + 1 + ?k) hops segs k
        \<and> hops_allowed recs hops \<and> segments ls' = segments ?ls @ segs"
      by (rule step.IH(2) [OF _ fits _ rest]) (use n' fits step.prems(1) in auto)
    then obtain hops segs k where "name_at buf (p + 1 + ?k) hops segs k"
        "hops_allowed recs hops" "segments ls' = segments ?ls @ segs" by blast
    moreover from this have "name_at buf p hops (take ?k (drop (p + 1) buf) # segs) (1 + ?k + k)"
      using p label fits by (intro name_label) (auto simp: not_le)
    ultimately show ?thesis by fastforce
  qed
qed


subsection \<open>The reader computes the specification\<close>

lemma read_labels_name_at:
  assumes "length buf < 65536" and "name_at buf p hops segs k" and "distinct hops"
    and "length hops < RECURSION_LIMIT"
  shows "read_labels buf p = Ok ((\<lparr>segments = segs\<rparr>, word_of_nat k), p + k)"
  using name_at_read [OF assms(2,1), of 0 "[]" root] assms
  by (simp add: read_labels_def hops_allowed_def root_def)

lemma name_at_read_labels:
  assumes "length buf < 65536" and "read_labels buf p = Ok ((ls, n), q)"
  obtains hops where "name_at buf p hops (segments ls) (unat n)" "distinct hops"
    "length hops < RECURSION_LIMIT" "q = p + unat n"
proof -
  from assms(1) have "unat (0 :: u16) + (length buf - p) < 65536" by simp
  from read_name_at [OF assms(1) this assms(2) [unfolded read_labels_def]]
  obtain hops k where *: "name_at buf p hops (segments ls) k" "hops_allowed [] hops"
    by (auto simp: root_def)
  then have "distinct hops" "length hops < RECURSION_LIMIT"
    by (auto simp: hops_allowed_def RECURSION_LIMIT_def)
  moreover from read_labels_name_at [OF assms(1) *(1) this] assms(2)
  have "n = word_of_nat k" "q = p + k" by auto
  moreover have "k < 65536" using name_at_bound [OF *(1)] assms(1) by linarith
  ultimately show ?thesis using that * by simp
qed

lemma name_at_append: "name_at buf p hops segs n \<Longrightarrow> name_at (buf @ zs) p hops segs n"
proof (induction rule: name_at.induct)
  case (name_end p)
  then show ?case by (intro name_at.name_end) (simp_all add: nth_append)
next
  case (name_label p hops segs n)
  then have "name_at (buf @ zs) p hops (take (unat ((buf @ zs) ! p)) (drop (p + 1) (buf @ zs)) # segs)
      (1 + unat ((buf @ zs) ! p) + n)"
    by (intro name_at.name_label) (simp_all add: nth_append)
  with name_label show ?case by (simp add: nth_append)
next
  case (name_pointer p offset hops segs n)
  then show ?case by (intro name_at.name_pointer) (simp_all add: nth_append)
qed

lemma stable_read_labels [stable_rules]: "stable read_labels"
proof (rule stableI)
  fix buf p x q zs
  assume len: "length (buf @ zs) < 65536" and ok: "read_labels buf p = Ok (x, q)"
  obtain ls n where x: "x = (ls, n)" by (cases x)
  from len have "length buf < 65536" by simp
  from this ok obtain hops where "name_at buf p hops (segments ls) (unat n)" "distinct hops"
      "length hops < RECURSION_LIMIT" "q = p + unat n"
    unfolding x by (rule name_at_read_labels)
  with read_labels_name_at [OF len name_at_append] show "read_labels (buf @ zs) p = Ok (x, q)"
    by (simp add: x)
qed

text \<open>
  C9: Reading a name returns exactly what the specification of compressed names says: the
  code's loop and recursion succeed on a packet of at most 65535 bytes, with these labels and
  this count of bytes, if and only if the packet holds that name there, reached through
  pointers to fewer than eight distinct offsets. In particular a cycle of pointers is never
  followed for ever.
\<close>

theorem read_labels_iff_name_at:
  assumes "length buf < 65536"
  shows "read_labels buf p = Ok ((ls, n), q) \<longleftrightarrow>
    q = p + unat n \<and>
    (\<exists>hops. name_at buf p hops (segments ls) (unat n) \<and> distinct hops \<and> length hops < RECURSION_LIMIT)"
proof
  assume "read_labels buf p = Ok ((ls, n), q)"
  with assms show "q = p + unat n \<and>
    (\<exists>hops. name_at buf p hops (segments ls) (unat n) \<and> distinct hops \<and> length hops < RECURSION_LIMIT)"
    by (metis name_at_read_labels)
next
  assume "q = p + unat n \<and>
    (\<exists>hops. name_at buf p hops (segments ls) (unat n) \<and> distinct hops \<and> length hops < RECURSION_LIMIT)"
  with assms show "read_labels buf p = Ok ((ls, n), q)"
    by (auto dest: read_labels_name_at)
qed

theorem read_labels_iff_name_at_witness:
  "read_labels [3, 0x77, 0x77, 0x77, 0, 0xC0, 0] 5 = Ok ((\<lparr>segments = [[0x77, 0x77, 0x77]]\<rparr>, 2), 7)
   \<and> (\<exists>hops. name_at [3, 0x77, 0x77, 0x77, 0, 0xC0, 0] 5 hops [[0x77, 0x77, 0x77]] 2)"
proof -
  let ?buf = "[3, 0x77, 0x77, 0x77, 0, 0xC0, 0] :: u8 list"
  have "read_labels ?buf 5 = Ok ((\<lparr>segments = [[0x77, 0x77, 0x77]]\<rparr>, 2), 7)"
    by (simp add: read_labels_def read_string_step be16_def RECURSION_LIMIT_def root_def)
  moreover from this have "\<exists>hops. name_at ?buf 5 hops [[0x77, 0x77, 0x77]] 2"
    using read_labels_iff_name_at [of ?buf 5 "\<lparr>segments = [[0x77, 0x77, 0x77]]\<rparr>" 2 7] by auto
  ultimately show ?thesis by blast
qed


subsection \<open>Writing a name and reading it back\<close>

abbreviation label_bytes :: "u8 list \<Rightarrow> u8 list" where
  "label_bytes label \<equiv> word_of_nat (length label) # label"

lemma write_labels_Ok_iff:
  "write_labels ls = Ok bs \<longleftrightarrow>
     (\<forall>s \<in> set (segments ls). length s < 256) \<and> bs = concat (map label_bytes (segments ls)) @ [0]"
proof -
  have "collect_outcome write_label segs = Ok parts \<longleftrightarrow>
      (\<forall>s \<in> set segs. length s < 256) \<and> parts = map label_bytes segs" for segs parts
    by (induction segs arbitrary: parts) (auto simp: write_label_def bind_outcome_Ok_iff)
  then show ?thesis by (auto simp: write_labels_def bind_outcome_Ok_iff)
qed

lemma length_label_bytes:
  "length (concat (map label_bytes (segments ls)) @ [0]) = wire_length ls"
  by (simp add: wire_length_def length_concat comp_def)

text \<open>Labels short enough not to look like a pointer, and long enough not to end the name.\<close>

definition readable_segment :: "u8 list \<Rightarrow> bool" where
  "readable_segment s \<longleftrightarrow> s \<noteq> [] \<and> length s < 0xC0"

lemma name_at_label_bytes:
  assumes "list_all readable_segment segs"
  shows "name_at (pre @ (concat (map label_bytes segs) @ [0]) @ post) (length pre) [] segs
    (length (concat (map label_bytes segs)) + 1)"
  using assms
proof (induction segs arbitrary: pre)
  case Nil
  show ?case
    using name_at.name_end [where buf = "pre @ [0] @ post" and p = "length pre"]
    by (simp add: nth_append)
next
  case (Cons s segs)
  let ?buf = "pre @ (concat (map label_bytes (s # segs)) @ [0]) @ post"
  from Cons.prems have s: "s \<noteq> []" "length s < 192" by (auto simp: readable_segment_def)
  have here: "?buf ! length pre = word_of_nat (length s)" by (simp add: nth_append)
  then have k: "unat (?buf ! length pre) = length s" using s by simp
  have nz: "?buf ! length pre \<noteq> 0"
    using k s by (metis length_0_conv unat_0)
  have small: "?buf ! length pre < 0xC0"
    using k s by (simp add: word_less_nat_alt)
  have "name_at ((pre @ label_bytes s) @ (concat (map label_bytes segs) @ [0]) @ post)
      (length (pre @ label_bytes s)) [] segs (length (concat (map label_bytes segs)) + 1)"
    by (rule Cons.IH) (use Cons.prems in simp)
  then have "name_at ?buf (length pre + 1 + unat (?buf ! length pre)) [] segs
      (length (concat (map label_bytes segs)) + 1)"
    unfolding k by simp
  then have "name_at ?buf (length pre) []
      (take (unat (?buf ! length pre)) (drop (length pre + 1) ?buf) # segs)
      (1 + unat (?buf ! length pre) + (length (concat (map label_bytes segs)) + 1))"
    by (rule name_at.name_label [rotated -1]) (use nz small k in auto)
  moreover have "take (unat (?buf ! length pre)) (drop (length pre + 1) ?buf) = s"
    unfolding k by simp
  ultimately show ?case unfolding k by (simp add: add_ac)
qed

definition name_bytes :: "labels \<Rightarrow> u8 list" where
  "name_bytes ls = concat (map label_bytes (segments ls)) @ [0]"

definition readable_name :: "labels \<Rightarrow> bool" where
  "readable_name ls \<longleftrightarrow> list_all readable_segment (segments ls)"

lemma length_name_bytes: "length (name_bytes ls) = wire_length ls"
  unfolding name_bytes_def by (rule length_label_bytes)

lemma write_readable_name: "readable_name ls \<Longrightarrow> write_labels ls = Ok (name_bytes ls)"
  by (force simp: write_labels_Ok_iff readable_name_def list_all_iff readable_segment_def name_bytes_def)

lemma parses_name_bytes:
  assumes "readable_name ls"
  shows "parses read_labels (name_bytes ls) (ls, word_of_nat (length (name_bytes ls)))"
proof (rule parsesI)
  fix pre post :: "u8 list"
  assume len: "length (pre @ name_bytes ls @ post) < 65536"
  have n: "length (name_bytes ls) = length (concat (map label_bytes (segments ls))) + 1"
    by (simp add: name_bytes_def)
  from assms have all: "list_all readable_segment (segments ls)" by (simp add: readable_name_def)
  from read_labels_name_at [OF len [unfolded name_bytes_def] name_at_label_bytes [OF all]]
  show "read_labels (pre @ name_bytes ls @ post) (length pre)
      = Ok ((ls, word_of_nat (length (name_bytes ls))), length pre + length (name_bytes ls))"
    unfolding n by (simp add: RECURSION_LIMIT_def name_bytes_def)
qed

text \<open>
  A name whose labels are not empty and at most 191 bytes long, written without
  compression, takes up exactly its wire length, and wherever the bytes stand in a packet they
  are read back as the same name, with the reader stopping right after them.
\<close>

theorem write_read_labels:
  assumes "\<forall>s \<in> set (segments ls). s \<noteq> [] \<and> length s < 0xC0"
  shows "\<exists>bs. write_labels ls = Ok bs \<and> length bs = wire_length ls
    \<and> parses read_labels bs (ls, word_of_nat (wire_length ls))"
proof -
  from assms have "readable_name ls"
    by (simp add: readable_name_def list_all_iff readable_segment_def)
  then show ?thesis
    using write_readable_name parses_name_bytes length_name_bytes by metis
qed

theorem write_read_labels_witness:
  "\<exists>bs. write_labels \<lparr>segments = [[0x64, 0x6E, 0x73], [0x64, 0x6F, 0x67]]\<rparr> = Ok bs \<and> length bs = 9
    \<and> parses read_labels bs (\<lparr>segments = [[0x64, 0x6E, 0x73], [0x64, 0x6F, 0x67]]\<rparr>, 9)"
  using write_read_labels [of "\<lparr>segments = [[0x64, 0x6E, 0x73], [0x64, 0x6F, 0x67]]\<rparr>"]
  by (simp add: wire_length_def eval_nat_numeral)


subsection \<open>The names that encoding accepts\<close>

lemma encode_label_Ok:
  assumes "encode_label f label = Ok s"
  obtains ascii where "f label = Some ascii" "s = bytes_of ascii" "label \<noteq> []"
    "length s \<le> MAX_LABEL"
  using assms by (auto simp: encode_label_def split: if_splits option.splits)

lemmas encode_eval = encode_def encode_label_def label_to_ascii_plain_def is_whitespace_def
  is_control_def strip_suffix_char_def wire_length_def MAX_LABEL_def MAX_NAME_def bytes_of_def
  byte_of_char_def Let_def

definition without_final_dot :: "string \<Rightarrow> string" where
  "without_final_dot input = (case strip_suffix_char CHR ''.'' input of Some s \<Rightarrow> s | None \<Rightarrow> input)"

lemma encode_Ok_iff:
  "encode f input = Ok ls \<longleftrightarrow>
     (input = ''.'' \<and> ls = root) \<or>
     (input \<noteq> ''.'' \<and> input \<noteq> [] \<and> wire_length ls \<le> MAX_NAME \<and>
      list_all2 (\<lambda>label s. encode_label f label = Ok s)
        (split_char CHR ''.'' (without_final_dot input)) (segments ls))"
proof -
  let ?P = "\<lambda>segs. list_all2 (\<lambda>label s. encode_label f label = Ok s)
      (split_char CHR ''.'' (without_final_dot input)) segs"
  have "encode f input = Ok ls \<longleftrightarrow>
      (if input = ''.'' then ls = root else input \<noteq> [] \<and>
        (\<exists>segs. ?P segs \<and> wire_length \<lparr>segments = segs\<rparr> \<le> MAX_NAME \<and> ls = \<lparr>segments = segs\<rparr>))"
    by (auto simp: encode_def without_final_dot_def Let_def bind_outcome_Ok_iff
        collect_outcome_Ok_iff not_less cong: conj_cong)
  also have "(\<exists>segs. ?P segs \<and> wire_length \<lparr>segments = segs\<rparr> \<le> MAX_NAME \<and> ls = \<lparr>segments = segs\<rparr>)
      \<longleftrightarrow> wire_length ls \<le> MAX_NAME \<and> ?P (segments ls)"
    by (cases ls) auto
  finally show ?thesis by auto
qed

lemma encode_Ok_valid:
  assumes "encode to_ascii input = Ok ls"
  shows "(\<forall>s \<in> set (segments ls). length s \<le> 63) \<and> wire_length ls \<le> 255
    \<and> (input \<noteq> ''.'' \<longrightarrow>
        list_all2 (\<lambda>label s. label \<noteq> [] \<and> (\<exists>ascii. to_ascii label = Some ascii \<and> s = bytes_of ascii)
            \<and> list_all (\<lambda>c. \<not> is_whitespace c \<and> \<not> is_control c) (chars label))
          (split_char CHR ''.'' (without_final_dot input)) (segments ls))"
proof (cases "input = ''.''")
  case True
  with assms have "ls = root" by (simp add: encode_Ok_iff)
  with True show ?thesis by (simp add: root_def wire_length_def)
next
  case False
  with assms have *: "list_all2 (\<lambda>label s. encode_label to_ascii label = Ok s)
      (split_char CHR ''.'' (without_final_dot input)) (segments ls)"
    and len: "wire_length ls \<le> 255"
    by (simp_all add: encode_Ok_iff MAX_NAME_def)
  have "length s \<le> 63" if "encode_label to_ascii label = Ok s" for label s
    using that by (rule encode_label_Ok) (simp add: MAX_LABEL_def)
  with list_all2_right [OF *] have "\<forall>s \<in> set (segments ls). length s \<le> 63" by blast
  moreover have "list_all2 (\<lambda>label s. label \<noteq> [] \<and> (\<exists>ascii. to_ascii label = Some ascii \<and> s = bytes_of ascii)
      \<and> list_all (\<lambda>c. \<not> is_whitespace c \<and> \<not> is_control c) (chars label))
      (split_char CHR ''.'' (without_final_dot input)) (segments ls)"
    using * by (rule list_all2_mono)
      (auto simp: encode_label_def list_ex_iff list_all_iff split: if_splits option.splits)
  ultimately show ?thesis using len by blast
qed

text \<open>
  C36: Encoding accepts only names that fit the protocol: when it succeeds, every label is at
  most 63 bytes long and the whole name at most 255 bytes on the wire, and unless the input
  is the root, the labels are, in order, what UTS 46 processing makes of the pieces of the
  input between dots, none of which is empty or has a space or a control character.
\<close>

theorem encode_valid:
  assumes "encode to_ascii input = Ok ls"
  shows "(\<forall>s \<in> set (segments ls). length s \<le> 63) \<and> wire_length ls \<le> 255
    \<and> (input \<noteq> ''.'' \<longrightarrow>
        list_all2 (\<lambda>label s. label \<noteq> [] \<and> (\<exists>ascii. to_ascii label = Some ascii \<and> s = bytes_of ascii)
            \<and> list_all (\<lambda>c. \<not> is_whitespace c \<and> \<not> is_control c) (chars label))
          (split_char CHR ''.'' (without_final_dot input)) (segments ls))"
  by (rule encode_Ok_valid [OF assms])

theorem encode_valid_witness:
  "encode Some ''dns.dog.'' = Ok \<lparr>segments = [[0x64, 0x6E, 0x73], [0x64, 0x6F, 0x67]]\<rparr>
   \<and> wire_length \<lparr>segments = [[0x64, 0x6E, 0x73], [0x64, 0x6F, 0x67]]\<rparr> \<le> 255"
proof -
  have "encode Some ''dns.dog.'' = Ok \<lparr>segments = [[0x64, 0x6E, 0x73], [0x64, 0x6F, 0x67]]\<rparr>"
    by (simp add: encode_eval)
  with encode_valid [OF this] show ?thesis by blast
qed

lemma encode_readable:
  assumes "encode to_ascii input = Ok ls"
    and "\<And>label ascii. label \<noteq> [] \<Longrightarrow> to_ascii label = Some ascii \<Longrightarrow> ascii \<noteq> []"
  shows "readable_name ls"
proof -
  have "s \<noteq> [] \<and> length s < 0xC0" if "s \<in> set (segments ls)" for s
  proof (cases "input = ''.''")
    case True
    with that assms(1) show ?thesis by (auto simp: encode_Ok_iff root_def)
  next
    case False
    note valid = encode_Ok_valid [OF assms(1)]
    from False valid list_all2_right [OF _ that] obtain label ascii where
      "label \<noteq> []" "to_ascii label = Some ascii" "s = bytes_of ascii" by blast
    moreover from valid that have "length s \<le> 63" by blast
    ultimately show ?thesis using assms(2) by (auto simp: bytes_of_def)
  qed
  then show ?thesis by (simp add: readable_name_def list_all_iff readable_segment_def)
qed



text \<open>
  That condition is needed. A label is checked for being empty before UTS 46 processing
  and not after it, so a label that the processing makes empty, as it does one of nothing but
  soft hyphens, is accepted as a label of no bytes; written to a packet, that ends the name,
  so what is asked for is the root, and not the name that was typed.
\<close>

theorem empty_label_after_processing:
  assumes "label \<noteq> []" and "CHR ''.'' \<notin> set label"
    and "list_all (\<lambda>c. \<not> is_whitespace c \<and> \<not> is_control c) (chars label)"
    and "to_ascii label = Some []"
  shows "encode to_ascii label = Ok \<lparr>segments = [[]]\<rparr>
    \<and> write_labels \<lparr>segments = [[]]\<rparr> = Ok [0, 0] \<and> read_labels [0, 0] 0 = Ok ((root, 1), 1)"
proof -
  have "encode_label to_ascii label = Ok []"
    using assms by (auto simp: encode_label_def list_ex_iff list_all_iff bytes_of_def)
  moreover have "last label \<noteq> CHR ''.''"
    using assms(1,2) by (metis last_in_set)
  then have "without_final_dot label = label"
    by (simp add: without_final_dot_def strip_suffix_char_def)
  moreover have "label \<noteq> ''.''" using assms(2) by auto
  ultimately have "encode to_ascii label = Ok \<lparr>segments = [[]]\<rparr>"
    using assms(1,2) by (simp add: encode_Ok_iff split_char_id wire_length_def MAX_NAME_def)
  moreover have "read_labels [0, 0] 0 = Ok ((root, 1), 1)"
    by (simp add: read_labels_def read_string_step)
  ultimately show ?thesis by (simp add: write_labels_Ok_iff)
qed

theorem empty_label_after_processing_witness:
  "encode (\<lambda>l. Some (filter (\<lambda>c. of_char c < (0x80 :: nat)) l)) [CHR 0xC2, CHR 0xAD] = Ok \<lparr>segments = [[]]\<rparr>"
  by (rule conjunct1 [OF empty_label_after_processing])
    (simp_all add: is_whitespace_def is_control_def)


subsection \<open>Displayed names\<close>

lemma write_name_byte_graphic: "list_all is_ascii_graphic (write_name_byte b)"
proof -
  have digits: "is_ascii_digit c \<Longrightarrow> is_ascii_graphic c" for c
    by (simp add: is_ascii_digit_def is_ascii_graphic_def)
  have "list_all is_ascii_graphic (dec_padded w n)" for w n
    using dec_padded_digits [of w n] digits by (auto simp: list_all_iff)
  then show ?thesis
    by (auto simp: write_name_byte_def is_ascii_graphic_def word_le_nat_alt)
qed

text \<open>
  Whatever bytes a server puts into a name, what dog displays is printable ASCII: no
  control character, escape sequence or line break reaches the terminal, nor a space.
\<close>

theorem display_labels_graphic: "list_all is_ascii_graphic (display_labels ls)"
proof -
  have dot: "is_ascii_graphic CHR ''.''" by (simp add: is_ascii_graphic_def)
  have bytes: "list_all is_ascii_graphic (concat (map write_name_byte bs))" for bs
    by (induction bs) (simp_all add: write_name_byte_graphic)
  have "list_all is_ascii_graphic (concat (map display_segment segs))" for segs
    by (induction segs) (simp_all add: bytes display_segment_def dot)
  then show ?thesis by (simp add: display_labels_def dot)
qed

text \<open>A reader of the master file format (RFC 1035, 5.1), to say that displaying loses nothing.\<close>

fun parse_displayed :: "u8 list \<Rightarrow> string \<Rightarrow> u8 list list" where
  "parse_displayed acc [] = []"
| "parse_displayed acc (c # s) =
     (if c = CHR ''.'' then acc # parse_displayed [] s
      else if c = CHR 0x5C then
        (case s of
          [] \<Rightarrow> []
        | d # s1 \<Rightarrow>
            if is_ascii_digit d then
              (case s1 of
                e # f # s2 \<Rightarrow> parse_displayed (acc @ [word_of_nat (digits_value [d, e, f])]) s2
              | _ \<Rightarrow> [])
            else parse_displayed (acc @ [byte_of_char d]) s1)
      else parse_displayed (acc @ [byte_of_char c]) s)"

definition parse_name :: "string \<Rightarrow> u8 list list" where
  "parse_name s = (if s = ''.'' then [] else parse_displayed [] s)"

lemma unat_inj: "unat a = unat b \<longleftrightarrow> a = b"
  by (simp add: word_unat_eq_iff)

lemma parse_write_name_byte:
  "parse_displayed acc (write_name_byte b @ s) = parse_displayed (acc @ [b]) s"
proof -
  consider (special) "b = byte_of_char CHR ''.'' \<or> b = byte_of_char CHR 0x5C \<or> b = byte_of_char CHR 0x22"
    | (plain) "\<not> (b = byte_of_char CHR ''.'' \<or> b = byte_of_char CHR 0x5C \<or> b = byte_of_char CHR 0x22)"
        "0x21 \<le> b \<and> b \<le> 0x7E"
    | (other) "\<not> (b = byte_of_char CHR ''.'' \<or> b = byte_of_char CHR 0x5C \<or> b = byte_of_char CHR 0x22)"
        "\<not> (0x21 \<le> b \<and> b \<le> 0x7E)" by blast
  then show ?thesis
  proof cases
    case special
    then show ?thesis by (auto simp: write_name_byte_def is_ascii_digit_def)
  next
    case plain
    then have "char_of_byte b \<noteq> CHR ''.''" "char_of_byte b \<noteq> CHR 0x5C"
      by (metis byte_of_char_of_byte)+
    with plain show ?thesis by (simp add: write_name_byte_def)
  next
    case other
    have lt: "unat b < 10 ^ 3" using unat_u8_less [of b] by simp
    then obtain d e f where def: "dec_padded 3 (unat b) = [d, e, f]"
      using length_dec_padded [of "unat b" 3]
      by (auto simp: numeral_3_eq_3 length_Suc_conv)
    moreover have "is_ascii_digit d" using dec_padded_digits [of 3 "unat b"] def by simp
    moreover have "digits_value [d, e, f] = unat b"
      using digits_value_dec_padded [of 3 "unat b"] def by simp
    moreover have "write_name_byte b = CHR 0x5C # dec_padded 3 (unat b)"
      using other unfolding write_name_byte_def by (simp only: if_False)
    ultimately show ?thesis by simp
  qed
qed

lemma parse_display_bytes:
  "parse_displayed acc (concat (map write_name_byte bs) @ ''.'' @ s) = (acc @ bs) # parse_displayed [] s"
  by (induction bs arbitrary: acc) (simp_all add: parse_write_name_byte)

lemma parse_display_segments:
  "parse_displayed [] (concat (map display_segment segs)) = segs"
proof (induction segs)
  case Nil
  show ?case by simp
next
  case (Cons seg segs)
  have "concat (map display_segment (seg # segs))
      = concat (map write_name_byte seg) @ ''.'' @ concat (map display_segment segs)"
    by (simp add: display_segment_def)
  with Cons show ?case by (simp only: parse_display_bytes append_Nil)
qed

lemma parse_name_display:
  assumes "\<forall>s \<in> set (segments ls). s \<noteq> []"
  shows "parse_name (display_labels ls) = segments ls"
proof (cases "segments ls")
  case Nil
  then show ?thesis by (simp add: display_labels_def parse_name_def)
next
  case (Cons seg segs)
  then obtain b bs where seg: "seg = b # bs" using assms by (cases seg) auto
  have "write_name_byte b \<noteq> ''.''"
    by (auto simp: write_name_byte_def) (metis byte_of_char_of_byte)
  moreover have "write_name_byte b \<noteq> []" by (simp add: write_name_byte_def)
  ultimately have "concat (map display_segment (segments ls)) \<noteq> ''.''"
    unfolding Cons seg display_segment_def
    by (cases "write_name_byte b") auto
  with Cons show ?thesis
    by (simp only: display_labels_def parse_name_def parse_display_segments if_False list.distinct)
qed

text \<open>
  Displaying a name loses nothing: reading the displayed text by the rules of the master
  file format gives back exactly the labels, so two different names without empty labels are
  never displayed alike, and the root is displayed as a lone dot.
\<close>

theorem parse_display_labels:
  assumes "\<forall>s \<in> set (segments ls). s \<noteq> []"
  shows "parse_name (display_labels ls) = segments ls"
  using assms by (rule parse_name_display)

theorem parse_display_labels_witness:
  "parse_name (display_labels \<lparr>segments = [[0x61, 0x2E, 0x62], [0x1B]]\<rparr>) = [[0x61, 0x2E, 0x62], [0x1B]]"
  using parse_display_labels [of "\<lparr>segments = [[0x61, 0x2E, 0x62], [0x1B]]\<rparr>"] by simp


subsection \<open>Comparing names\<close>

lemma labels_eq_iff:
  "labels_eq_ignore_ascii_case a b \<longleftrightarrow>
     map (map ascii_lower) (segments a) = map (map ascii_lower) (segments b)"
proof -
  have "length xs = length ys \<Longrightarrow>
      list_all (\<lambda>(x, y). eq_bytes_ignore_ascii_case x y) (zip xs ys) \<longleftrightarrow>
      map (map ascii_lower) xs = map (map ascii_lower) ys" for xs ys :: "u8 list list"
    by (induction xs ys rule: list_induct2) (auto simp: eq_bytes_ignore_ascii_case_iff)
  then show ?thesis
    unfolding labels_eq_ignore_ascii_case_def by (metis length_map)
qed

text \<open>
  Two names are the same to DNS exactly when their labels are the same once every ASCII
  letter is in lower case, so the comparison is an equivalence, and labels of different
  lengths or numbers never match (RFC 4343).
\<close>

theorem labels_eq_ignore_ascii_case_iff:
  "labels_eq_ignore_ascii_case a b \<longleftrightarrow>
     map (map ascii_lower) (segments a) = map (map ascii_lower) (segments b)"
  by (rule labels_eq_iff)

end
