(* ===== verification/Records_Fixed.thy ===== *)
theory Records_Fixed
  imports Wire_Reader Registry Labels
begin

text \<open>
  The records without names in them (\<open>dns/src/record/\<close>: \<open>a.rs\<close>, \<open>aaaa.rs\<close>, \<open>eui48.rs\<close>,
  \<open>eui64.rs\<close>, \<open>openpgpkey.rs\<close>, \<open>sshfp.rs\<close>, \<open>tlsa.rs\<close>, \<open>uri.rs\<close>, \<open>dnskey.rs\<close>, \<open>ds.rs\<close>,
  \<open>caa.rs\<close>, \<open>hinfo.rs\<close>, \<open>opt.rs\<close>), each with its \<open>Wire::read\<close> and its display helpers.
  An IP address is its octets. A reader's log lines are left out.
\<close>

subsection \<open>Addresses\<close>

record A =
  a_address :: "u8 list"

definition A_read :: "u16 \<Rightarrow> A reader" where
  "A_read stated_length =
     (if stated_length \<noteq> 4 then fail (WrongRecordLength stated_length (Exactly 4))
      else bind (read_exact 4) (\<lambda>buf. ret \<lparr>a_address = buf\<rparr>))"

record AAAA =
  aaaa_address :: "u8 list"

definition AAAA_read :: "u16 \<Rightarrow> AAAA reader" where
  "AAAA_read stated_length =
     (if stated_length \<noteq> 16 then fail (WrongRecordLength stated_length (Exactly 16))
      else bind (read_exact 16) (\<lambda>buf. ret \<lparr>aaaa_address = buf\<rparr>))"

record EUI48 =
  eui48_octets :: "u8 list"

definition EUI48_read :: "u16 \<Rightarrow> EUI48 reader" where
  "EUI48_read stated_length =
     (if stated_length \<noteq> 6 then fail (WrongRecordLength stated_length (Exactly 6))
      else bind (read_exact 6) (\<lambda>octets. ret \<lparr>eui48_octets = octets\<rparr>))"

definition EUI48_formatted_address :: "EUI48 \<Rightarrow> string" where
  "EUI48_formatted_address e = join ''-'' (map (\<lambda>octet. hex [octet]) (eui48_octets e))"

record EUI64 =
  eui64_octets :: "u8 list"

definition EUI64_read :: "u16 \<Rightarrow> EUI64 reader" where
  "EUI64_read stated_length =
     (if stated_length \<noteq> 8 then fail (WrongRecordLength stated_length (Exactly 8))
      else bind (read_exact 8) (\<lambda>octets. ret \<lparr>eui64_octets = octets\<rparr>))"

definition EUI64_formatted_address :: "EUI64 \<Rightarrow> string" where
  "EUI64_formatted_address e = join ''-'' (map (\<lambda>octet. hex [octet]) (eui64_octets e))"


subsection \<open>Keys, fingerprints and certificates\<close>

record OPENPGPKEY =
  openpgpkey_key :: "u8 list"

definition OPENPGPKEY_read :: "u16 \<Rightarrow> OPENPGPKEY reader" where
  "OPENPGPKEY_read stated_length =
     (if stated_length = 0 then fail (WrongRecordLength stated_length (AtLeast 1))
      else bind (read_exact (unat stated_length)) (\<lambda>key. ret \<lparr>openpgpkey_key = key\<rparr>))"

record SSHFP =
  sshfp_algorithm :: u8
  sshfp_fingerprint_type :: u8
  sshfp_fingerprint :: "u8 list"

definition SSHFP_read :: "u16 \<Rightarrow> SSHFP reader" where
  "SSHFP_read stated_length =
     bind read_u8 (\<lambda>algorithm.
     bind read_u8 (\<lambda>fingerprint_type.
     if stated_length \<le> 2 then fail (WrongRecordLength stated_length (AtLeast 3))
     else
       bind (checked_minus stated_length 1) (\<lambda>n.
       bind (checked_minus n 1) (\<lambda>fingerprint_length.
       bind (read_exact (unat fingerprint_length)) (\<lambda>fingerprint.
       ret \<lparr>sshfp_algorithm = algorithm, sshfp_fingerprint_type = fingerprint_type,
            sshfp_fingerprint = fingerprint\<rparr>)))))"

definition SSHFP_hex_fingerprint :: "SSHFP \<Rightarrow> string" where
  "SSHFP_hex_fingerprint s = hex (sshfp_fingerprint s)"

record TLSA =
  tlsa_certificate_usage :: u8
  tlsa_selector :: u8
  tlsa_matching_type :: u8
  tlsa_certificate_data :: "u8 list"

definition TLSA_read :: "u16 \<Rightarrow> TLSA reader" where
  "TLSA_read stated_length =
     bind read_u8 (\<lambda>certificate_usage.
     bind read_u8 (\<lambda>selector.
     bind read_u8 (\<lambda>matching_type.
     if stated_length \<le> 3 then fail (WrongRecordLength stated_length (AtLeast 4))
     else
       bind (checked_minus stated_length 1) (\<lambda>n.
       bind (checked_minus n 1) (\<lambda>n.
       bind (checked_minus n 1) (\<lambda>certificate_data_length.
       bind (read_exact (unat certificate_data_length)) (\<lambda>certificate_data.
       ret \<lparr>tlsa_certificate_usage = certificate_usage, tlsa_selector = selector,
            tlsa_matching_type = matching_type, tlsa_certificate_data = certificate_data\<rparr>)))))))"

definition TLSA_hex_certificate_data :: "TLSA \<Rightarrow> string" where
  "TLSA_hex_certificate_data t = hex (tlsa_certificate_data t)"

record DNSKEY =
  dnskey_flags :: u16
  dnskey_protocol :: u8
  dnskey_algorithm :: u8
  dnskey_public_key :: "u8 list"

definition DNSKEY_read :: "u16 \<Rightarrow> DNSKEY reader" where
  "DNSKEY_read stated_length =
     (if stated_length < 4 then fail (WrongRecordLength stated_length (AtLeast 4))
      else
        bind read_u16 (\<lambda>flags.
        bind read_u8 (\<lambda>protocol.
        bind read_u8 (\<lambda>algorithm.
        bind (checked_minus stated_length 4) (\<lambda>key_length.
        bind (read_exact (unat key_length)) (\<lambda>public_key.
        ret \<lparr>dnskey_flags = flags, dnskey_protocol = protocol, dnskey_algorithm = algorithm,
             dnskey_public_key = public_key\<rparr>))))))"

definition DNSKEY_algorithm_name :: "DNSKEY \<Rightarrow> string option" where
  "DNSKEY_algorithm_name k = dnssec_algorithm_name (dnskey_algorithm k)"

record DS =
  ds_key_tag :: u16
  ds_algorithm :: u8
  ds_digest_type :: u8
  ds_digest :: "u8 list"

definition DS_read :: "u16 \<Rightarrow> DS reader" where
  "DS_read stated_length =
     (if stated_length < 5 then fail (WrongRecordLength stated_length (AtLeast 5))
      else
        bind read_u16 (\<lambda>key_tag.
        bind read_u8 (\<lambda>algorithm.
        bind read_u8 (\<lambda>digest_type.
        bind (checked_minus stated_length 4) (\<lambda>digest_length.
        bind (read_exact (unat digest_length)) (\<lambda>digest.
        ret \<lparr>ds_key_tag = key_tag, ds_algorithm = algorithm, ds_digest_type = digest_type,
             ds_digest = digest\<rparr>))))))"

definition DS_hex_digest :: "DS \<Rightarrow> string" where
  "DS_hex_digest d = hex (ds_digest d)"

definition DS_algorithm_name :: "DS \<Rightarrow> string option" where
  "DS_algorithm_name d = dnssec_algorithm_name (ds_algorithm d)"

definition DS_digest_type_name :: "DS \<Rightarrow> string option" where
  "DS_digest_type_name d = digest_type_name (ds_digest_type d)"


subsection \<open>Text\<close>

record URI =
  uri_priority :: u16
  uri_weight :: u16
  uri_target :: "u8 list"

definition URI_read :: "u16 \<Rightarrow> URI reader" where
  "URI_read stated_length =
     bind read_u16 (\<lambda>priority.
     bind read_u16 (\<lambda>weight.
     if stated_length \<le> 4 then fail (WrongRecordLength stated_length (AtLeast 5))
     else
       bind (checked_minus stated_length 4) (\<lambda>remaining_length.
       bind (read_exact (unat remaining_length)) (\<lambda>target.
       ret \<lparr>uri_priority = priority, uri_weight = weight, uri_target = target\<rparr>))))"

record HINFO =
  hinfo_cpu :: "u8 list"
  hinfo_os :: "u8 list"

definition HINFO_read :: "u16 \<Rightarrow> HINFO reader" where
  "HINFO_read stated_length =
     bind read_u8 (\<lambda>cpu_length.
     bind (read_exact (unat cpu_length)) (\<lambda>cpu.
     bind read_u8 (\<lambda>os_length.
     bind (read_exact (unat os_length)) (\<lambda>os.
     bind (checked_add 1 (ucast cpu_length)) (\<lambda>n.
     bind (checked_add n 1) (\<lambda>n.
     bind (checked_add n (ucast os_length)) (\<lambda>length_after_labels.
     check_length stated_length length_after_labels \<lparr>hinfo_cpu = cpu, hinfo_os = os\<rparr>)))))))"

record CAA =
  caa_critical :: bool
  caa_tag :: "u8 list"
  caa_value :: "u8 list"

definition CAA_read :: "u16 \<Rightarrow> CAA reader" where
  "CAA_read stated_length =
     bind read_u8 (\<lambda>flags.
     let critical = (flags AND 0x80 = 0x80) in
     bind read_u8 (\<lambda>tag_length.
     bind (read_exact (unat tag_length)) (\<lambda>tag.
     let remaining_length = saturating_sub (saturating_sub stated_length (ucast tag_length)) 2 in
     bind (read_exact (unat remaining_length)) (\<lambda>val.
     ret \<lparr>caa_critical = critical, caa_tag = tag, caa_value = val\<rparr>))))"


subsection \<open>OPT\<close>

record OPT =
  opt_udp_payload_size :: u16
  opt_higher_bits :: u8
  opt_edns0_version :: u8
  opt_flags :: u16
  opt_data :: "u8 list"

definition OPT_RR_TYPE :: u16 where
  "OPT_RR_TYPE = 41"

definition OPT_read :: "OPT reader" where
  "OPT_read =
     bind read_u16 (\<lambda>udp_payload_size.
     bind read_u8 (\<lambda>higher_bits.
     bind read_u8 (\<lambda>edns0_version.
     bind read_u16 (\<lambda>flags.
     bind read_u16 (\<lambda>data_length.
     bind (read_exact (unat data_length)) (\<lambda>data.
     ret \<lparr>opt_udp_payload_size = udp_payload_size, opt_higher_bits = higher_bits,
          opt_edns0_version = edns0_version, opt_flags = flags, opt_data = data\<rparr>))))))"

text \<open>Writing to a \<open>Vec\<close> never fails, so the only error is data too long for its length field.\<close>

definition OPT_to_bytes :: "OPT \<Rightarrow> (IoError, u8 list) outcome" where
  "OPT_to_bytes opt =
     (let bytes = be_bytes16 (opt_udp_payload_size opt) @ [opt_higher_bits opt]
                    @ [opt_edns0_version opt] @ be_bytes16 (opt_flags opt) in
      if length (opt_data opt) < 65536
      then Ok (bytes @ be_bytes16 (word_of_nat (length (opt_data opt))) @ opt_data opt)
      else Err InvalidInput)"


subsection \<open>Every reader keeps the contract\<close>

lemmas fixed_readers =
  A_read_def AAAA_read_def EUI48_read_def EUI64_read_def OPENPGPKEY_read_def SSHFP_read_def
  TLSA_read_def URI_read_def DNSKEY_read_def DS_read_def

lemmas lengths = unat_sub_le word_le_nat_alt word_less_nat_alt

interpretation A: exact_reader A_read
proof
  show "wp (A_read len) (\<lambda>x q. q = p + unat len \<and> q \<le> length buf) buf p"
    if "p \<le> length buf" for buf p len
    using that by (auto simp: fixed_readers wp_rules lengths)
  show "stable (A_read len)" for len
    unfolding fixed_readers by (intro stable_rules)
qed

interpretation AAAA: exact_reader AAAA_read
proof
  show "wp (AAAA_read len) (\<lambda>x q. q = p + unat len \<and> q \<le> length buf) buf p"
    if "p \<le> length buf" for buf p len
    using that by (auto simp: fixed_readers wp_rules lengths)
  show "stable (AAAA_read len)" for len
    unfolding fixed_readers by (intro stable_rules)
qed

interpretation EUI48: exact_reader EUI48_read
proof
  show "wp (EUI48_read len) (\<lambda>x q. q = p + unat len \<and> q \<le> length buf) buf p"
    if "p \<le> length buf" for buf p len
    using that by (auto simp: fixed_readers wp_rules lengths)
  show "stable (EUI48_read len)" for len
    unfolding fixed_readers by (intro stable_rules)
qed

interpretation EUI64: exact_reader EUI64_read
proof
  show "wp (EUI64_read len) (\<lambda>x q. q = p + unat len \<and> q \<le> length buf) buf p"
    if "p \<le> length buf" for buf p len
    using that by (auto simp: fixed_readers wp_rules lengths)
  show "stable (EUI64_read len)" for len
    unfolding fixed_readers by (intro stable_rules)
qed

interpretation OPENPGPKEY: exact_reader OPENPGPKEY_read
proof
  show "wp (OPENPGPKEY_read len) (\<lambda>x q. q = p + unat len \<and> q \<le> length buf) buf p"
    if "p \<le> length buf" for buf p len
    using that by (auto simp: fixed_readers wp_rules lengths)
  show "stable (OPENPGPKEY_read len)" for len
    unfolding fixed_readers by (intro stable_rules)
qed

interpretation SSHFP: exact_reader SSHFP_read
proof
  show "wp (SSHFP_read len) (\<lambda>x q. q = p + unat len \<and> q \<le> length buf) buf p"
    if "p \<le> length buf" for buf p len
    using that by (auto simp: fixed_readers wp_rules lengths)
  show "stable (SSHFP_read len)" for len
    unfolding fixed_readers by (intro stable_rules)
qed

interpretation TLSA: exact_reader TLSA_read
proof
  show "wp (TLSA_read len) (\<lambda>x q. q = p + unat len \<and> q \<le> length buf) buf p"
    if "p \<le> length buf" for buf p len
    using that by (auto simp: fixed_readers wp_rules lengths)
  show "stable (TLSA_read len)" for len
    unfolding fixed_readers by (intro stable_rules)
qed

interpretation URI: exact_reader URI_read
proof
  show "wp (URI_read len) (\<lambda>x q. q = p + unat len \<and> q \<le> length buf) buf p"
    if "p \<le> length buf" for buf p len
    using that by (auto simp: fixed_readers wp_rules lengths)
  show "stable (URI_read len)" for len
    unfolding fixed_readers by (intro stable_rules)
qed

interpretation DNSKEY: exact_reader DNSKEY_read
proof
  show "wp (DNSKEY_read len) (\<lambda>x q. q = p + unat len \<and> q \<le> length buf) buf p"
    if "p \<le> length buf" for buf p len
    using that by (auto simp: fixed_readers wp_rules lengths)
  show "stable (DNSKEY_read len)" for len
    unfolding fixed_readers by (intro stable_rules)
qed

interpretation DS: exact_reader DS_read
proof
  show "wp (DS_read len) (\<lambda>x q. q = p + unat len \<and> q \<le> length buf) buf p"
    if "p \<le> length buf" for buf p len
    using that by (auto simp: fixed_readers wp_rules lengths)
  show "stable (DS_read len)" for len
    unfolding fixed_readers by (intro stable_rules)
qed

interpretation HINFO: exact_reader HINFO_read
proof
  show "wp (HINFO_read len) (\<lambda>x q. q = p + unat len \<and> q \<le> length buf) buf p"
    if "p \<le> length buf" for buf p len
  proof -
    let ?a = "buf ! p" and ?b = "buf ! (p + 1 + unat (buf ! p))"
    show ?thesis
      unfolding HINFO_read_def wp_bind wp_read_u8 wp_read_exact
      by (intro impI wp_checked_addI)
        (use that unat_u8_less [of ?a] unat_u8_less [of ?b] in
          \<open>auto simp: wp_check_length simp del: lift_outcome.simps\<close>)
  qed
  show "stable (HINFO_read len)" for len
    unfolding HINFO_read_def by (intro stable_rules)
qed

interpretation CAA: wire_reader CAA_read
proof
  show "wp (CAA_read len) (\<lambda>x q. p \<le> q \<and> q \<le> length buf) buf p"
    if "p \<le> length buf" for buf p len
    using that by (auto simp: CAA_read_def Let_def wp_rules)
  show "stable (CAA_read len)" for len
    unfolding CAA_read_def Let_def by (intro stable_rules)
qed


subsection \<open>CAA\<close>

text \<open>
  A CAA record takes up its stated length, or its flags, tag length and tag if those are
  longer: its reader goes past the length the packet states when the tag does, where the
  readers of the other types return an error.
\<close>

theorem CAA_read_extent:
  assumes "CAA_read stated buf p = Ok (caa, q)"
  shows "q = p + max (unat stated) (2 + length (caa_tag caa)) \<and> q \<le> length buf"
proof -
  have "wp (CAA_read stated) (\<lambda>x q. q = p + max (unat stated) (2 + length (caa_tag x)) \<and> q \<le> length buf)
      buf p"
    by (auto simp: CAA_read_def Let_def wp_rules unat_saturating_sub)
  from wp_OkD [OF this assms] show ?thesis .
qed

lemma CAA_read_extent_witness:
  "CAA_read 2 [0, 1, 0x61] 0 = Ok (\<lparr>caa_critical = False, caa_tag = [0x61], caa_value = []\<rparr>, 3)
   \<and> (3::nat) = 0 + max 2 (2 + 1)"
proof -
  have read: "CAA_read 2 [0, 1, 0x61] 0 = Ok (\<lparr>caa_critical = False, caa_tag = [0x61], caa_value = []\<rparr>, 3)"
    by (simp add: CAA_read_def bind_def ret_def read_u8_def read_exact_def Let_def saturating_sub_def word_le_nat_alt)
  with CAA_read_extent [OF read] show ?thesis by simp
qed


subsection \<open>OPT\<close>

lemma stable_OPT_read [stable_rules]: "stable OPT_read"
  unfolding OPT_read_def by (intro stable_rules)

lemma wp_OPT_read:
  "(\<And>x q. p \<le> q \<Longrightarrow> q \<le> length buf \<Longrightarrow> Q x q) \<Longrightarrow> p \<le> length buf \<Longrightarrow> wp OPT_read Q buf p"
  by (simp add: OPT_read_def wp_rules)

lemma OPT_to_bytes_Ok_iff:
  "OPT_to_bytes opt = Ok bs \<longleftrightarrow>
     length (opt_data opt) < 65536 \<and>
     bs = be_bytes16 (opt_udp_payload_size opt) @ [opt_higher_bits opt] @ [opt_edns0_version opt]
       @ be_bytes16 (opt_flags opt) @ be_bytes16 (word_of_nat (length (opt_data opt))) @ opt_data opt"
  by (auto simp: OPT_to_bytes_def Let_def)

lemma OPT_to_bytes_parses:
  assumes "length (opt_data opt) < 65536"
  shows "\<exists>bs. OPT_to_bytes opt = Ok bs \<and> length bs = 8 + length (opt_data opt) \<and> parses OPT_read bs opt"
proof -
  obtain bs where bs: "OPT_to_bytes opt = Ok bs"
    using assms by (auto simp: OPT_to_bytes_Ok_iff)
  let ?n = "word_of_nat (length (opt_data opt)) :: u16"
  from assms have n: "length (opt_data opt) = unat ?n" by simp
  have "parses OPT_read bs opt"
    unfolding OPT_read_def
    by (rule parses_bind' [OF parses_read_u16 [of "opt_udp_payload_size opt"]],
        rule parses_bind' [OF parses_read_u8 [of "opt_higher_bits opt"]],
        rule parses_bind' [OF parses_read_u8 [of "opt_edns0_version opt"]],
        rule parses_bind' [OF parses_read_u16 [of "opt_flags opt"]],
        rule parses_bind' [OF parses_read_u16 [of ?n]],
        rule parses_bind' [OF parses_read_exact [OF n]], rule parses_ret')
      (use bs in \<open>simp_all add: OPT_to_bytes_Ok_iff\<close>)
  with bs show ?thesis by (auto simp: OPT_to_bytes_Ok_iff)
qed

text \<open>
  An OPT record is written exactly when its data fits its length field, with no panic when
  it does not, and what is written is read back as the same record.
\<close>

theorem OPT_write_read:
  "if length (opt_data opt) < 65536
   then \<exists>bs. OPT_to_bytes opt = Ok bs \<and> length bs = 8 + length (opt_data opt) \<and> parses OPT_read bs opt
   else OPT_to_bytes opt = Err InvalidInput"
  using OPT_to_bytes_parses by (simp add: OPT_to_bytes_def Let_def)

end
