(* ===== verification/Records_Names.thy ===== *)
theory Records_Names
  imports Wire_Reader Labels Registry
begin

text \<open>
  The records with domain names in them (\<open>dns/src/record/\<close>: \<open>cname.rs\<close>, \<open>ns.rs\<close>, \<open>ptr.rs\<close>,
  \<open>mx.rs\<close>, \<open>srv.rs\<close>, \<open>soa.rs\<close>, \<open>naptr.rs\<close>, \<open>rrsig.rs\<close>, \<open>nsec.rs\<close>). A name can be a pointer,
  so the length of the record is only known once its names are read.
\<close>

subsection \<open>A name alone\<close>

record CNAME =
  cname_domain :: labels

definition CNAME_read :: "u16 \<Rightarrow> CNAME reader" where
  "CNAME_read stated_length =
     bind read_labels (\<lambda>(domain, domain_length).
     if stated_length = domain_length then ret \<lparr>cname_domain = domain\<rparr>
     else fail (WrongLabelLength stated_length domain_length))"

record NS =
  ns_nameserver :: labels

definition NS_read :: "u16 \<Rightarrow> NS reader" where
  "NS_read stated_length =
     bind read_labels (\<lambda>(nameserver, nameserver_length).
     if stated_length = nameserver_length then ret \<lparr>ns_nameserver = nameserver\<rparr>
     else fail (WrongLabelLength stated_length nameserver_length))"

record PTR =
  ptr_cname :: labels

definition PTR_read :: "u16 \<Rightarrow> PTR reader" where
  "PTR_read stated_length =
     bind read_labels (\<lambda>(cname, cname_length).
     if stated_length = cname_length then ret \<lparr>ptr_cname = cname\<rparr>
     else fail (WrongLabelLength stated_length cname_length))"


subsection \<open>Numbers and names\<close>

record MX =
  mx_preference :: u16
  mx_exchange :: labels

definition MX_read :: "u16 \<Rightarrow> MX reader" where
  "MX_read stated_length =
     bind read_u16 (\<lambda>preference.
     bind read_labels (\<lambda>(exchange, exchange_length).
     bind (checked_add 2 exchange_length) (\<lambda>length_after_labels.
     check_length stated_length length_after_labels
       \<lparr>mx_preference = preference, mx_exchange = exchange\<rparr>)))"

record SRV =
  srv_priority :: u16
  srv_weight :: u16
  srv_port :: u16
  srv_target :: labels

definition SRV_read :: "u16 \<Rightarrow> SRV reader" where
  "SRV_read stated_length =
     bind read_u16 (\<lambda>priority.
     bind read_u16 (\<lambda>weight.
     bind read_u16 (\<lambda>port.
     bind read_labels (\<lambda>(target, target_length).
     bind (checked_add (3 * 2) target_length) (\<lambda>length_after_labels.
     check_length stated_length length_after_labels
       \<lparr>srv_priority = priority, srv_weight = weight, srv_port = port, srv_target = target\<rparr>)))))"

record SOA =
  soa_mname :: labels
  soa_rname :: labels
  soa_serial :: u32
  soa_refresh_interval :: u32
  soa_retry_interval :: u32
  soa_expire_limit :: u32
  soa_minimum_ttl :: u32

definition SOA_read :: "u16 \<Rightarrow> SOA reader" where
  "SOA_read stated_length =
     bind read_labels (\<lambda>(mname, mname_length).
     bind read_labels (\<lambda>(rname, rname_length).
     bind read_u32 (\<lambda>serial.
     bind read_u32 (\<lambda>refresh_interval.
     bind read_u32 (\<lambda>retry_interval.
     bind read_u32 (\<lambda>expire_limit.
     bind read_u32 (\<lambda>minimum_ttl.
     bind (checked_add (4 * 5) mname_length) (\<lambda>n.
     bind (checked_add n rname_length) (\<lambda>length_after_labels.
     check_length stated_length length_after_labels
       \<lparr>soa_mname = mname, soa_rname = rname, soa_serial = serial,
        soa_refresh_interval = refresh_interval, soa_retry_interval = retry_interval,
        soa_expire_limit = expire_limit, soa_minimum_ttl = minimum_ttl\<rparr>)))))))))"

record NAPTR =
  naptr_order :: u16
  naptr_preference :: u16
  naptr_flags :: "u8 list"
  naptr_service :: "u8 list"
  naptr_regex :: "u8 list"
  naptr_replacement :: labels

definition NAPTR_read :: "u16 \<Rightarrow> NAPTR reader" where
  "NAPTR_read stated_length =
     bind read_u16 (\<lambda>order.
     bind read_u16 (\<lambda>preference.
     bind read_character_string (\<lambda>(flags, flags_length).
     bind read_character_string (\<lambda>(service, service_length).
     bind read_character_string (\<lambda>(regex, regex_length).
     bind read_labels (\<lambda>(replacement, replacement_length).
     bind (checked_add (2 + 2) flags_length) (\<lambda>n.
     bind (checked_add n service_length) (\<lambda>n.
     bind (checked_add n regex_length) (\<lambda>n.
     let length_after_labels = saturating_add n replacement_length in
     if stated_length = length_after_labels then
       ret \<lparr>naptr_order = order, naptr_preference = preference, naptr_flags = flags,
            naptr_service = service, naptr_regex = regex, naptr_replacement = replacement\<rparr>
     else fail (WrongLabelLength stated_length length_after_labels))))))))))"


subsection \<open>DNSSEC\<close>

record FixedFields =
  fixed_type_covered :: u16
  fixed_algorithm :: u8
  fixed_labels :: u8
  fixed_original_ttl :: u32
  fixed_signature_expiration :: u32
  fixed_signature_inception :: u32
  fixed_key_tag :: u16

definition FixedFields_read :: "FixedFields reader" where
  "FixedFields_read =
     bind read_u16 (\<lambda>type_covered.
     bind read_u8 (\<lambda>algorithm.
     bind read_u8 (\<lambda>labels.
     bind read_u32 (\<lambda>original_ttl.
     bind read_u32 (\<lambda>signature_expiration.
     bind read_u32 (\<lambda>signature_inception.
     bind read_u16 (\<lambda>key_tag.
     ret \<lparr>fixed_type_covered = type_covered, fixed_algorithm = algorithm, fixed_labels = labels,
          fixed_original_ttl = original_ttl, fixed_signature_expiration = signature_expiration,
          fixed_signature_inception = signature_inception, fixed_key_tag = key_tag\<rparr>)))))))"

record RRSIG =
  rrsig_type_covered :: u16
  rrsig_algorithm :: u8
  rrsig_labels :: u8
  rrsig_original_ttl :: u32
  rrsig_signature_expiration :: u32
  rrsig_signature_inception :: u32
  rrsig_key_tag :: u16
  rrsig_signer_name :: labels
  rrsig_signature :: "u8 list"

definition RRSIG_read :: "u16 \<Rightarrow> RRSIG reader" where
  "RRSIG_read stated_length =
     (if stated_length < 19 then fail (WrongRecordLength stated_length (AtLeast 19))
      else
        bind FixedFields_read (\<lambda>fixed.
        bind read_labels (\<lambda>(signer_name, signer_name_length).
        let length_after_labels = saturating_add signer_name_length 18 in
        case checked_sub stated_length length_after_labels of
          None \<Rightarrow> fail (WrongLabelLength stated_length length_after_labels)
        | Some signature_length \<Rightarrow>
            bind (read_exact (unat signature_length)) (\<lambda>signature.
            ret \<lparr>rrsig_type_covered = fixed_type_covered fixed,
                 rrsig_algorithm = fixed_algorithm fixed,
                 rrsig_labels = fixed_labels fixed,
                 rrsig_original_ttl = fixed_original_ttl fixed,
                 rrsig_signature_expiration = fixed_signature_expiration fixed,
                 rrsig_signature_inception = fixed_signature_inception fixed,
                 rrsig_key_tag = fixed_key_tag fixed,
                 rrsig_signer_name = signer_name,
                 rrsig_signature = signature\<rparr>))))"

definition RRSIG_algorithm_name :: "RRSIG \<Rightarrow> string option" where
  "RRSIG_algorithm_name r = dnssec_algorithm_name (rrsig_algorithm r)"

definition RRSIG_type_covered_name :: "RRSIG \<Rightarrow> string option" where
  "RRSIG_type_covered_name r = record_type_name (rrsig_type_covered r)"


subsection \<open>Every reader keeps the contract\<close>

text \<open>The steps of a reader that are not primitive reads, for the proofs below.\<close>

lemmas name_steps = impI wp_read_labels wp_read_character_string wp_checked_addI [rotated]

lemmas read_steps = wp_bind wp_read_u8 wp_read_u16 wp_read_u32 wp_read_exact wp_ret wp_fail
  wp_check_length

interpretation CNAME: exact_reader CNAME_read
proof
  show "wp (CNAME_read len) (\<lambda>x q. q = p + unat len \<and> q \<le> length buf) buf p"
    if "in_reach buf p" "p \<le> length buf" for buf p len
    unfolding CNAME_read_def read_steps
    by ((rule name_steps in_reachD [OF that(1)] | simp only: prod.case read_steps)+)
      (use that(2) in_reachD [OF that(1)] in \<open>auto simp: read_steps\<close>)
  show "stable (CNAME_read len)" for len
    unfolding CNAME_read_def by (intro stable_rules)
qed

interpretation NS: exact_reader NS_read
proof
  show "wp (NS_read len) (\<lambda>x q. q = p + unat len \<and> q \<le> length buf) buf p"
    if "in_reach buf p" "p \<le> length buf" for buf p len
    unfolding NS_read_def read_steps
    by ((rule name_steps in_reachD [OF that(1)] | simp only: prod.case read_steps)+)
      (use that(2) in_reachD [OF that(1)] in \<open>auto simp: read_steps\<close>)
  show "stable (NS_read len)" for len
    unfolding NS_read_def by (intro stable_rules)
qed

interpretation PTR: exact_reader PTR_read
proof
  show "wp (PTR_read len) (\<lambda>x q. q = p + unat len \<and> q \<le> length buf) buf p"
    if "in_reach buf p" "p \<le> length buf" for buf p len
    unfolding PTR_read_def read_steps
    by ((rule name_steps in_reachD [OF that(1)] | simp only: prod.case read_steps)+)
      (use that(2) in_reachD [OF that(1)] in \<open>auto simp: read_steps\<close>)
  show "stable (PTR_read len)" for len
    unfolding PTR_read_def by (intro stable_rules)
qed

interpretation MX: exact_reader MX_read
proof
  show "wp (MX_read len) (\<lambda>x q. q = p + unat len \<and> q \<le> length buf) buf p"
    if "in_reach buf p" "p \<le> length buf" for buf p len
    unfolding MX_read_def read_steps
    by ((rule name_steps in_reachD [OF that(1)] | simp only: prod.case read_steps)+)
      (use that(2) in_reachD [OF that(1)] in \<open>auto simp: read_steps\<close>)
  show "stable (MX_read len)" for len
    unfolding MX_read_def by (intro stable_rules)
qed

interpretation SRV: exact_reader SRV_read
proof
  show "wp (SRV_read len) (\<lambda>x q. q = p + unat len \<and> q \<le> length buf) buf p"
    if "in_reach buf p" "p \<le> length buf" for buf p len
    unfolding SRV_read_def read_steps
    by ((rule name_steps in_reachD [OF that(1)] | simp only: prod.case read_steps)+)
      (use that(2) in_reachD [OF that(1)] in \<open>auto simp: read_steps\<close>)
  show "stable (SRV_read len)" for len
    unfolding SRV_read_def by (intro stable_rules)
qed

interpretation SOA: exact_reader SOA_read
proof
  show "wp (SOA_read len) (\<lambda>x q. q = p + unat len \<and> q \<le> length buf) buf p"
    if "in_reach buf p" "p \<le> length buf" for buf p len
    unfolding SOA_read_def read_steps
    by ((rule name_steps in_reachD [OF that(1)] | simp only: prod.case read_steps)+)
      (use that(2) in_reachD [OF that(1)] in \<open>auto simp: read_steps\<close>)
  show "stable (SOA_read len)" for len
    unfolding SOA_read_def by (intro stable_rules)
qed

interpretation NAPTR: exact_reader NAPTR_read
proof
  show "wp (NAPTR_read len) (\<lambda>x q. q = p + unat len \<and> q \<le> length buf) buf p"
    if "in_reach buf p" "p \<le> length buf" for buf p len
    unfolding NAPTR_read_def read_steps Let_def
    by ((rule name_steps in_reachD [OF that(1)] | simp only: prod.case read_steps)+)
      (use that(2) in_reachD [OF that(1)] in \<open>auto simp: wp_rules unat_saturating_add_fits\<close>)
  show "stable (NAPTR_read len)" for len
    unfolding NAPTR_read_def Let_def by (intro stable_rules)
qed

interpretation RRSIG: exact_reader RRSIG_read
proof
  show "wp (RRSIG_read len) (\<lambda>x q. q = p + unat len \<and> q \<le> length buf) buf p"
    if "in_reach buf p" "p \<le> length buf" for buf p len
    unfolding RRSIG_read_def FixedFields_read_def wp_if read_steps Let_def
    by (intro conjI impI TrueI, (rule name_steps in_reachD [OF that(1)] | simp only: prod.case read_steps)+)
      (use that(2) in_reachD [OF that(1)] in
        \<open>auto simp: read_steps checked_sub_Some_iff unat_saturating_add_fits split: option.split\<close>)
  show "stable (RRSIG_read len)" for len
    unfolding RRSIG_read_def FixedFields_read_def Let_def by (intro stable_rules)
qed

end
