(* ===== verification/Record_Nsec.thy ===== *)
theory Record_Nsec
  imports Wire_Reader Labels Registry
begin

text \<open>
  The NSEC record and the type bit maps in it (\<open>dns/src/record/nsec.rs\<close>), with the RFC's
  description of a bit map as the specification: a list of windows of 256 types, each with a
  bit for every type that exists.
\<close>

subsection \<open>The code\<close>

text \<open>The type of one bit: \<open>window * 256 + byte_idx * 8 + bit\<close>, with overflow checks.\<close>

definition bitmap_type :: "u16 \<Rightarrow> u16 \<Rightarrow> u16 \<Rightarrow> (WireError, u16) outcome" where
  "bitmap_type window byte_idx bt =
     bind_outcome (mul_or_panic window 256) (\<lambda>w.
     bind_outcome (mul_or_panic byte_idx 8) (\<lambda>b.
     bind_outcome (add_or_panic w b) (\<lambda>wb.
     add_or_panic wb bt)))"

definition byte_types :: "u16 \<Rightarrow> u16 \<Rightarrow> u8 \<Rightarrow> (WireError, u16 list) outcome" where
  "byte_types window byte_idx byte =
     collect_outcome (\<lambda>bt. bitmap_type window byte_idx (word_of_nat bt))
       (filter (\<lambda>bt. byte AND drop_bit bt 0x80 \<noteq> 0) [0..<8])"

definition window_types :: "u16 \<Rightarrow> u8 list \<Rightarrow> (WireError, u16 list) outcome" where
  "window_types window bytes =
     bind_outcome
       (collect_outcome (\<lambda>byte_idx. byte_types window (word_of_nat byte_idx) (bytes ! byte_idx))
          [0..<length bytes])
       (\<lambda>parts. Ok (concat parts))"

function parse_windows :: "u8 list \<Rightarrow> nat \<Rightarrow> u16 list \<Rightarrow> (WireError, u16 list) outcome" where
  "parse_windows data i types =
     (if i + 1 < length data then
        let window = ucast (data ! i); bitmap_len = unat (data ! (i + 1)) in
        if bitmap_len = 0 \<or> bitmap_len > 32 \<or> i + 2 + bitmap_len > length data then Ok types
        else
          bind_outcome (window_types window (take bitmap_len (drop (i + 2) data))) (\<lambda>ts.
          parse_windows data (i + 2 + bitmap_len) (types @ ts))
      else Ok types)"
  by pat_completeness auto
termination
  by (relation "measure (\<lambda>(data, i, types). length data - i)") auto

declare parse_windows.simps [simp del]

definition parse_type_bitmaps :: "u8 list \<Rightarrow> (WireError, u16 list) outcome" where
  "parse_type_bitmaps data = parse_windows data 0 []"

record NSEC =
  nsec_next_domain :: labels
  nsec_types :: "u16 list"

definition NSEC_read :: "u16 \<Rightarrow> NSEC reader" where
  "NSEC_read stated_length =
     (if stated_length < 2 then fail (WrongRecordLength stated_length (AtLeast 2))
      else
        bind read_labels (\<lambda>(next_domain, next_domain_length).
        case checked_sub stated_length next_domain_length of
          None \<Rightarrow> fail (WrongLabelLength stated_length next_domain_length)
        | Some bitmap_length \<Rightarrow>
            bind (read_exact (unat bitmap_length)) (\<lambda>bitmap_bytes.
            bind (lift_outcome (parse_type_bitmaps bitmap_bytes)) (\<lambda>types.
            ret \<lparr>nsec_next_domain = next_domain, nsec_types = types\<rparr>))))"

definition NSEC_type_names :: "NSEC \<Rightarrow> string list" where
  "NSEC_type_names n =
     map (\<lambda>number. case record_type_name number of Some name \<Rightarrow> name
                   | None \<Rightarrow> ''TYPE'' @ dec (unat number)) (nsec_types n)"


subsection \<open>The types of a bit map\<close>

text \<open>The types whose bit is set, in order.\<close>

definition bitmap_numbers :: "nat \<Rightarrow> u8 list \<Rightarrow> nat list" where
  "bitmap_numbers window bytes =
     concat (map (\<lambda>k. map (\<lambda>j. window * 256 + k * 8 + j) (filter (\<lambda>j. bit (bytes ! k) (7 - j)) [0..<8]))
       [0..<length bytes])"

lemma bit_test:
  assumes "j < 8"
  shows "(byte :: u8) AND drop_bit j 0x80 \<noteq> 0 \<longleftrightarrow> bit byte (7 - j)"
proof -
  have "drop_bit j (0x80 :: u8) = 2 ^ (7 - j)"
  proof -
    have "j \<in> {0, 1, 2, 3, 4, 5, 6, 7}" unfolding insert_iff empty_iff using assms by presburger
    then show ?thesis by auto
  qed
  moreover have "byte AND 2 ^ (7 - j) \<noteq> 0 \<longleftrightarrow> bit byte (7 - j)"
    by (metis and_exp_eq_0_iff_not_bit)
  ultimately show ?thesis by simp
qed

lemma bitmap_type_Ok:
  assumes "w < 256" and "k < 32" and "j < 8"
  shows "bitmap_type (word_of_nat w) (word_of_nat k) (word_of_nat j) = Ok (word_of_nat (w * 256 + k * 8 + j))"
proof -
  have u: "unat (word_of_nat w :: u16) = w" "unat (word_of_nat k :: u16) = k" "unat (word_of_nat j :: u16) = j"
    "unat (word_of_nat (w * 256) :: u16) = w * 256" "unat (word_of_nat (k * 8) :: u16) = k * 8"
    "unat (word_of_nat (w * 256 + k * 8) :: u16) = w * 256 + k * 8"
    "unat (word_of_nat (w * 256 + k * 8 + j) :: u16) = w * 256 + k * 8 + j"
    using assms by (intro unat_of_nat_u16; simp)+
  have sums: "mul_or_panic (word_of_nat w) 256 = (Ok (word_of_nat (w * 256)) :: (WireError, u16) outcome)"
    "mul_or_panic (word_of_nat k) 8 = (Ok (word_of_nat (k * 8)) :: (WireError, u16) outcome)"
    "add_or_panic (word_of_nat (w * 256)) (word_of_nat (k * 8))
      = (Ok (word_of_nat (w * 256 + k * 8)) :: (WireError, u16) outcome)"
    "add_or_panic (word_of_nat (w * 256 + k * 8)) (word_of_nat j)
      = (Ok (word_of_nat (w * 256 + k * 8 + j)) :: (WireError, u16) outcome)"
    unfolding mul_or_panic_Ok_iff add_or_panic_Ok_iff u by simp_all
  show ?thesis
    unfolding bitmap_type_def by (simp only: sums bind_outcome.simps)
qed

lemma collect_outcome_Ok_map:
  "(\<And>x. x \<in> set xs \<Longrightarrow> f x = Ok (g x)) \<Longrightarrow> collect_outcome f xs = Ok (map g xs)"
  by (induction xs) auto

lemma window_types_Ok:
  assumes "w < 256" and "length bytes \<le> 32"
  shows "window_types (word_of_nat w) bytes = Ok (map word_of_nat (bitmap_numbers w bytes))"
proof -
  let ?row = "\<lambda>k. map (\<lambda>j. word_of_nat (w * 256 + k * 8 + j)) (filter (\<lambda>j. bit (bytes ! k) (7 - j)) [0..<8])"
  have bits: "filter (\<lambda>j. byte AND drop_bit j 0x80 \<noteq> 0) [0..<8] = filter (\<lambda>j. bit byte (7 - j)) [0..<8]"
    for byte :: u8
    by (intro filter_cong) (simp_all add: bit_test)
  have "byte_types (word_of_nat w) (word_of_nat k) (bytes ! k) = Ok (?row k)" if "k < length bytes" for k
    unfolding byte_types_def bits
    by (rule collect_outcome_Ok_map, rule bitmap_type_Ok) (use that assms in auto)
  then have "collect_outcome (\<lambda>k. byte_types (word_of_nat w) (word_of_nat k) (bytes ! k)) [0..<length bytes]
      = Ok (map ?row [0..<length bytes])"
    by (intro collect_outcome_Ok_map) simp
  then show ?thesis
    by (simp add: window_types_def bitmap_numbers_def map_concat o_def)
qed

text \<open>The RFC's format: a window's number, the length of its bit map, and the bit map.\<close>

definition block_bytes :: "u8 \<times> u8 list \<Rightarrow> u8 list" where
  "block_bytes = (\<lambda>(window, bytes). window # word_of_nat (length bytes) # bytes)"

definition valid_block :: "u8 \<times> u8 list \<Rightarrow> bool" where
  "valid_block = (\<lambda>(window, bytes). bytes \<noteq> [] \<and> length bytes \<le> 32)"

definition block_numbers :: "u8 \<times> u8 list \<Rightarrow> nat list" where
  "block_numbers = (\<lambda>(window, bytes). bitmap_numbers (unat window) bytes)"

lemma parse_windows_block:
  assumes "valid_block (window, bytes)"
  shows "parse_windows (pre @ block_bytes (window, bytes) @ rest) (length pre) types =
    parse_windows (pre @ block_bytes (window, bytes) @ rest)
      (length (pre @ block_bytes (window, bytes)))
      (types @ map word_of_nat (block_numbers (window, bytes)))"
proof -
  from assms have len: "0 < length bytes" "length bytes \<le> 32" by (auto simp: valid_block_def)
  show ?thesis
    using len window_types_Ok [of "unat window" bytes] unat_u8_less [of window]
    by (subst parse_windows.simps)
      (simp add: block_bytes_def block_numbers_def nth_append Let_def)
qed

lemma parse_windows_blocks:
  assumes "list_all valid_block blocks"
  shows "parse_windows (pre @ concat (map block_bytes blocks)) (length pre) types =
    Ok (types @ map word_of_nat (concat (map block_numbers blocks)))"
  using assms
proof (induction blocks arbitrary: pre types)
  case Nil
  then show ?case by (simp add: parse_windows.simps)
next
  case (Cons block blocks)
  obtain window bytes where block: "block = (window, bytes)" by (cases block)
  have "parse_windows ((pre @ block_bytes block) @ concat (map block_bytes blocks))
      (length (pre @ block_bytes block)) (types @ map word_of_nat (block_numbers block))
    = Ok ((types @ map word_of_nat (block_numbers block)) @ map word_of_nat (concat (map block_numbers blocks)))"
    by (rule Cons.IH) (use Cons.prems in simp)
  with Cons.prems show ?case
    using parse_windows_block [of window bytes pre "concat (map block_bytes blocks)" types]
    by (simp add: block)
qed

text \<open>
  The type numbers of an NSEC record are those whose bits are set in its bit maps, in the
  order of the windows and bits, for any list of windows in the RFC's format.
\<close>

theorem parse_type_bitmaps_blocks:
  assumes "list_all valid_block blocks"
  shows "parse_type_bitmaps (concat (map block_bytes blocks))
    = Ok (map word_of_nat (concat (map block_numbers blocks)))"
  using parse_windows_blocks [OF assms, of "[]" "[]"] by (simp add: parse_type_bitmaps_def)

lemma parse_type_bitmaps_blocks_witness:
  "parse_type_bitmaps [0, 1, 0x60, 1, 1, 0x80] = Ok [1, 2, 256]"
  using parse_type_bitmaps_blocks [of "[(0, [0x60]), (1, [0x80])]"]
  by (simp add: valid_block_def block_bytes_def block_numbers_def bitmap_numbers_def upt_rec
      bit_numeral_rec)


subsection \<open>Every bit map parses\<close>

lemma parse_windows_total: "\<exists>ts. parse_windows data i types = Ok (types @ ts)"
proof (induction data i types rule: parse_windows.induct)
  case (1 data i types)
  let ?n = "unat (data ! (i + 1))"
  show ?case
  proof (cases "i + 1 < length data \<and> \<not> (?n = 0 \<or> ?n > 32 \<or> i + 2 + ?n > length data)")
    case False
    then show ?thesis by (subst parse_windows.simps) (auto simp: Let_def)
  next
    case True
    obtain ts where ts: "window_types (ucast (data ! i)) (take ?n (drop (i + 2) data)) = Ok ts"
      using window_types_Ok [of "unat (data ! i)" "take ?n (drop (i + 2) data)"] True
        unat_u8_less [of "data ! i"] by auto
    obtain ts' where
      "parse_windows data (i + 2 + ?n) (types @ ts) = Ok ((types @ ts) @ ts')"
      using "1.IH" [OF _ refl refl, of ts] True by auto
    with True ts show ?thesis by (subst parse_windows.simps) (simp add: Let_def)
  qed
qed

lemma parse_type_bitmaps_total: "\<exists>types. parse_type_bitmaps data = Ok types"
  using parse_windows_total [of data 0 "[]"] by (auto simp: parse_type_bitmaps_def)

lemma lift_bitmaps: "\<exists>types. lift_outcome (parse_type_bitmaps data) buf p = Ok (types, p)"
  using parse_type_bitmaps_total [of data] by auto

interpretation NSEC: exact_reader NSEC_read
proof
  show "wp (NSEC_read len) (\<lambda>x q. q = p + unat len \<and> q \<le> length buf) buf p"
    if "in_reach buf p" "p \<le> length buf" for buf p len
  proof -
    have bitmaps: "wp (lift_outcome (parse_type_bitmaps data)) Q buf q \<longleftrightarrow>
        (\<forall>types. parse_type_bitmaps data = Ok types \<longrightarrow> Q types q)" for data Q q
      using parse_type_bitmaps_total [of data] by (auto simp: wp_def)
    show ?thesis
      unfolding NSEC_read_def wp_if wp_bind
      by (intro conjI impI wp_fail wp_read_labels in_reachD [OF that(1)])
        (auto simp add: wp_fail wp_bind wp_read_exact wp_ret bitmaps checked_sub_Some_iff split: option.split)
  qed
  show "stable (NSEC_read len)" for len
    unfolding NSEC_read_def by (intro stable_rules)
qed

end
