(* ===== verification/Record_Txt.thy ===== *)
theory Record_Txt
  imports Wire_Reader Labels
begin

text \<open>
  The TXT record (\<open>dns/src/record/txt.rs\<close>): character strings, one after another up to the
  stated length, where a string of 255 bytes is joined with the one after it. The length read
  so far is added up in sixteen bits, with overflow checks.
\<close>

subsection \<open>The code\<close>

record TXT =
  txt_messages :: "u8 list list"

text \<open>The bytes of one string, pushed one at a time.\<close>

fun read_push :: "nat \<Rightarrow> u8 list \<Rightarrow> u8 list reader" where
  "read_push 0 buf = ret buf"
| "read_push (Suc k) buf = bind read_u8 (\<lambda>b. read_push k (buf @ [b]))"

lemma read_push_eq:
  "read_push k acc buf p =
     (if k \<le> length buf - p then Ok (acc @ take k (drop p buf), p + k) else Err IO)"
proof (induction k arbitrary: acc p)
  case 0
  show ?case by (simp add: ret_def)
next
  case (Suc k)
  show ?case
  proof (cases "p < length buf")
    case True
    then have "take (Suc k) (drop p buf) = buf ! p # take k (drop (p + 1) buf)"
      by (metis Cons_nth_drop_Suc Suc_eq_plus1 take_Suc_Cons)
    with True Suc.IH show ?thesis by (auto simp: bind_def read_u8_def)
  next
    case False
    then show ?thesis by (simp add: bind_def read_u8_def)
  qed
qed

text \<open>The inner loop: one message.\<close>

function read_message :: "u16 \<Rightarrow> u8 list \<Rightarrow> u16 \<Rightarrow> (u8 list \<times> u16) reader" where
  "read_message stated_length acc total_length buf p =
     bind read_u8 (\<lambda>next_length.
     bind (checked_add (ucast next_length) 1) (\<lambda>n.
     bind (checked_add total_length n) (\<lambda>total_length.
     bind (read_push (unat next_length) acc) (\<lambda>acc buf p.
       if next_length < 255 then ret (acc, total_length) buf p
       else if stated_length \<le> total_length then ret (acc, total_length) buf p
       else read_message stated_length acc total_length buf p)))) buf p"
  by pat_completeness auto
termination
  by (relation "measure (\<lambda>(_, _, _, buf, p). length buf - p)")
    (auto simp: read_u8_def add_or_panic_def read_push_eq split: if_splits)

declare read_message.simps [simp del]

lemma read_message_step:
  "read_message stated acc tot buf p =
    (if length buf \<le> p then Err IO
     else
       let n = unat (buf ! p) in
       if 65536 \<le> unat tot + (n + 1) then Panic
       else if length buf - (p + 1) < n then Err IO
       else
         let tot' = tot + (ucast (buf ! p) + 1); acc' = acc @ take n (drop (p + 1) buf) in
         if n < 255 \<or> stated \<le> tot' then Ok ((acc', tot'), p + 1 + n)
         else read_message stated acc' tot' buf (p + 1 + n))"
proof (cases "p < length buf")
  case False
  then show ?thesis by (subst read_message.simps) (simp add: bind_def read_u8_def)
next
  case True
  let ?b = "buf ! p"
  have u: "unat (ucast ?b + 1 :: u16) = unat ?b + 1"
    by (simp add: add.commute [of _ 1] unat_one_plus_u8)
  have b255: "?b < 255 \<longleftrightarrow> unat ?b < 255" by (simp add: word_less_nat_alt)
  have n: "add_or_panic (ucast ?b) 1 = (Ok (ucast ?b + 1) :: (WireError, u16) outcome)"
    by (simp only: add_or_panic_Ok_iff u) simp
  have tot: "add_or_panic tot (ucast ?b + 1) =
      (if 65536 \<le> unat tot + (unat ?b + 1) then Panic
       else Ok (tot + (ucast ?b + 1)) :: (WireError, u16) outcome)"
    by (simp add: add_or_panic_def u)
  show ?thesis
    using True
    by (subst read_message.simps)
      (simp add: bind_def read_u8_def n tot read_push_eq b255 ret_def Let_def)
qed

text \<open>\<open>read_message\<close> reads at least the length byte, so the loop over messages ends.\<close>

lemma read_message_advances:
  "read_message stated acc tot buf p = Ok (x, q) \<Longrightarrow> p < q \<and> q \<le> length buf"
proof (induction "length buf - p" arbitrary: acc tot p rule: less_induct)
  case less
  let ?n = "unat (buf ! p)"
  from less.prems have p: "p < length buf" "?n \<le> length buf - (p + 1)"
    by (auto simp: read_message_step [of stated acc tot] Let_def split: if_splits)
  show ?case
  proof (cases "q = p + 1 + ?n")
    case True
    with p show ?thesis by simp
  next
    case False
    with less.prems p have "read_message stated (acc @ take ?n (drop (p + 1) buf)) (tot + (ucast (buf ! p) + 1))
        buf (p + 1 + ?n) = Ok (x, q)"
      by (subst (asm) read_message_step) (auto simp: Let_def split: if_splits)
    moreover from p have "length buf - (p + 1 + ?n) < length buf - p" by linarith
    ultimately have "p + 1 + ?n < q \<and> q \<le> length buf" using less.hyps by blast
    then show ?thesis by simp
  qed
qed

text \<open>The outer loop: the messages.\<close>

function read_messages :: "u16 \<Rightarrow> u8 list list \<Rightarrow> u16 \<Rightarrow> (u8 list list \<times> u16) reader" where
  "read_messages stated_length messages total_length buf p =
     bind (read_message stated_length [] total_length) (\<lambda>x buf p.
       case x of (message, total_length) \<Rightarrow>
         let messages = messages @ [message] in
         if stated_length \<le> total_length then ret (messages, total_length) buf p
         else read_messages stated_length messages total_length buf p) buf p"
  by pat_completeness auto
termination
  by (relation "measure (\<lambda>(_, _, _, buf, p). length buf - p)")
    (auto dest: read_message_advances)

declare read_messages.simps [simp del]

definition TXT_read :: "u16 \<Rightarrow> TXT reader" where
  "TXT_read stated_length =
     bind (read_messages stated_length [] 0) (\<lambda>(messages, total_length).
     if stated_length = total_length then ret \<lparr>txt_messages = messages\<rparr>
     else fail (WrongLabelLength stated_length total_length))"


subsection \<open>The contract\<close>

lemma wp_read_message:
  assumes "length buf - (p - unat tot) \<le> 65280" and "unat tot \<le> p"
  shows "wp (read_message stated acc tot)
    (\<lambda>(_, tot') q. p < q \<and> q \<le> length buf \<and> unat tot' = unat tot + (q - p)) buf p"
  using assms
proof (induction "length buf - p" arbitrary: acc tot p rule: less_induct)
  case less
  let ?n = "unat (buf ! p)" and ?t = "tot + (ucast (buf ! p) + 1)"
  have n: "?n \<le> 255" using unat_u8_less [of "buf ! p"] by simp
  show ?case
  proof (cases "p < length buf \<and> ?n \<le> length buf - (p + 1)")
    case False
    have "length buf \<le> p \<or> unat tot + (?n + 1) < 65536" using less.prems n by auto
    with False show ?thesis by (auto simp: wp_def read_message_step [of stated acc tot] Let_def)
  next
    case True
    have small: "unat tot + (?n + 1) < 65536" using True less.prems n by auto
    then have t: "unat ?t = unat tot + (?n + 1)"
      using unat_add_no_overflow [of tot "ucast (buf ! p) + 1"] unat_one_plus_u8 [of "buf ! p"]
      by (simp add: add.commute [of _ 1])
    have "wp (read_message stated (acc @ take ?n (drop (p + 1) buf)) ?t)
        (\<lambda>(_, tot') q. p + 1 + ?n < q \<and> q \<le> length buf \<and> unat tot' = unat ?t + (q - (p + 1 + ?n)))
        buf (p + 1 + ?n)"
      by (rule less.hyps) (use True less.prems t in auto)
    then show ?thesis
      using True small t
      by (auto simp: wp_def read_message_step [of stated acc tot] Let_def
          split: outcome.splits)
  qed
qed

lemma wp_read_messages:
  assumes "length buf - (p - unat tot) \<le> 65280" and "unat tot \<le> p"
  shows "wp (read_messages stated msgs tot)
    (\<lambda>(_, tot') q. p < q \<and> q \<le> length buf \<and> unat tot' = unat tot + (q - p)) buf p"
  using assms
proof (induction "length buf - p" arbitrary: msgs tot p rule: less_induct)
  case less
  note msg = wp_read_message [OF less.prems, of stated "[]"]
  show ?case
  proof (cases "read_message stated [] tot buf p")
    case (Ok z)
    obtain m t q where z: "z = ((m, t), q)" by (metis surj_pair)
    have q: "p < q" "q \<le> length buf" "unat t = unat tot + (q - p)"
      using wp_OkD [OF msg] Ok z by auto
    have "wp (read_messages stated (msgs @ [m]) t)
        (\<lambda>(_, tot') q'. q < q' \<and> q' \<le> length buf \<and> unat tot' = unat t + (q' - q)) buf q"
      by (rule less.hyps) (use q less.prems in auto)
    with Ok z q show ?thesis
      by (auto simp: wp_def read_messages.simps [of stated msgs tot] bind_def ret_def Let_def
          split: outcome.splits)
  qed (use wp_no_panic [OF msg] in
      \<open>auto simp: wp_def read_messages.simps [of stated msgs tot] bind_def\<close>)
qed

lemma stable_read_message: "stable (read_message stated acc tot)"
proof (rule stableI)
  fix buf p x q zs
  assume len: "length (buf @ zs) < 65536" and ok: "read_message stated acc tot buf p = Ok (x, q)"
  from ok show "read_message stated acc tot (buf @ zs) p = Ok (x, q)"
  proof (induction "length buf - p" arbitrary: acc tot p rule: less_induct)
    case less
    let ?n = "unat (buf ! p)"
    from less.prems have p: "p < length buf" "?n \<le> length buf - (p + 1)" "\<not> 65536 \<le> unat tot + (?n + 1)"
      by (auto simp: read_message_step [of stated acc tot] Let_def split: if_splits)
    have "(buf @ zs) ! p = buf ! p" using p by (simp add: nth_append)
    moreover have "take ?n (drop (p + 1) (buf @ zs)) = take ?n (drop (p + 1) buf)" using p by simp
    ultimately show ?case
      using less.prems p less.hyps [of "p + 1 + ?n"]
      by (auto simp: read_message_step [of stated acc tot] Let_def split: if_splits)
  qed
qed

lemma stable_read_messages: "stable (read_messages stated msgs tot)"
proof (rule stableI)
  fix buf p x q zs
  assume len: "length (buf @ zs) < 65536" and ok: "read_messages stated msgs tot buf p = Ok (x, q)"
  from ok show "read_messages stated msgs tot (buf @ zs) p = Ok (x, q)"
  proof (induction "length buf - p" arbitrary: msgs tot p rule: less_induct)
    case less
    then obtain m t q' where m: "read_message stated [] tot buf p = Ok ((m, t), q')"
      by (auto simp: read_messages.simps [of stated msgs tot] bind_def split: outcome.splits prod.splits)
    with read_message_advances [OF this] stableD [OF stable_read_message len this] less
    show ?case
      by (auto simp: read_messages.simps [of stated msgs tot] bind_def ret_def Let_def split: if_splits)
  qed
qed

interpretation TXT: exact_reader TXT_read
proof
  show "wp (TXT_read len) (\<lambda>x q. q = p + unat len \<and> q \<le> length buf) buf p"
    if "in_reach buf p" for buf p len
    unfolding TXT_read_def wp_bind
    by (rule wp_mono [OF wp_read_messages]) (use that in \<open>auto simp: in_reach_def wp_rules\<close>)
  show "stable (TXT_read len)" for len
    unfolding TXT_read_def by (intro stable_rules stable_read_messages)
qed


subsection \<open>The messages of a list of strings\<close>

definition character_string :: "u8 list \<Rightarrow> u8 list" where
  "character_string bs = word_of_nat (length bs) # bs"

text \<open>The first message of some strings, and the strings after it.\<close>

fun first_message :: "u8 list list \<Rightarrow> u8 list \<times> u8 list list" where
  "first_message [] = ([], [])"
| "first_message (s # ss) =
     (if length s < 255 \<or> ss = [] then (s, ss)
      else case first_message ss of (m, rest) \<Rightarrow> (s @ m, rest))"

lemma first_message_shorter: "ss \<noteq> [] \<Longrightarrow> first_message ss = (m, rest) \<Longrightarrow> length rest < length ss"
proof (induction ss arbitrary: m rest)
  case (Cons s ss)
  then show ?case by (fastforce split: if_splits prod.splits)
qed simp

function merge_strings :: "u8 list list \<Rightarrow> u8 list list" where
  "merge_strings ss =
     (if ss = [] then []
      else case first_message ss of (m, rest) \<Rightarrow> m # merge_strings rest)"
  by pat_completeness auto
termination
  by (relation "measure length") (auto dest: first_message_shorter [OF _ sym])

declare merge_strings.simps [simp del]

lemma concat_first_message: "first_message ss = (m, rest) \<Longrightarrow> concat ss = m @ concat rest"
proof (induction ss arbitrary: m rest)
  case (Cons s ss)
  then show ?case by (fastforce split: if_splits prod.splits)
qed simp

lemma concat_merge_strings: "concat (merge_strings ss) = concat ss"
proof (induction ss rule: merge_strings.induct)
  case (1 ss)
  then show ?case
    by (cases "ss = []") (auto simp: merge_strings.simps [of ss] merge_strings.simps [of "[]"] dest: concat_first_message split: prod.splits)
qed

definition strings_bytes :: "u8 list list \<Rightarrow> u8 list" where
  "strings_bytes ss = concat (map character_string ss)"

lemma strings_bytes_simps [simp]:
  "strings_bytes [] = []" "strings_bytes (s # ss) = character_string s @ strings_bytes ss"
  by (simp_all add: strings_bytes_def)

lemma length_character_string [simp]: "length (character_string s) = length s + 1"
  by (simp add: character_string_def)

lemma first_message_bytes:
  "first_message ss = (m, rest) \<Longrightarrow> \<exists>used. strings_bytes ss = used @ strings_bytes rest"
proof (induction ss arbitrary: m rest)
  case (Cons s ss)
  then show ?case
    by (fastforce split: if_splits prod.splits)
qed simp

definition valid_string :: "u8 list \<Rightarrow> bool" where
  "valid_string s \<longleftrightarrow> length s < 256"

text \<open>One step of the loop over a string that is in the packet.\<close>

lemma read_message_string:
  assumes "valid_string s" and "unat tot + (length s + 1) < 65536"
  shows "read_message stated acc tot (pre @ character_string s @ post) (length pre) =
    (if length s < 255 \<or> unat stated \<le> unat tot + (length s + 1)
     then Ok ((acc @ s, word_of_nat (unat tot + (length s + 1))), length pre + (length s + 1))
     else read_message stated (acc @ s) (word_of_nat (unat tot + (length s + 1)))
       (pre @ character_string s @ post) (length pre + (length s + 1)))"
proof -
  let ?b = "word_of_nat (length s) :: u8"
  have b: "unat ?b = length s" using assms(1) by (simp add: valid_string_def)
  have "unat (ucast ?b + 1 :: u16) = length s + 1"
    using unat_one_plus_u8 [of ?b] b by (simp add: add.commute [of _ 1])
  with assms(2) have "unat (tot + (ucast ?b + 1)) = unat tot + (length s + 1)"
    using unat_add_no_overflow [of tot "ucast ?b + 1"] by simp
  with assms(2) have t: "tot + (ucast ?b + 1) = word_of_nat (unat tot + (length s + 1))"
    by (metis unat_of_nat_u16 word_unat_eq_iff)
  have u: "unat (word_of_nat (unat tot + (length s + 1)) :: u16) = unat tot + (length s + 1)"
    using assms(2) by (intro unat_of_nat_u16)
  have nth: "(pre @ character_string s @ post) ! length pre = ?b"
    by (simp add: nth_append character_string_def)
  have le: "stated \<le> word_of_nat (unat tot + (length s + 1)) \<longleftrightarrow> unat stated \<le> unat tot + (length s + 1)"
    by (simp only: word_le_nat_alt u)
  show ?thesis
    using assms(2)
    by (subst read_message_step)
      (simp only: nth t le b Let_def, simp add: character_string_def)
qed

lemma strings_bytes_pos: "ss \<noteq> [] \<Longrightarrow> 0 < length (strings_bytes ss)"
  by (cases ss) simp_all

lemma first_message_rest:
  "first_message ss = (m, rest) \<Longrightarrow> set rest \<subseteq> set ss"
proof (induction ss arbitrary: m rest)
  case (Cons s ss)
  then show ?case by (fastforce split: if_splits prod.splits)
qed simp

lemma read_message_strings:
  assumes "ss \<noteq> []" and "\<forall>s \<in> set ss. valid_string s" and "first_message ss = (m, rest)"
    and "unat tot + length (strings_bytes ss) = unat stated"
  shows "read_message stated acc tot (pre @ strings_bytes ss @ post) (length pre) =
    Ok ((acc @ m, word_of_nat (unat stated - length (strings_bytes rest))),
        length pre + (length (strings_bytes ss) - length (strings_bytes rest)))"
  using assms
proof (induction ss arbitrary: acc tot pre m)
  case (Cons s ss)
  let ?t = "word_of_nat (unat tot + (length s + 1)) :: u16"
  have small: "unat tot + (length s + 1) < 65536"
    using Cons.prems(4) unat_u16_less [of stated] by simp
  then have t: "unat ?t = unat tot + (length s + 1)" by (rule unat_of_nat_u16)
  have "unat tot + (length s + 1) < unat stated" if "ss \<noteq> []"
    using Cons.prems(4) strings_bytes_pos [OF that]
    unfolding strings_bytes_simps length_append length_character_string by linarith
  then have more: "unat stated \<le> unat tot + (length s + 1) \<longleftrightarrow> ss = []"
    using Cons.prems(4) by fastforce
  have read: "read_message stated acc tot (pre @ strings_bytes (s # ss) @ post) (length pre) =
    (if length s < 255 \<or> ss = [] then Ok ((acc @ s, ?t), length pre + (length s + 1))
     else read_message stated (acc @ s) ?t ((pre @ character_string s) @ strings_bytes ss @ post)
       (length (pre @ character_string s)))"
    using read_message_string [of s tot stated acc pre "strings_bytes ss @ post"] small
      Cons.prems(2) more
    by (auto simp del: of_nat_add)
  show ?case
  proof (cases "length s < 255 \<or> ss = []")
    case True
    with Cons.prems(3) have "m = s" "rest = ss" by auto
    moreover from Cons.prems(4) have "unat tot + (length s + 1) = unat stated - length (strings_bytes ss)"
      "length s + 1 = length (strings_bytes (s # ss)) - length (strings_bytes ss)"
      by simp_all
    ultimately show ?thesis using True by (simp only: read if_True)
  next
    case False
    with Cons.prems(3) obtain m' where m': "first_message ss = (m', rest)" "m = s @ m'"
      by (auto split: prod.splits)
    have "read_message stated (acc @ s) ?t ((pre @ character_string s) @ strings_bytes ss @ post)
        (length (pre @ character_string s)) =
      Ok (((acc @ s) @ m', word_of_nat (unat stated - length (strings_bytes rest))),
        length (pre @ character_string s) + (length (strings_bytes ss) - length (strings_bytes rest)))"
      by (rule Cons.IH) (use False m' Cons.prems t in auto)
    moreover have "length (strings_bytes rest) \<le> length (strings_bytes ss)"
      using first_message_bytes [OF m'(1)] by auto
    ultimately show ?thesis using False by (simp only: read if_False) (simp add: m')
  qed
qed simp

lemma read_messages_strings:
  assumes "ss \<noteq> []" and "\<forall>s \<in> set ss. valid_string s"
    and "unat tot + length (strings_bytes ss) = unat stated"
  shows "read_messages stated msgs tot (pre @ strings_bytes ss @ post) (length pre) =
    Ok ((msgs @ merge_strings ss, stated), length pre + length (strings_bytes ss))"
  using assms
proof (induction ss arbitrary: msgs tot pre rule: merge_strings.induct)
  case (1 ss)
  obtain m rest where m: "first_message ss = (m, rest)" by (cases "first_message ss")
  then obtain used where used: "strings_bytes ss = used @ strings_bytes rest"
    using first_message_bytes by blast
  let ?t = "word_of_nat (unat stated - length (strings_bytes rest)) :: u16"
  have t: "unat ?t = unat stated - length (strings_bytes rest)"
    using unat_u16_less [of stated] by (intro unat_of_nat_u16) simp
  have read: "read_message stated [] tot (pre @ strings_bytes ss @ post) (length pre)
      = Ok ((m, ?t), length pre + length used)"
    using read_message_strings [OF "1.prems"(1,2) m "1.prems"(3), of "[]" pre post] used by simp
  have merge: "merge_strings ss = m # merge_strings rest"
    using "1.prems"(1) m by (simp add: merge_strings.simps [of ss])
  show ?case
  proof (cases "rest = []")
    case True
    with used t have "?t = stated" by (simp add: word_unat_eq_iff)
    with True used read merge show ?thesis
      by (simp add: read_messages.simps [of stated msgs tot] bind_def ret_def Let_def
          merge_strings.simps [of "[]"])
  next
    case False
    have "length (strings_bytes rest) \<le> unat stated" using used "1.prems"(3) by simp
    with t strings_bytes_pos [OF False] have "unat ?t < unat stated" by linarith
    then have "\<not> stated \<le> ?t" by (simp only: word_le_nat_alt not_le)
    moreover have "read_messages stated (msgs @ [m]) ?t ((pre @ used) @ strings_bytes rest @ post)
        (length (pre @ used)) =
      Ok (((msgs @ [m]) @ merge_strings rest, stated), length (pre @ used) + length (strings_bytes rest))"
      by (rule "1.IH" [OF "1.prems"(1) m [symmetric] False])
        (use "1.prems" first_message_rest [OF m] used t in auto)
    ultimately show ?thesis
      using read by (simp add: read_messages.simps [of stated msgs tot] bind_def Let_def merge used)
  qed
qed

lemma parses_TXT:
  assumes "ss \<noteq> []" and "\<forall>s \<in> set ss. length s < 256" and "length (strings_bytes ss) < 65536"
  shows "parses (TXT_read (word_of_nat (length (strings_bytes ss)))) (strings_bytes ss)
    \<lparr>txt_messages = merge_strings ss\<rparr>"
proof (rule parsesI)
  fix pre post :: "u8 list"
  let ?n = "word_of_nat (length (strings_bytes ss)) :: u16"
  have "read_messages ?n [] 0 (pre @ strings_bytes ss @ post) (length pre) =
    Ok (([] @ merge_strings ss, ?n), length pre + length (strings_bytes ss))"
    by (rule read_messages_strings) (use assms in \<open>simp_all add: valid_string_def\<close>)
  then show "TXT_read ?n (pre @ strings_bytes ss @ post) (length pre) =
    Ok (\<lparr>txt_messages = merge_strings ss\<rparr>, length pre + length (strings_bytes ss))"
    by (simp add: TXT_read_def bind_def ret_def)
qed

text \<open>
  A TXT record of any character strings is read as its messages: the strings in order,
  where a string of 255 bytes is joined with the one after it, so that no byte of text is lost
  or moved.
\<close>

theorem TXT_read_strings:
  assumes "ss \<noteq> []" and "\<forall>s \<in> set ss. length s < 256" and "length (strings_bytes ss) < 65536"
  shows "parses (TXT_read (word_of_nat (length (strings_bytes ss)))) (strings_bytes ss)
      \<lparr>txt_messages = merge_strings ss\<rparr>
    \<and> concat (merge_strings ss) = concat ss"
  using parses_TXT [OF assms] concat_merge_strings by blast

lemma TXT_read_strings_witness:
  "parses (TXT_read 3) [0, 1, 0x61] \<lparr>txt_messages = [[], [0x61]]\<rparr>"
  using TXT_read_strings [of "[[], [0x61]]"]
  by (simp add: character_string_def merge_strings.simps)


subsection \<open>The length overflows\<close>

lemma read_message_full_strings:
  assumes "\<forall>s \<in> set ss. length s = 255" and "unat tot + 256 * length ss < unat stated"
  shows "read_message stated acc tot (pre @ strings_bytes ss @ post) (length pre) =
    read_message stated (acc @ concat ss) (word_of_nat (unat tot + 256 * length ss))
      (pre @ strings_bytes ss @ post) (length pre + 256 * length ss)"
  using assms
proof (induction ss arbitrary: acc tot pre)
  case Nil
  then show ?case by simp
next
  case (Cons s ss)
  let ?t = "word_of_nat (unat tot + 256) :: u16"
  have s: "length s = 255" "valid_string s" using Cons.prems(1) by (simp_all add: valid_string_def)
  have small: "unat tot + 256 < 65536" "unat tot + 256 < unat stated"
    using Cons.prems(2) unat_u16_less [of stated] by simp_all
  then have t: "unat ?t = unat tot + 256" by (intro unat_of_nat_u16)
  have sum: "unat tot + (length s + 1) = unat tot + 256" using s(1) by simp
  have "read_message stated acc tot (pre @ character_string s @ strings_bytes ss @ post) (length pre) =
      read_message stated (acc @ s) ?t (pre @ character_string s @ strings_bytes ss @ post) (length pre + 256)"
    using read_message_string [OF s(2), of tot stated acc pre "strings_bytes ss @ post"] small
    unfolding sum by (simp add: s(1) del: of_nat_add)
  also have "\<dots> = read_message stated (acc @ s) ?t ((pre @ character_string s) @ strings_bytes ss @ post)
      (length (pre @ character_string s))"
    by (simp add: s(1) del: of_nat_add)
  also have "\<dots> = read_message stated ((acc @ s) @ concat ss) (word_of_nat (unat ?t + 256 * length ss))
      ((pre @ character_string s) @ strings_bytes ss @ post)
      (length (pre @ character_string s) + 256 * length ss)"
    by (rule Cons.IH) (use Cons.prems t in simp_all)
  finally show ?case
    unfolding t by (simp add: s(1) add.assoc del: of_nat_add)
qed

definition full_strings :: "u8 list" where
  "full_strings = strings_bytes (replicate 255 (replicate 255 0))"

lemma length_full_strings: "length full_strings = 65280"
proof -
  have "length (strings_bytes (replicate k (replicate 255 0))) = k * 256" for k
    by (induction k) simp_all
  then show ?thesis by (simp add: full_strings_def)
qed

lemma TXT_overflow:
  assumes "65280 < unat stated"
  shows "TXT_read stated (pre @ full_strings @ 255 # post) (length pre) = Panic"
proof -
  let ?buf = "pre @ full_strings @ 255 # post"
  let ?ss = "replicate 255 (replicate 255 0) :: u8 list list"
  have "read_message stated [] 0 (pre @ strings_bytes ?ss @ 255 # post) (length pre) =
      read_message stated ([] @ concat ?ss) (word_of_nat (unat (0::u16) + 256 * length ?ss))
        (pre @ strings_bytes ?ss @ 255 # post) (length pre + 256 * length ?ss)"
    by (rule read_message_full_strings) (use assms in simp_all)
  then have "read_message stated [] 0 ?buf (length pre) =
      read_message stated (concat ?ss) 65280 ?buf (length (pre @ full_strings))"
    by (simp add: full_strings_def [symmetric] length_full_strings del: replicate.simps)
  also have "\<dots> = Panic"
  proof -
    have "?buf ! length (pre @ full_strings) = 255"
      by (metis append.assoc nth_append_length)
    then show ?thesis
      by (subst read_message_step) (simp add: Let_def)
  qed
  finally show ?thesis
    by (simp add: TXT_read_def bind_def read_messages.simps)
qed

text \<open>
  A TXT record that states a length above 65280, and goes on with 255 full strings and the
  length byte of one more, overflows the sixteen-bit count of its length, which aborts the
  program: the count is added to before the string's bytes are found to be missing.
\<close>

theorem TXT_read_overflows:
  assumes "65280 < unat stated"
  shows "TXT_read stated (pre @ full_strings @ 255 # post) (length pre) = Panic"
  by (rule TXT_overflow [OF assms])

lemma TXT_read_overflows_witness:
  "TXT_read 65535 (full_strings @ [255]) 0 = Panic"
  using TXT_read_overflows [of 65535 "[]" "[]"] by simp

end
