(* ===== verification/Record_Loc.thy ===== *)
theory Record_Loc
  imports Wire_Reader "HOL-Library.Signed_Division"
begin

text \<open>
  The LOC record (\<open>dns/src/record/loc.rs\<close>): sizes, positions and altitudes, decoded with
  the code's checked arithmetic and its truncating signed division, and displayed. The
  altitude's \<open>i64\<close> values stay within 34 bits, so they are integers here.
\<close>

subsection \<open>Sizes\<close>

record Size =
  size_base :: u8
  size_power_of_ten :: u8

definition size_from_u8 :: "u8 \<Rightarrow> Size" where
  "size_from_u8 input = \<lparr>size_base = drop_bit 4 input, size_power_of_ten = input AND 0xF\<rparr>"

definition size_centimetres :: "Size \<Rightarrow> ('e, u64) outcome" where
  "size_centimetres s =
     bind_outcome (pow_or_panic 10 (ucast (size_power_of_ten s))) (\<lambda>power.
     mul_or_panic (ucast (size_base s)) power)"

definition display_size :: "Size \<Rightarrow> ('e, string) outcome" where
  "display_size s =
     bind_outcome (size_centimetres s) (\<lambda>centimetres.
     Ok (if unat centimetres mod 100 = 0 then dec (unat centimetres div 100) @ ''m''
         else dec (unat centimetres div 100) @ ''.'' @ dec_padded 2 (unat centimetres mod 100) @ ''m''))"


subsection \<open>Positions\<close>

datatype Direction = North | East | South | West

record Position =
  pos_degrees :: u32
  pos_arcminutes :: u32
  pos_arcseconds :: u32
  pos_milliarcseconds :: u32
  pos_direction :: Direction

lemma bind_outcome_cong [fundef_cong]:
  "m = m' \<Longrightarrow> (\<And>x. m' = Ok x \<Longrightarrow> f x = f' x) \<Longrightarrow> bind_outcome m f = bind_outcome m' f'"
  by (cases m') auto

definition position_limit :: "bool \<Rightarrow> u32" where
  "position_limit vertical = 1000 * 60 * 60 * (if vertical then 90 else 180)"

function position_from_u32 :: "u32 \<Rightarrow> bool \<Rightarrow> (WireError, Position option) outcome" where
  "position_from_u32 input vertical =
     bind_outcome (sub_or_panic 0x80000000 (position_limit vertical)) (\<lambda>lower.
     bind_outcome (add_or_panic 0x80000000 (position_limit vertical)) (\<lambda>upper.
     if input < lower \<or> upper < input then Ok None
     else if 0x80000000 \<le> input then
       bind_outcome (sub_or_panic input 0x80000000) (\<lambda>input.
       let milliarcseconds = input mod 1000;
           total_arcseconds = input div 1000;
           arcseconds = total_arcseconds mod 60;
           total_arcminutes = total_arcseconds div 60;
           arcminutes = total_arcminutes mod 60;
           degrees = total_arcminutes div 60;
           direction = (if vertical then North else East)
       in Ok (Some \<lparr>pos_degrees = degrees, pos_arcminutes = arcminutes, pos_arcseconds = arcseconds,
                    pos_milliarcseconds = milliarcseconds, pos_direction = direction\<rparr>))
     else
       bind_outcome (sub_or_panic 0x80000000 input) (\<lambda>below.
       bind_outcome (mul_or_panic below 2) (\<lambda>twice.
       bind_outcome (add_or_panic input twice) (\<lambda>mirrored.
       bind_outcome (position_from_u32 mirrored vertical) (\<lambda>pos.
       case pos of
         None \<Rightarrow> Ok None
       | Some pos \<Rightarrow> Ok (Some (pos\<lparr>pos_direction := if vertical then South else West\<rparr>))))))))"
  by pat_completeness auto
termination
  by (relation "measure (\<lambda>(input, _). if unat input < 0x80000000 then 1 else 0)")
    (auto simp: add_or_panic_Ok_iff sub_or_panic_Ok_iff mul_or_panic_Ok_iff word_less_nat_alt word_le_nat_alt)

declare position_from_u32.simps [simp del]

definition display_direction :: "Direction \<Rightarrow> string" where
  "display_direction d =
     (case d of North \<Rightarrow> ''N'' | East \<Rightarrow> ''E'' | South \<Rightarrow> ''S'' | West \<Rightarrow> ''W'')"

text \<open>The signs of degrees, minutes and seconds, in UTF-8.\<close>

definition degree_sign :: string where "degree_sign = [CHR 0xC2, CHR 0xB0]"
definition prime :: string where "prime = [CHR 0xE2, CHR 0x80, CHR 0xB2]"
definition double_prime :: string where "double_prime = [CHR 0xE2, CHR 0x80, CHR 0xB3]"

definition display_position :: "Position \<Rightarrow> string" where
  "display_position p =
     dec (unat (pos_degrees p)) @ degree_sign @ dec (unat (pos_arcminutes p)) @ prime
       @ dec (unat (pos_arcseconds p))
       @ (if pos_milliarcseconds p \<noteq> 0 then ''.'' @ dec_padded 3 (unat (pos_milliarcseconds p)) else [])
       @ double_prime @ '' '' @ display_direction (pos_direction p)"


subsection \<open>Altitudes\<close>

record Altitude =
  alt_metres :: int
  alt_centimetres :: int

definition altitude_from_u32 :: "u32 \<Rightarrow> Altitude" where
  "altitude_from_u32 input =
     (let input = uint input - 10000000 in
      \<lparr>alt_metres = input sdiv 100, alt_centimetres = input smod 100\<rparr>)"

text \<open>The formats \<open>{}\<close> and \<open>{:0w}\<close> of a signed number, whose width counts the sign.\<close>

definition dec_int :: "int \<Rightarrow> string" where
  "dec_int z = (if z < 0 then CHR ''-'' # dec (nat (- z)) else dec (nat z))"

definition dec_int_padded :: "nat \<Rightarrow> int \<Rightarrow> string" where
  "dec_int_padded w z =
     (if z < 0 then CHR ''-'' # dec_padded (w - 1) (nat (- z)) else dec_padded w (nat z))"

definition display_altitude :: "Altitude \<Rightarrow> string" where
  "display_altitude a =
     (if alt_centimetres a = 0 then dec_int (alt_metres a) @ ''m''
      else dec_int (alt_metres a) @ ''.'' @ dec_int_padded 2 (alt_centimetres a) @ ''m'')"


subsection \<open>The record\<close>

record LOC =
  loc_size :: Size
  loc_horizontal_precision :: Size
  loc_vertical_precision :: Size
  loc_latitude :: "Position option"
  loc_longitude :: "Position option"
  loc_altitude :: Altitude

definition LOC_read :: "u16 \<Rightarrow> LOC reader" where
  "LOC_read stated_length =
     bind read_u8 (\<lambda>version.
     if version \<noteq> 0 then fail (WrongVersion version 0)
     else if stated_length \<noteq> 16 then fail (WrongRecordLength stated_length (Exactly 16))
     else
       bind read_u8 (\<lambda>size_bits.
       bind read_u8 (\<lambda>horizontal_bits.
       bind read_u8 (\<lambda>vertical_bits.
       bind read_u32 (\<lambda>latitude_num.
       bind (lift_outcome (position_from_u32 latitude_num True)) (\<lambda>latitude.
       bind read_u32 (\<lambda>longitude_num.
       bind (lift_outcome (position_from_u32 longitude_num False)) (\<lambda>longitude.
       bind read_u32 (\<lambda>altitude_num.
       ret \<lparr>loc_size = size_from_u8 size_bits,
            loc_horizontal_precision = size_from_u8 horizontal_bits,
            loc_vertical_precision = size_from_u8 vertical_bits,
            loc_latitude = latitude, loc_longitude = longitude,
            loc_altitude = altitude_from_u32 altitude_num\<rparr>)))))))))"


subsection \<open>Sizes are what their digits say\<close>

text \<open>
  A size of any byte is worked out with no overflow, even for digits above nine: the high
  four bits times ten to the power of the low four.
\<close>

theorem size_centimetres_from_u8:
  "\<exists>c. (size_centimetres (size_from_u8 b) :: ('e, u64) outcome) = Ok c \<and> unat c = unat b div 16 * 10 ^ (unat b mod 16)"
proof -
  let ?k = "unat b mod 16" and ?n = "unat b div 16"
  let ?e = "ucast (b AND 0xF) :: u32" and ?m = "ucast (drop_bit 4 b) :: u64"
  have e: "unat ?e = ?k" and m: "unat ?m = ?n"
    using unat_u8_less [of b] by (simp_all add: unsigned_ucast_eq take_bit_eq_mod unat_nibbles)
  have "?k \<le> 15" "?n \<le> 15" using unat_u8_less [of b] by simp_all
  then have p: "(10 :: nat) ^ ?k \<le> 10 ^ 15" by (intro power_increasing) simp_all
  with \<open>?n \<le> 15\<close> have np: "?n * 10 ^ ?k \<le> 15 * 10 ^ 15" by (intro mult_le_mono)
  from p have u: "unat ((10 :: u64) ^ ?k) = 10 ^ ?k"
    using unat_power_no_overflow [of "10 :: u64" ?k] by simp
  have "pow_or_panic (10 :: u64) ?e = (Ok (10 ^ ?k) :: ('e, u64) outcome)"
    using p by (simp add: pow_or_panic_def e)
  moreover have "mul_or_panic ?m (10 ^ ?k) = (Ok (?m * 10 ^ ?k) :: ('e, u64) outcome)" and "unat (?m * 10 ^ ?k) = ?n * 10 ^ ?k"
    using np by (simp_all add: mul_or_panic_def m u unat_word_ariths)
  ultimately show ?thesis by (simp add: size_centimetres_def size_from_u8_def)
qed


subsection \<open>Positions are distances from the equator and the prime meridian\<close>

definition position_distance :: "Position \<Rightarrow> nat" where
  "position_distance p =
     ((unat (pos_degrees p) * 60 + unat (pos_arcminutes p)) * 60 + unat (pos_arcseconds p)) * 1000
       + unat (pos_milliarcseconds p)"

definition proper_position :: "Position \<Rightarrow> bool" where
  "proper_position p \<longleftrightarrow> unat (pos_arcminutes p) < 60 \<and> unat (pos_arcseconds p) < 60
     \<and> unat (pos_milliarcseconds p) < 1000"

text \<open>How far a number is from the zero line.\<close>

definition line_distance :: "u32 \<Rightarrow> nat" where
  "line_distance input =
     (if 0x80000000 \<le> unat input then unat input - 0x80000000 else 0x80000000 - unat input)"

lemma unat_position_limit: "unat (position_limit vertical) = (if vertical then 324000000 else 648000000)"
  by (simp add: position_limit_def)

lemma sexagesimal:
  fixes n :: nat
  shows "3600000 * (n div 1000 div 60 div 60) + 60000 * (n div 1000 div 60 mod 60)
    + n div 1000 mod 60 * 1000 + n mod 1000 = n"
proof -
  define a b c where abc: "a = n div 1000" "b = a div 60" "c = b div 60"
  have "n = a * 1000 + n mod 1000" "a = b * 60 + a mod 60" "b = c * 60 + b mod 60"
    by (simp_all add: abc)
  then have "3600000 * c + 60000 * (b mod 60) + a mod 60 * 1000 + n mod 1000 = n" by linarith
  then show ?thesis by (simp only: abc)
qed

lemma position_range:
  "sub_or_panic 0x80000000 (position_limit v) = Ok (0x80000000 - position_limit v)"
  "add_or_panic 0x80000000 (position_limit v) = Ok (0x80000000 + position_limit v)"
  "unat (0x80000000 - position_limit v) = 0x80000000 - unat (position_limit v)"
  "unat (0x80000000 + position_limit v) = 0x80000000 + unat (position_limit v)"
  by (cases v; simp add: sub_or_panic_def add_or_panic_def position_limit_def)+

lemma position_outside:
  assumes "unat (position_limit v) < line_distance input"
  shows "position_from_u32 input v = Ok None"
proof -
  have "unat (position_limit v) \<le> 648000000" by (simp add: unat_position_limit)
  with assms have "input < 0x80000000 - position_limit v \<or> 0x80000000 + position_limit v < input"
    by (auto simp: word_less_nat_alt position_range line_distance_def split: if_splits)
  then show ?thesis
    by (subst position_from_u32.simps) (simp add: position_range)
qed

lemma position_upper:
  assumes "unat input = 0x80000000 + d" and "d \<le> unat (position_limit v)"
  shows "\<exists>p. position_from_u32 input v = Ok (Some p) \<and> position_distance p = d \<and> proper_position p
    \<and> pos_direction p = (if v then North else East)"
proof -
  let ?i = "input - 0x80000000"
  have inside: "\<not> input < 0x80000000 - position_limit v" "\<not> 0x80000000 + position_limit v < input"
    "0x80000000 \<le> input"
    using assms by (simp_all add: word_less_nat_alt word_le_nat_alt position_range)
  then have i: "unat ?i = d" using assms(1) by (simp add: unat_sub)
  have sub: "sub_or_panic input 0x80000000 = (Ok ?i :: (WireError, u32) outcome)"
    using inside(3) by (simp add: sub_or_panic_def)
  from inside sexagesimal [of d] show ?thesis
    by (subst position_from_u32.simps)
      (simp add: position_range sub Let_def position_distance_def proper_position_def
        unat_div_distrib unat_mod_distrib i)
qed

lemma position_lower:
  assumes d: "unat input + d = 0x80000000" "0 < d" and le: "d \<le> unat (position_limit v)"
  shows "\<exists>p. position_from_u32 input v = Ok (Some p) \<and> position_distance p = d \<and> proper_position p
    \<and> pos_direction p = (if v then South else West)"
proof -
  have l: "unat (position_limit v) \<le> 648000000" by (simp add: unat_position_limit)
  define below where "below = 0x80000000 - input"
  have below: "unat below = d" using d unfolding below_def by (simp add: unat_sub word_le_nat_alt)
  define twice where "twice = below * 2"
  have twice: "unat twice = d * 2"
    using le l unfolding twice_def by (simp add: unat_word_ariths below)
  define mirrored where "mirrored = input + twice"
  have mirrored: "unat mirrored = 0x80000000 + d"
    using d le l unfolding mirrored_def by (subst unat_add_no_overflow) (simp_all add: twice)
  have sums: "sub_or_panic 0x80000000 input = (Ok below :: (WireError, u32) outcome)"
    "mul_or_panic below 2 = (Ok twice :: (WireError, u32) outcome)"
    "add_or_panic input twice = (Ok mirrored :: (WireError, u32) outcome)"
    unfolding sub_or_panic_Ok_iff mul_or_panic_Ok_iff add_or_panic_Ok_iff
    using d by (simp_all add: below twice mirrored)
  have inside: "\<not> input < 0x80000000 - position_limit v" "\<not> 0x80000000 + position_limit v < input"
    "\<not> 0x80000000 \<le> input"
    using d le l by (simp_all add: word_less_nat_alt word_le_nat_alt position_range)
  from position_upper [OF mirrored le] obtain p where
    p: "position_from_u32 mirrored v = Ok (Some p)" "position_distance p = d" "proper_position p"
    by blast
  have "position_from_u32 input v = Ok (Some (p\<lparr>pos_direction := if v then South else West\<rparr>))"
    using inside by (subst position_from_u32.simps) (simp add: position_range sums p(1))
  with p(2,3) show ?thesis
    by (simp add: position_distance_def proper_position_def)
qed

lemma position_cases:
  "if line_distance input \<le> (if vertical then 90 else 180) * 60 * 60 * 1000
   then \<exists>p. position_from_u32 input vertical = Ok (Some p)
        \<and> position_distance p = line_distance input \<and> proper_position p
        \<and> pos_direction p = (if 0x80000000 \<le> unat input then if vertical then North else East
                              else if vertical then South else West)
   else position_from_u32 input vertical = Ok None"
proof -
  let ?d = "line_distance input" and ?l = "unat (position_limit vertical)"
  have limit: "?d \<le> (if vertical then 90 else 180) * 60 * 60 * 1000 \<longleftrightarrow> ?d \<le> ?l"
    by (simp add: unat_position_limit)
  show ?thesis
  proof (cases "?d \<le> ?l")
    case False
    then show ?thesis using position_outside [of vertical input] limit by simp
  next
    case True
    show ?thesis
    proof (cases "0x80000000 \<le> unat input")
      case above: True
      then have "unat input = 0x80000000 + ?d" by (simp add: line_distance_def)
      from position_upper [OF this True] above True limit show ?thesis by auto
    next
      case below: False
      then have d: "unat input + ?d = 0x80000000" by (simp add: line_distance_def)
      from below obtain p where p: "position_from_u32 input vertical = Ok (Some p)"
        "position_distance p = ?d" "proper_position p" "pos_direction p = (if vertical then South else West)"
        using position_lower [OF d _ True] by (auto simp: line_distance_def)
      with True limit below show ?thesis by simp
    qed
  qed
qed


text \<open>
  A latitude or longitude is a position exactly when it is within 90 or 180 degrees of its
  zero line, and the position's degrees, minutes, seconds and thousandths add up to the
  distance, in the direction of its sign. The arithmetic, with overflow checks, never panics.
\<close>

theorem position_from_u32_distance:
  "if line_distance input \<le> (if vertical then 90 else 180) * 60 * 60 * 1000
   then \<exists>p. position_from_u32 input vertical = Ok (Some p)
        \<and> position_distance p = line_distance input \<and> proper_position p
        \<and> pos_direction p = (if 0x80000000 \<le> unat input then if vertical then North else East
                              else if vertical then South else West)
   else position_from_u32 input vertical = Ok None"
  by (rule position_cases)


subsection \<open>Altitudes\<close>

lemma altitude_above:
  assumes "unat input = 10000000 + d"
  shows "altitude_from_u32 input = \<lparr>alt_metres = int (d div 100), alt_centimetres = int (d mod 100)\<rparr>"
proof -
  have "uint input = int (unat input)" by simp
  then have "uint input - 10000000 = int d" using assms by simp
  then show ?thesis
    by (simp add: altitude_from_u32_def Let_def signed_divide_int_def signed_modulo_int_def
        zdiv_int zmod_int sgn_if)
qed

lemma altitude_below:
  assumes "unat input + d = 10000000"
  shows "altitude_from_u32 input = \<lparr>alt_metres = - int (d div 100), alt_centimetres = - int (d mod 100)\<rparr>"
proof -
  have "uint input = int (unat input)" by simp
  then have "uint input - 10000000 = - int d" using assms by linarith
  then show ?thesis
    by (simp add: altitude_from_u32_def Let_def signed_divide_int_def signed_modulo_int_def
        zdiv_int zmod_int sgn_if)
qed

text \<open>
  An altitude at or above the reference level is displayed in metres with two decimals
  where it has any; one below it has the sign of the metres in front, and, where it has
  decimals, a second sign in front of those: half a metre below is displayed as \<open>0.-50m\<close>.
\<close>

theorem display_altitude_form:
  "display_altitude (altitude_from_u32 input) =
    (if 10000000 \<le> unat input then
       let d = unat input - 10000000 in
       dec (d div 100) @ (if d mod 100 = 0 then [] else ''.'' @ dec_padded 2 (d mod 100)) @ ''m''
     else
       let d = 10000000 - unat input in
       (if d div 100 = 0 then ''0'' else ''-'' @ dec (d div 100))
         @ (if d mod 100 = 0 then [] else ''.-'' @ dec (d mod 100)) @ ''m'')"
proof (cases "10000000 \<le> unat input")
  case True
  then have "unat input = 10000000 + (unat input - 10000000)" by simp
  from altitude_above [OF this] True show ?thesis
    by (simp add: display_altitude_def dec_int_def dec_int_padded_def Let_def nat_int)
next
  case False
  define d where "d = 10000000 - unat input"
  have "unat input + d = 10000000" "0 < d" using False unfolding d_def by simp_all
  have pad: "dec_padded (Suc 0) n = dec n" for n
    by (cases "dec n") (simp_all add: dec_padded_def)
  have zero: "dec 0 = ''0''"
    by (simp add: dec.simps digit_def char_of_def bit_numeral_rec bit_0)
  from altitude_below [OF \<open>unat input + d = 10000000\<close>] False \<open>0 < d\<close> show ?thesis
    unfolding d_def [symmetric] Let_def
    by (auto simp: display_altitude_def dec_int_def dec_int_padded_def pad zero)
qed


subsection \<open>The contract\<close>

lemma position_from_u32_total: "\<exists>pos. position_from_u32 input vertical = Ok pos"
  using position_cases [of input vertical] by (auto split: if_splits)

lemma wp_position [wp_rules]:
  "wp (lift_outcome (position_from_u32 input v)) Q buf p \<longleftrightarrow>
     (\<forall>pos. position_from_u32 input v = Ok pos \<longrightarrow> Q pos p)"
  using position_from_u32_total [of input v] by (auto simp: wp_def)

interpretation LOC: exact_reader LOC_read
proof
  show "wp (LOC_read len) (\<lambda>x q. q = p + unat len \<and> q \<le> length buf) buf p" for buf p len
    by (auto simp: LOC_read_def wp_rules)
  show "stable (LOC_read len)" for len
    unfolding LOC_read_def by (intro stable_rules)
qed

end
