(* ===== verification/Message.thy ===== *)
theory Message
  imports Flags Records_Fixed Records_Names Record_Nsec Record_Txt Record_Loc
begin

text \<open>
  Messages (\<open>dns/src/types.rs\<close>, \<open>record/mod.rs\<close>, \<open>wire.rs\<close>): the request that is written
  and the response that is read, section by section and record by record. Reading a
  message's sections is verified against the interface of an entry's reader, and that of a
  record against the interface in the theory \<open>Wire_Reader\<close>.
\<close>

subsection \<open>Types\<close>

datatype Record =
    R_A A | R_AAAA AAAA | R_CAA CAA | R_CNAME CNAME | R_DNSKEY DNSKEY | R_DS DS
  | R_EUI48 EUI48 | R_EUI64 EUI64 | R_HINFO HINFO | R_LOC LOC | R_MX MX | R_NAPTR NAPTR
  | R_NS NS | R_NSEC NSEC | R_OPENPGPKEY OPENPGPKEY | R_PTR PTR | R_RRSIG RRSIG
  | R_SSHFP SSHFP | R_SOA SOA | R_SRV SRV | R_TLSA TLSA | R_TXT TXT | R_URI URI
  | R_Other UnknownQtype "u8 list"

record Query =
  query_qname :: labels
  query_qclass :: QClass
  query_qtype :: RecordType

datatype Answer =
    Standard (std_qname: labels) (std_qclass: QClass) (std_ttl: u32) (std_record: Record)
  | Pseudo (pseudo_qname: labels) (pseudo_opt: OPT)

fun is_standard :: "Answer \<Rightarrow> bool" where
  "is_standard (Standard _ _ _ _) = True"
| "is_standard (Pseudo _ _) = False"

record Request =
  req_transaction_id :: u16
  req_flags :: Flags
  req_query :: Query
  req_additional :: "OPT option"

record Response =
  resp_transaction_id :: u16
  resp_flags :: Flags
  resp_queries :: "Query list"
  resp_answers :: "Answer list"
  resp_authorities :: "Answer list"
  resp_additionals :: "Answer list"


subsection \<open>Writing a request\<close>

definition request_to_bytes :: "Request \<Rightarrow> (IoError, u8 list) outcome" where
  "request_to_bytes r =
     (let bytes = be_bytes16 (req_transaction_id r) @ be_bytes16 (flags_to_u16 (req_flags r));
          additional_count = (if req_additional r \<noteq> None then 1 else 0);
          bytes = bytes @ concat (map be_bytes16 [1, 0, 0, additional_count])
      in bind_outcome (write_labels (query_qname (req_query r))) (\<lambda>name.
         let bytes = bytes @ name
               @ be_bytes16 (type_number (query_qtype (req_query r)))
               @ be_bytes16 (qclass_to_u16 (query_qclass (req_query r)))
         in case req_additional r of
              None \<Rightarrow> Ok bytes
            | Some opt \<Rightarrow>
                bind_outcome (OPT_to_bytes opt) (\<lambda>data.
                Ok (bytes @ [0] @ be_bytes16 OPT_RR_TYPE @ data))))"

definition additional_record :: OPT where
  "additional_record =
     \<lparr>opt_udp_payload_size = 512, opt_higher_bits = 0, opt_edns0_version = 0, opt_flags = 0,
      opt_data = []\<rparr>"


subsection \<open>Reading a record\<close>

definition map_reader :: "('a \<Rightarrow> 'b) \<Rightarrow> 'a reader \<Rightarrow> 'b reader" where
  "map_reader f m = bind m (\<lambda>x. ret (f x))"

fun record_from_bytes :: "RecordType \<Rightarrow> u16 \<Rightarrow> Record reader" where
  "record_from_bytes T_A len = map_reader R_A (A_read len)"
| "record_from_bytes T_AAAA len = map_reader R_AAAA (AAAA_read len)"
| "record_from_bytes T_CAA len = map_reader R_CAA (CAA_read len)"
| "record_from_bytes T_CNAME len = map_reader R_CNAME (CNAME_read len)"
| "record_from_bytes T_DNSKEY len = map_reader R_DNSKEY (DNSKEY_read len)"
| "record_from_bytes T_DS len = map_reader R_DS (DS_read len)"
| "record_from_bytes T_EUI48 len = map_reader R_EUI48 (EUI48_read len)"
| "record_from_bytes T_EUI64 len = map_reader R_EUI64 (EUI64_read len)"
| "record_from_bytes T_HINFO len = map_reader R_HINFO (HINFO_read len)"
| "record_from_bytes T_LOC len = map_reader R_LOC (LOC_read len)"
| "record_from_bytes T_MX len = map_reader R_MX (MX_read len)"
| "record_from_bytes T_NAPTR len = map_reader R_NAPTR (NAPTR_read len)"
| "record_from_bytes T_NS len = map_reader R_NS (NS_read len)"
| "record_from_bytes T_NSEC len = map_reader R_NSEC (NSEC_read len)"
| "record_from_bytes T_OPENPGPKEY len = map_reader R_OPENPGPKEY (OPENPGPKEY_read len)"
| "record_from_bytes T_PTR len = map_reader R_PTR (PTR_read len)"
| "record_from_bytes T_RRSIG len = map_reader R_RRSIG (RRSIG_read len)"
| "record_from_bytes T_SSHFP len = map_reader R_SSHFP (SSHFP_read len)"
| "record_from_bytes T_SOA len = map_reader R_SOA (SOA_read len)"
| "record_from_bytes T_SRV len = map_reader R_SRV (SRV_read len)"
| "record_from_bytes T_TLSA len = map_reader R_TLSA (TLSA_read len)"
| "record_from_bytes T_TXT len = map_reader R_TXT (TXT_read len)"
| "record_from_bytes T_URI len = map_reader R_URI (URI_read len)"
| "record_from_bytes (T_Other tn) len =
     bind (read_bytes len) (\<lambda>bytes. ret (R_Other tn bytes))"


subsection \<open>Reading a response\<close>

definition query_from_bytes :: "labels \<Rightarrow> Query reader" where
  "query_from_bytes qname =
     bind read_u16 (\<lambda>qtype_number.
     let qtype = record_type_from qtype_number in
     bind read_u16 (\<lambda>qclass_number.
     ret \<lparr>query_qname = qname, query_qclass = qclass_from_u16 qclass_number, query_qtype = qtype\<rparr>))"

definition answer_from_bytes :: "labels \<Rightarrow> Answer reader" where
  "answer_from_bytes qname =
     bind read_u16 (\<lambda>qtype_number.
     if qtype_number = OPT_RR_TYPE then
       bind OPT_read (\<lambda>opt. ret (Pseudo qname opt))
     else
       let qtype = record_type_from qtype_number in
       bind read_u16 (\<lambda>qclass_number.
       let qclass = qclass_from_u16 qclass_number in
       bind read_u32 (\<lambda>ttl.
       bind read_u16 (\<lambda>record_length.
       bind (record_from_bytes qtype record_length) (\<lambda>rec.
       ret (Standard qname qclass ttl rec))))))"

fun read_entries :: "(labels \<Rightarrow> 'a reader) \<Rightarrow> nat \<Rightarrow> 'a list \<Rightarrow> 'a list reader" where
  "read_entries read_entry 0 entries = ret entries"
| "read_entries read_entry (Suc k) entries =
     bind read_labels (\<lambda>(qname, _).
     bind (read_entry qname) (\<lambda>entry.
     read_entries read_entry k (entries @ [entry])))"

definition read_section :: "u16 \<Rightarrow> (labels \<Rightarrow> 'a reader) \<Rightarrow> 'a list reader" where
  "read_section count read_entry = read_entries read_entry (unat count) []"

definition read_counts :: "(u16 \<times> u16 \<times> u16 \<times> u16) reader" where
  "read_counts =
     bind read_u16 (\<lambda>a. bind read_u16 (\<lambda>b. bind read_u16 (\<lambda>c. bind read_u16 (\<lambda>d.
     ret (a, b, c, d)))))"

definition find_map :: "('a \<Rightarrow> 'b option) \<Rightarrow> 'a list \<Rightarrow> 'b option" where
  "find_map f xs = (case List.map_filter f xs of [] \<Rightarrow> None | y # _ \<Rightarrow> Some y)"

definition extended_rcode :: "u16 \<Rightarrow> Answer list \<Rightarrow> u16 option" where
  "extended_rcode flag_bits additionals =
     find_map (\<lambda>answer. case answer of
         Pseudo _ opt \<Rightarrow> Some (push_bit 4 (ucast (opt_higher_bits opt)) OR (flag_bits AND 0xF))
       | Standard _ _ _ _ \<Rightarrow> None) additionals"

definition read_response :: "Response reader" where
  "read_response =
     bind read_u16 (\<lambda>transaction_id.
     bind read_u16 (\<lambda>flag_bits.
     let flags = flags_from_u16 flag_bits in
     bind read_counts (\<lambda>(query_count, answer_count, authority_count, additional_count).
     bind (read_section query_count query_from_bytes) (\<lambda>queries.
     bind (read_section answer_count answer_from_bytes) (\<lambda>answers.
     bind (read_section authority_count answer_from_bytes) (\<lambda>authorities.
     bind (read_section additional_count answer_from_bytes) (\<lambda>additionals.
     let flags = (case extended_rcode flag_bits additionals of
                    Some rcode \<Rightarrow> flags\<lparr>flag_error_code := error_code_from_bits rcode\<rparr>
                  | None \<Rightarrow> flags) in
     ret \<lparr>resp_transaction_id = transaction_id, resp_flags = flags, resp_queries = queries,
          resp_answers = answers, resp_authorities = authorities,
          resp_additionals = additionals\<rparr>)))))))"

text \<open>\<open>Response::from_bytes\<close>: the cursor starts at the first byte, and what it leaves is ignored.\<close>

definition response_from_bytes :: "u8 list \<Rightarrow> (WireError, Response) outcome" where
  "response_from_bytes bytes =
     bind_outcome (read_response bytes 0) (\<lambda>(response, _). Ok response)"


subsection \<open>Records keep their contract\<close>

lemmas records_within =
    A.wp_map AAAA.wp_map CAA.wp_map CNAME.wp_map DNSKEY.wp_map DS.wp_map EUI48.wp_map
    EUI64.wp_map HINFO.wp_map LOC.wp_map MX.wp_map NAPTR.wp_map NS.wp_map NSEC.wp_map
    OPENPGPKEY.wp_map PTR.wp_map RRSIG.wp_map SSHFP.wp_map SOA.wp_map SRV.wp_map TLSA.wp_map
    TXT.wp_map URI.wp_map

lemmas records_stable =
    A.stable_map AAAA.stable_map CAA.stable_map CNAME.stable_map DNSKEY.stable_map
    DS.stable_map EUI48.stable_map EUI64.stable_map HINFO.stable_map LOC.stable_map
    MX.stable_map NAPTR.stable_map NS.stable_map NSEC.stable_map OPENPGPKEY.stable_map
    PTR.stable_map RRSIG.stable_map SSHFP.stable_map SOA.stable_map SRV.stable_map
    TLSA.stable_map TXT.stable_map URI.stable_map

lemmas records_consume =
    A.consumes_map AAAA.consumes_map CNAME.consumes_map DNSKEY.consumes_map DS.consumes_map
    EUI48.consumes_map EUI64.consumes_map HINFO.consumes_map LOC.consumes_map MX.consumes_map
    NAPTR.consumes_map NS.consumes_map NSEC.consumes_map OPENPGPKEY.consumes_map
    PTR.consumes_map RRSIG.consumes_map SSHFP.consumes_map SOA.consumes_map SRV.consumes_map
    TLSA.consumes_map TXT.consumes_map URI.consumes_map

lemma wp_record_from_bytes:
  "in_reach buf p \<Longrightarrow> p \<le> length buf \<Longrightarrow>
     wp (record_from_bytes rt len) (\<lambda>_ q. p \<le> q \<and> q \<le> length buf) buf p"
  by (cases rt) (auto simp: map_reader_def wp_rules records_within [unfolded wp_rules])

lemma stable_record_from_bytes [stable_rules]: "stable (record_from_bytes rt len)"
proof (cases rt)
  case (T_Other u)
  then show ?thesis by (simp) (intro stable_rules)
qed (simp_all add: map_reader_def records_stable)

lemma record_from_bytes_consumes:
  assumes "in_reach buf p" and "p \<le> length buf" and "record_from_bytes rt len buf p = Ok (rec, q)"
  shows "q = p + (case rec of R_CAA caa \<Rightarrow> max (unat len) (2 + length (caa_tag caa)) | _ \<Rightarrow> unat len)"
proof -
  have caa: "wp (CAA_read len) (\<lambda>x q. q = p + max (unat len) (2 + length (caa_tag x))) buf p"
    by (auto simp: CAA_read_def Let_def wp_rules unat_saturating_sub)
  show ?thesis
  proof (cases "rt = T_CAA")
    case True
    with assms(3) obtain caa where "rec = R_CAA caa" "CAA_read len buf p = Ok (caa, q)"
      by (auto simp: map_reader_def bind_def ret_def split: outcome.splits prod.splits)
    with wp_OkD [OF caa] show ?thesis by simp
  next
    case False
    from False assms(3) have "\<forall>caa. rec \<noteq> R_CAA caa"
      by (cases rt) (auto simp: map_reader_def bind_def ret_def split: outcome.splits prod.splits)
    moreover have "q = p + unat len"
    proof (cases rt)
      case (T_Other u)
      with assms(3) show ?thesis
        by (auto simp: bind_def ret_def read_bytes_def read_exact_def split: outcome.splits if_splits)
    qed (use False assms(3) in
        \<open>simp_all add: map_reader_def records_consume [OF assms(1,2)]\<close>)
    ultimately show ?thesis by (cases rec) auto
  qed
qed

text \<open>
  C15: Every record is read from exactly as many bytes as the packet states, so that the record
  after it is read from where it begins; only a CAA record can be read from more, where its tag
  does not fit.
\<close>

theorem record_from_bytes_exact:
  assumes "in_reach buf p" and "p \<le> length buf" and "record_from_bytes rt len buf p = Ok (rec, q)"
  shows "q = p + (case rec of R_CAA caa \<Rightarrow> max (unat len) (2 + length (caa_tag caa)) | _ \<Rightarrow> unat len)"
  using assms by (rule record_from_bytes_consumes)

lemma record_from_bytes_exact_witness:
  "\<exists>rec. record_from_bytes T_A 4 [192, 0, 2, 1] 0 = Ok (rec, 4) \<and> (4 :: nat) = 0 + unat (4 :: u16)"
proof -
  have read: "record_from_bytes T_A 4 [192, 0, 2, 1] 0 = Ok (R_A \<lparr>a_address = [192, 0, 2, 1]\<rparr>, 4)"
    by (simp add: map_reader_def A_read_def bind_def ret_def read_exact_def)
  with record_from_bytes_exact [OF _ _ read] show ?thesis
    by (simp add: in_reach_def)
qed


subsection \<open>Sections\<close>

text \<open>
  Where a section's entry starts: after the header and the entry's name, in a message short
  enough for a TXT record's count (see the theory \<open>Record_Txt\<close>).
\<close>

definition max_safe_message :: nat where
  "max_safe_message = 65303"

definition in_message :: "u8 list \<Rightarrow> nat \<Rightarrow> bool" where
  "in_message buf p \<longleftrightarrow> length buf \<le> max_safe_message \<and> 12 \<le> p \<and> p \<le> length buf"

text \<open>The interface of \<open>read_entry\<close>, the parameter of \<open>read_section\<close>.\<close>

locale entry_reader =
  fixes read_entry :: "labels \<Rightarrow> 'a reader"
  assumes entry_within: "in_message buf p \<Longrightarrow> 12 < p \<Longrightarrow>
      wp (read_entry qname) (\<lambda>_ q. p \<le> q \<and> q \<le> length buf) buf p"
    and entry_stable: "stable (read_entry qname)"
begin

lemma wp_read_entries:
  "in_message buf p \<Longrightarrow>
     wp (read_entries read_entry k entries)
       (\<lambda>xs q. length xs = length entries + k \<and> p \<le> q \<and> in_message buf q) buf p"
proof (induction k arbitrary: entries p)
  case 0
  then show ?case by (simp add: wp_rules)
next
  case (Suc k)
  have "wp (read_entries read_entry k (entries @ [x]))
      (\<lambda>xs q. length xs = length entries + Suc k \<and> p \<le> q \<and> in_message buf q) buf q"
    if "p \<le> q" "q \<le> length buf" for x q
  proof -
    have "in_message buf q" using Suc.prems that by (simp add: in_message_def)
    from Suc.IH [OF this] show ?thesis by (rule wp_mono) (use that in auto)
  qed
  note rest = this
  have "wp (read_entry ls) (\<lambda>x q. wp (read_entries read_entry k (entries @ [x]))
      (\<lambda>xs q. length xs = length entries + Suc k \<and> p \<le> q \<and> in_message buf q) buf q) buf r"
    if "p < r" "r \<le> length buf" for ls r
    by (rule wp_mono [OF entry_within]) (use Suc.prems that rest in \<open>auto simp: in_message_def\<close>)
  then show ?case
    using Suc.prems unfolding read_entries.simps wp_bind
    by (intro wp_read_labels) (auto simp: in_message_def max_safe_message_def wp_bind)
qed

lemma wp_section:
  "in_message buf p \<Longrightarrow>
     wp (read_section count read_entry)
       (\<lambda>xs q. length xs = unat count \<and> p \<le> q \<and> in_message buf q) buf p"
  unfolding read_section_def using wp_read_entries [of buf p "unat count" "[]"] by simp

lemma stable_entries: "stable (read_entries read_entry k entries)"
proof (induction k arbitrary: entries)
  case 0
  show ?case by (simp add: stable_rules)
next
  case (Suc k)
  then show ?case by (simp) (intro stable_rules entry_stable)
qed

lemma stable_section: "stable (read_section count read_entry)"
  unfolding read_section_def by (rule stable_entries)

end

interpretation query: entry_reader query_from_bytes
proof
  show "wp (query_from_bytes qname) (\<lambda>_ q. p \<le> q \<and> q \<le> length buf) buf p" for qname buf p
    by (auto simp: query_from_bytes_def Let_def wp_rules)
  show "stable (query_from_bytes qname)" for qname
    unfolding query_from_bytes_def Let_def by (intro stable_rules)
qed

interpretation answer: entry_reader answer_from_bytes
proof
  show "wp (answer_from_bytes qname) (\<lambda>_ q. p \<le> q \<and> q \<le> length buf) buf p"
    if "in_message buf p" "12 < p" for qname buf p
  proof -
    have opt: "wp (bind OPT_read (\<lambda>opt. ret (Pseudo qname opt))) (\<lambda>_ q. p \<le> q \<and> q \<le> length buf) buf (p + 2)"
      if "p + 2 \<le> length buf"
      using that by (auto simp: wp_rules intro!: wp_OPT_read)
    have rec: "wp (bind (record_from_bytes rt n) (\<lambda>rec. ret (f rec)))
        (\<lambda>_ q. p \<le> q \<and> q \<le> length buf) buf (10 + p)"
      if "10 + p \<le> length buf" for rt n and f :: "Record \<Rightarrow> Answer"
      unfolding wp_bind wp_ret
      by (rule wp_mono [OF wp_record_from_bytes])
        (use that \<open>in_message buf p\<close> \<open>12 < p\<close> in
          \<open>auto simp: in_reach_def in_message_def max_safe_message_def\<close>)
    show ?thesis
      unfolding answer_from_bytes_def Let_def
      using opt rec by (auto simp: wp_bind wp_read_u16 wp_read_u32 wp_if wp_ret)
  qed
  show "stable (answer_from_bytes qname)" for qname
    unfolding answer_from_bytes_def Let_def by (intro stable_rules)
qed


subsection \<open>Responses\<close>

definition header_field :: "u8 list \<Rightarrow> nat \<Rightarrow> u16" where
  "header_field bytes k = be16 (bytes ! (2 * k)) (bytes ! (2 * k + 1))"

text \<open>What a response has of its message's header and of its own additional records.\<close>

definition response_header :: "u8 list \<Rightarrow> Response \<Rightarrow> bool" where
  "response_header bytes r \<longleftrightarrow>
     resp_transaction_id r = header_field bytes 0 \<and>
     length (resp_queries r) = unat (header_field bytes 2) \<and>
     length (resp_answers r) = unat (header_field bytes 3) \<and>
     length (resp_authorities r) = unat (header_field bytes 4) \<and>
     length (resp_additionals r) = unat (header_field bytes 5)"

text \<open>The response code: four bits of the header, under the eight of an OPT record if there is one.\<close>

definition full_rcode :: "u16 \<Rightarrow> Answer list \<Rightarrow> nat" where
  "full_rcode flag_bits additionals =
     (case filter (\<lambda>a. \<not> is_standard a) additionals of
        [] \<Rightarrow> unat flag_bits mod 16
      | a # _ \<Rightarrow> unat (opt_higher_bits (pseudo_opt a)) * 16 + unat flag_bits mod 16)"

definition response_flags :: "u8 list \<Rightarrow> Response \<Rightarrow> bool" where
  "response_flags bytes r \<longleftrightarrow>
     resp_flags r = (flags_from_u16 (header_field bytes 1))
       \<lparr>flag_error_code :=
          error_code_from_bits (word_of_nat (full_rcode (header_field bytes 1) (resp_additionals r)))\<rparr>"

lemma low_nibble_take_bit: "w AND 0xF = take_bit 4 (w :: u16)"
  by (simp add: take_bit_eq_mask mask_eq_exp_minus_1)

lemma low_nibble: "w AND 0xF = (word_of_nat (unat (w :: u16) mod 16) :: u16)"
proof -
  have "unat (w AND 0xF) = unat w mod 16"
    by (simp add: low_nibble_take_bit take_bit_eq_mod unat_mod_distrib)
  moreover have "w AND 0xF = word_of_nat (unat (w AND 0xF))" by simp
  ultimately show ?thesis by (simp only:)
qed

lemma rcode_bits:
  "push_bit 4 (ucast h) OR (w AND 0xF) = (word_of_nat (unat (h :: u8) * 16 + unat (w :: u16) mod 16) :: u16)"
proof -
  have "push_bit 4 (ucast h) OR (w AND 0xF) = push_bit 4 (ucast h) + (w AND 0xF)"
    unfolding low_nibble_take_bit
    by (rule disjunctive_add_eq_or [symmetric]) (auto intro!: bit_word_eqI simp: bit_simps)
  also have "\<dots> = word_of_nat (unat h * 16) + word_of_nat (unat w mod 16)"
    by (simp only: low_nibble) (simp add: push_bit_eq_mult mult.commute)
  finally show ?thesis by simp
qed

lemma extended_rcode_cases:
  "(case extended_rcode bits additionals of
      Some rcode \<Rightarrow> (flags_from_u16 bits)\<lparr>flag_error_code := error_code_from_bits rcode\<rparr>
    | None \<Rightarrow> flags_from_u16 bits)
   = (flags_from_u16 bits)
       \<lparr>flag_error_code := error_code_from_bits (word_of_nat (full_rcode bits additionals))\<rparr>"
proof (induction additionals)
  case Nil
  then show ?case
    by (simp add: extended_rcode_def find_map_def full_rcode_def flags_from_u16_def low_nibble)
next
  case (Cons a additionals)
  then show ?case
    by (cases a) (simp_all add: extended_rcode_def find_map_def full_rcode_def rcode_bits
        List.map_filter_simps)
qed

lemma wp_read_response:
  assumes "length bytes \<le> max_safe_message"
  shows "wp read_response (\<lambda>r _. 12 \<le> length bytes \<and> response_header bytes r \<and> response_flags bytes r)
    bytes 0"
proof -
  have sections: "wp (bind (read_section a query_from_bytes) (\<lambda>qs.
      bind (read_section b answer_from_bytes) (\<lambda>as.
      bind (read_section c answer_from_bytes) (\<lambda>us.
      bind (read_section d answer_from_bytes) (\<lambda>xs. ret (f qs as us xs)))))) Q bytes p"
    if "p = 12" "12 \<le> length bytes"
      and "\<And>qs as us xs q. length qs = unat a \<Longrightarrow> length as = unat b \<Longrightarrow> length us = unat c \<Longrightarrow>
        length xs = unat d \<Longrightarrow> Q (f qs as us xs) q"
    for a b c d and f :: "Query list \<Rightarrow> Answer list \<Rightarrow> Answer list \<Rightarrow> Answer list \<Rightarrow> Response" and Q p
  proof -
    have start: "in_message bytes p" using assms that(1,2) by (simp add: in_message_def)
    show ?thesis
      unfolding wp_bind wp_ret
      by (rule wp_mono [OF query.wp_section [OF start]],
          (rule wp_mono [OF answer.wp_section], blast)+) (use that(3) in blast)
  qed
  show ?thesis
    unfolding read_response_def read_counts_def Let_def extended_rcode_cases
    by (simp only: wp_bind wp_read_u16 wp_ret prod.case, intro impI)
      (rule sections [unfolded wp_bind wp_ret],
        simp_all add: response_header_def response_flags_def header_field_def eval_nat_numeral)
qed

text \<open>
  C1: No response makes the parser panic, whatever its bytes, as long as it is no longer than
  65303 bytes: every read stays in the packet, every pointer is followed to an end, and no
  length overflows. (Above that, a TXT record can overflow its count.)
\<close>

theorem from_bytes_no_panic:
  assumes "length bytes \<le> max_safe_message"
  shows "response_from_bytes bytes \<noteq> Panic"
  using wp_no_panic [OF wp_read_response [OF assms]]
  by (auto simp: response_from_bytes_def bind_outcome_Panic_iff)

lemma from_bytes_no_panic_witness: "response_from_bytes [0xC0, 0x0C, 0xFF] \<noteq> Panic"
  by (rule from_bytes_no_panic) (simp add: max_safe_message_def)

text \<open>
  A response that parses has the transaction ID of its header, and exactly as many queries,
  answers, authorities and additional records as the header counts.
\<close>

theorem from_bytes_header:
  assumes "length bytes \<le> max_safe_message" and "response_from_bytes bytes = Ok r"
  shows "12 \<le> length bytes \<and> response_header bytes r"
proof -
  from assms(2) obtain q where "read_response bytes 0 = Ok (r, q)"
    by (auto simp: response_from_bytes_def bind_outcome_Ok_iff)
  with wp_OkD [OF wp_read_response [OF assms(1)]] show ?thesis by blast
qed

lemma from_bytes_header_witness:
  "\<exists>r. response_from_bytes [0xBE, 0xEF, 0x80, 0, 0, 0, 0, 0, 0, 0, 0, 0] = Ok r
    \<and> resp_transaction_id r = 0xBEEF"
proof -
  let ?bytes = "[0xBE, 0xEF, 0x80, 0, 0, 0, 0, 0, 0, 0, 0, 0] :: u8 list"
  obtain r where r: "response_from_bytes ?bytes = Ok r"
    by (simp add: response_from_bytes_def read_response_def read_counts_def bind_def ret_def read_u16_def
        read_exact_def read_section_def be16_def Let_def)
  with from_bytes_header [OF _ r] show ?thesis
    by (simp add: max_safe_message_def response_header_def header_field_def be16_def)
qed

lemma stable_read_response: "stable read_response"
  unfolding read_response_def read_counts_def Let_def
  by (intro stable_rules query.stable_section answer.stable_section)

text \<open>Bytes after the end of a response are ignored: they change nothing about what it says.\<close>

theorem from_bytes_trailing:
  assumes "response_from_bytes bytes = Ok r" and "length (bytes @ extra) < 65536"
  shows "response_from_bytes (bytes @ extra) = Ok r"
proof -
  from assms(1) obtain q where "read_response bytes 0 = Ok (r, q)"
    by (auto simp: response_from_bytes_def bind_outcome_Ok_iff)
  from stableD [OF stable_read_response assms(2) this] show ?thesis
    by (simp add: response_from_bytes_def)
qed

lemma from_bytes_trailing_witness:
  "\<exists>r. response_from_bytes ([0xBE, 0xEF, 0x80, 0, 0, 0, 0, 0, 0, 0, 0, 0] @ [1, 2, 3]) = Ok r"
proof -
  let ?bytes = "[0xBE, 0xEF, 0x80, 0, 0, 0, 0, 0, 0, 0, 0, 0] :: u8 list"
  obtain r where "response_from_bytes ?bytes = Ok r"
    by (simp add: response_from_bytes_def read_response_def read_counts_def bind_def ret_def read_u16_def
        read_exact_def read_section_def be16_def Let_def)
  from from_bytes_trailing [OF this, of "[1, 2, 3]"] show ?thesis by simp
qed

text \<open>
  The flags of a response are those of its header, and its response code is the header's
  four bits with the OPT record's eight above them, when there is an OPT record.
\<close>

theorem from_bytes_flags:
  assumes "length bytes \<le> max_safe_message" and "response_from_bytes bytes = Ok r"
  shows "response_flags bytes r"
proof -
  from assms(2) obtain q where "read_response bytes 0 = Ok (r, q)"
    by (auto simp: response_from_bytes_def bind_outcome_Ok_iff)
  with wp_OkD [OF wp_read_response [OF assms(1)]] show ?thesis by blast
qed

text \<open>A response with no records but an OPT that makes the code \<open>BADVERS\<close>, 16.\<close>

lemma from_bytes_flags_witness:
  "\<exists>r. response_from_bytes [0, 0, 0x80, 0, 0, 0, 0, 0, 0, 0, 0, 1, 0, 0, 41, 4, 208, 1, 0, 0, 0, 0, 0] = Ok r
    \<and> flag_error_code (resp_flags r) = Some BadVersion"
proof -
  let ?bytes = "[0, 0, 0x80, 0, 0, 0, 0, 0, 0, 0, 0, 1, 0, 0, 41, 4, 208, 1, 0, 0, 0, 0, 0] :: u8 list"
  obtain r where r: "response_from_bytes ?bytes = Ok r"
    and xs: "resp_additionals r = [Pseudo root \<lparr>opt_udp_payload_size = 1232, opt_higher_bits = 1,
      opt_edns0_version = 0, opt_flags = 0, opt_data = []\<rparr>]"
    by (simp add: response_from_bytes_def read_response_def read_counts_def bind_def ret_def read_u16_def
        read_u8_def read_exact_def read_section_def be16_def Let_def answer_from_bytes_def
        read_labels_def read_string_step OPT_RR_TYPE_def OPT_read_def)
  with from_bytes_flags [OF _ r] show ?thesis
    by (simp add: max_safe_message_def response_flags_def full_rcode_def header_field_def be16_def
        error_code_from_bits_def)
qed


subsection \<open>A response that aborts the program\<close>

text \<open>
  A response with one answer: a TXT record for the root that states a length of 65535 and
  goes on with 255 strings of 255 bytes and one more length byte.
\<close>

definition overflow_packet :: "u8 list" where
  "overflow_packet =
     [0, 0, 0x80, 0, 0, 0, 0, 1, 0, 0, 0, 0,
      0, 0, 16, 0, 1, 0, 0, 0, 0, 0xFF, 0xFF] @ full_strings @ [255]"

text \<open>
  C2: The bound on safe messages is exact: there is a response of 65304 bytes, which
  fits a TCP or HTTPS reply, on which the parser's count of a TXT record's length overflows,
  and the program aborts instead of reporting a malformed packet.
\<close>

theorem from_bytes_overflow:
  "length overflow_packet = max_safe_message + 1 \<and> response_from_bytes overflow_packet = Panic"
proof
  show "length overflow_packet = max_safe_message + 1"
    by (simp add: overflow_packet_def length_full_strings max_safe_message_def)
  let ?pre = "[0, 0, 0x80, 0, 0, 0, 0, 1, 0, 0, 0, 0, 0, 0, 16, 0, 1, 0, 0, 0, 0, 0xFF, 0xFF] :: u8 list"
  have "(65280 :: nat) < unat (65535 :: u16)" by simp
  moreover have "length ?pre = 23" by simp
  ultimately have overflow: "TXT_read 65535 (?pre @ full_strings @ [255]) 23 = Panic"
    using TXT_overflow [of 65535 ?pre "[]"] by (simp only:)
  have type_16: "record_type_from 16 = T_TXT"
    by (simp add: record_type_from_def known_types_def)
  have "read_string_recursive root [] 0 (?pre @ full_strings @ [255]) 12 = Ok ((root, 1), 13)"
    by (subst read_string_step) (simp_all add: length_full_strings)
  with overflow type_16 show "response_from_bytes overflow_packet = Panic"
    by (simp add: overflow_packet_def response_from_bytes_def read_response_def read_counts_def bind_def
        ret_def read_u16_def read_u32_def read_exact_def read_section_def be16_def be32_def Let_def
        answer_from_bytes_def read_labels_def OPT_RR_TYPE_def map_reader_def
        del: add_2_eq_Suc add_2_eq_Suc')
qed

end
