(* ===== verification/Validate.thy ===== *)
theory Validate
  imports Message
begin

text \<open>
  Checking that a response answers its request (\<open>dns/src/validate.rs\<close>): the transaction ID,
  the response bit and the question, with the name compared without regard to ASCII case.
\<close>

datatype Mismatch =
    Mismatch_TransactionId u16 u16                \<comment> \<open>expected, received\<close>
  | NotAResponse
  | Mismatch_Question string "string option"      \<comment> \<open>expected, received\<close>

definition same_question :: "Query \<Rightarrow> Query \<Rightarrow> bool" where
  "same_question asked repeated =
     (labels_eq_ignore_ascii_case (query_qname asked) (query_qname repeated)
      \<and> type_number (query_qtype asked) = type_number (query_qtype repeated)
      \<and> query_qclass asked = query_qclass repeated)"

fun display_qclass :: "QClass \<Rightarrow> string" where
  "display_qclass IN = ''IN''"
| "display_qclass CH = ''CH''"
| "display_qclass HS = ''HS''"
| "display_qclass (QC_Other n) = dec (unat n)"

definition describe :: "Query \<Rightarrow> string" where
  "describe query =
     (let number = type_number (query_qtype query);
          qtype = (case record_type_name number of None \<Rightarrow> dec (unat number) | Some name \<Rightarrow> name)
      in display_labels (query_qname query) @ '' '' @ qtype @ '' '' @ display_qclass (query_qclass query))"

definition check_response :: "Request \<Rightarrow> Response \<Rightarrow> (Mismatch, unit) outcome" where
  "check_response request response =
     (if resp_transaction_id response \<noteq> req_transaction_id request then
        Err (Mismatch_TransactionId (req_transaction_id request) (resp_transaction_id response))
      else if \<not> flag_response (resp_flags response) then Err NotAResponse
      else
        case resp_queries response of
          query # _ \<Rightarrow>
            if same_question (req_query request) query then Ok ()
            else Err (Mismatch_Question (describe (req_query request)) (Some (describe query)))
        | [] \<Rightarrow>
            if flag_error_code (resp_flags response) \<noteq> None then Ok ()
            else Err (Mismatch_Question (describe (req_query request)) None))"

text \<open>The format \<open>{:#06x}\<close>: \<open>0x\<close> and four hexadecimal digits.\<close>

definition hex_word :: "u16 \<Rightarrow> string" where
  "hex_word w = ''0x'' @ hex (be_bytes16 w)"

fun display_mismatch :: "Mismatch \<Rightarrow> string" where
  "display_mismatch (Mismatch_TransactionId expected received) =
     ''Response ID '' @ hex_word received @ '' does not match request ID '' @ hex_word expected"
| "display_mismatch NotAResponse = ''Received a query, not a response''"
| "display_mismatch (Mismatch_Question expected (Some received)) =
     ''Response is for '' @ [CHR 0x27] @ received @ [CHR 0x27] @ '', expected '' @ [CHR 0x27] @ expected @ [CHR 0x27]"
| "display_mismatch (Mismatch_Question expected None) =
     ''Response has no question, expected '' @ [CHR 0x27] @ expected @ [CHR 0x27]"


subsection \<open>What is accepted\<close>

text \<open>The specification: which responses answer a request.\<close>

definition answers_request :: "Request \<Rightarrow> Response \<Rightarrow> bool" where
  "answers_request request response \<longleftrightarrow>
     resp_transaction_id response = req_transaction_id request
     \<and> flag_response (resp_flags response)
     \<and> (case resp_queries response of
          [] \<Rightarrow> flag_error_code (resp_flags response) \<noteq> None
        | query # _ \<Rightarrow>
            map (map ascii_lower) (segments (query_qname query))
              = map (map ascii_lower) (segments (query_qname (req_query request)))
            \<and> type_number (query_qtype query) = type_number (query_qtype (req_query request))
            \<and> query_qclass query = query_qclass (req_query request))"

lemma same_question_iff:
  "same_question a b \<longleftrightarrow>
     map (map ascii_lower) (segments (query_qname b)) = map (map ascii_lower) (segments (query_qname a))
     \<and> type_number (query_qtype b) = type_number (query_qtype a) \<and> query_qclass b = query_qclass a"
  by (auto simp: same_question_def labels_eq_iff)

lemma check_response_Ok_iff: "check_response request response = Ok () \<longleftrightarrow> answers_request request response"
  by (auto simp: check_response_def answers_request_def same_question_iff split: list.split if_splits)

text \<open>
  C5: A response is accepted exactly when it has the request's transaction ID, is marked as a
  response, and repeats the request's question first, its name in any case; or has no question
  at all, and an error code. Anything else is rejected, and nothing panics.
\<close>

theorem check_response_spec:
  "if answers_request request response then check_response request response = Ok ()
   else \<exists>mismatch. check_response request response = Err mismatch"
proof (cases "check_response request response")
  case Panic
  then show ?thesis by (auto simp: check_response_def split: if_splits list.splits)
qed (use check_response_Ok_iff [of request response] in auto)

text \<open>
  A message that was sent for another question is never taken for the answer: when a
  response with a question in it is accepted for two requests, they ask for the same type,
  class and name, up to case, under the same ID.
\<close>

theorem check_response_discriminates:
  assumes "check_response r1 response = Ok ()" and "check_response r2 response = Ok ()"
    and "resp_queries response \<noteq> []"
  shows "req_transaction_id r1 = req_transaction_id r2 \<and> same_question (req_query r1) (req_query r2)"
  using assms unfolding check_response_Ok_iff answers_request_def same_question_iff
  by (auto split: list.splits)

lemma check_response_discriminates_witness:
  "same_question \<lparr>query_qname = \<lparr>segments = [[0x61]]\<rparr>, query_qclass = IN, query_qtype = T_A\<rparr>
     \<lparr>query_qname = \<lparr>segments = [[0x41]]\<rparr>, query_qclass = IN, query_qtype = T_A\<rparr>"
proof -
  let ?q = "\<lparr>query_qname = \<lparr>segments = [[0x61]]\<rparr>, query_qclass = IN, query_qtype = T_A\<rparr>"
  let ?p = "\<lparr>query_qname = \<lparr>segments = [[0x41]]\<rparr>, query_qclass = IN, query_qtype = T_A\<rparr>"
  let ?resp = "\<lparr>resp_transaction_id = 7, resp_flags = flags_standard_response, resp_queries = [?q],
    resp_answers = [], resp_authorities = [], resp_additionals = []\<rparr>"
  let ?r = "\<lambda>q. \<lparr>req_transaction_id = 7, req_flags = flags_query, req_query = q, req_additional = None\<rparr>"
  have flag: "flag_response flags_standard_response"
    by (simp add: flags_standard_response_def flags_from_u16_def bit_numeral_rec)
  have "check_response (?r ?q) ?resp = Ok ()" "check_response (?r ?p) ?resp = Ok ()"
    unfolding check_response_Ok_iff by (simp_all add: answers_request_def flag ascii_lower_def word_le_nat_alt)
  from check_response_discriminates [OF this] show ?thesis by simp
qed

end
