(* ===== verification/Ip_Addr.thy ===== *)
theory Ip_Addr
  imports Rust_Str
begin

text \<open>
  Numbers and IP addresses in text, as Rust's standard library parses them: \<open>str::parse\<close> for the
  unsigned integers, \<open>Ipv4Addr\<close>, \<open>Ipv6Addr\<close> and \<open>IpAddr\<close>. dog tells addresses from host names, and
  numbers from anything else, by whether these succeed.
\<close>

subsection \<open>Numbers\<close>

text \<open>An unsigned integer below a bound: digits, after a plus sign if there is one.\<close>

definition parse_unsigned :: "nat \<Rightarrow> string \<Rightarrow> nat option" where
  "parse_unsigned bound s =
     (let digits = (case s of c # d # rest \<Rightarrow> if c = CHR ''+'' then d # rest else s | _ \<Rightarrow> s) in
      if digits \<noteq> [] \<and> list_all is_ascii_digit digits \<and> digits_value digits < bound
      then Some (digits_value digits) else None)"

definition parse_u16 :: "string \<Rightarrow> u16 option" where
  "parse_u16 s = map_option word_of_nat (parse_unsigned 65536 s)"

lemma parse_unsigned_dec [simp]: "n < bound \<Longrightarrow> parse_unsigned bound (dec n) = Some n"
proof -
  assume n: "n < bound"
  have "(case dec n of c # d # rest \<Rightarrow> if c = CHR ''+'' then d # rest else dec n | _ \<Rightarrow> dec n) = dec n"
    using dec_digits [of n]
    by (auto simp: is_ascii_digit_def split: list.split)
  with n show ?thesis
    by (simp add: parse_unsigned_def digits_value_dec dec_digits)
qed

lemma parse_u16_dec [simp]: "parse_u16 (dec (unat (w :: u16))) = Some w"
  using unat_u16_less [of w] by (simp add: parse_u16_def)

lemma parse_unsigned_Nil [simp]: "parse_unsigned bound [] = None"
  by (simp add: parse_unsigned_def)

lemma parse_unsigned_less: "parse_unsigned bound s = Some n \<Longrightarrow> n < bound"
  by (auto simp: parse_unsigned_def Let_def split: if_splits)


subsection \<open>The parser\<close>

text \<open>
  A step of the parser takes what is left of the text, and gives what it read and the rest; one
  that fails leaves the text where it was, as \<open>read_atomically\<close> has it.
\<close>

type_synonym 'a scan = "string \<Rightarrow> ('a \<times> string) option"

definition to_digit :: "nat \<Rightarrow> char \<Rightarrow> nat option" where
  "to_digit radix c =
     (let n = (of_char c :: nat);
          v = (if 48 \<le> n \<and> n \<le> 57 then n - 48
               else if 97 \<le> n \<and> n \<le> 122 then n - 87
               else if 65 \<le> n \<and> n \<le> 90 then n - 55 else 36)
      in if v < radix then Some v else None)"

fun read_digits :: "nat \<Rightarrow> string \<Rightarrow> nat list \<times> string" where
  "read_digits radix [] = ([], [])"
| "read_digits radix (c # s) =
     (case to_digit radix c of
        None \<Rightarrow> ([], c # s)
      | Some d \<Rightarrow> (case read_digits radix s of (ds, rest) \<Rightarrow> (d # ds, rest)))"

definition read_number :: "nat \<Rightarrow> nat \<Rightarrow> bool \<Rightarrow> nat \<Rightarrow> nat scan" where
  "read_number radix max_digits allow_zero_prefix bound s =
     (case read_digits radix s of (ds, rest) \<Rightarrow>
        if ds = [] \<or> max_digits < length ds then None
        else if \<not> allow_zero_prefix \<and> hd s = CHR ''0'' \<and> 1 < length ds then None
        else
          let v = foldl (\<lambda>v d. v * radix + d) 0 ds in
          if v < bound then Some (v, rest) else None)"

definition read_given_char :: "char \<Rightarrow> unit scan" where
  "read_given_char target s =
     (case s of [] \<Rightarrow> None | c # rest \<Rightarrow> if c = target then Some ((), rest) else None)"

definition read_separator :: "char \<Rightarrow> nat \<Rightarrow> 'a scan \<Rightarrow> 'a scan" where
  "read_separator sep index scan s =
     (if 0 < index then
        (case read_given_char sep s of None \<Rightarrow> None | Some (_, rest) \<Rightarrow> scan rest)
      else scan s)"

text \<open>The octets of an IPv4 address from number \<open>i\<close> on, of which \<open>k\<close> are left.\<close>

fun read_octets :: "nat \<Rightarrow> nat \<Rightarrow> u8 list scan" where
  "read_octets i 0 s = Some ([], s)"
| "read_octets i (Suc k) s =
     (case read_separator CHR ''.'' i (read_number 10 3 False 256) s of
        None \<Rightarrow> None
      | Some (n, rest) \<Rightarrow>
          (case read_octets (Suc i) k rest of
             None \<Rightarrow> None
           | Some (ns, rest') \<Rightarrow> Some (word_of_nat n # ns, rest')))"

definition read_ipv4_addr :: "u8 list scan" where
  "read_ipv4_addr s = read_octets 0 4 s"

text \<open>
  The groups of an IPv6 address from number \<open>i\<close> on, of which \<open>k\<close> can still be read: those that
  are there, whether they end with an IPv4 address, and the rest.
\<close>

fun read_groups :: "nat \<Rightarrow> nat \<Rightarrow> string \<Rightarrow> u16 list \<times> bool \<times> string" where
  "read_groups i 0 s = ([], False, s)"
| "read_groups i (Suc k) s =
     (case (if 0 < k then read_separator CHR '':'' i read_ipv4_addr s else None) of
        Some (octets, rest) \<Rightarrow>
          ([be16 (octets ! 0) (octets ! 1), be16 (octets ! 2) (octets ! 3)], True, rest)
      | None \<Rightarrow>
          (case read_separator CHR '':'' i (read_number 16 4 True 65536) s of
             None \<Rightarrow> ([], False, s)
           | Some (g, rest) \<Rightarrow>
               (case read_groups (Suc i) k rest of
                  (gs, v4, rest') \<Rightarrow> (word_of_nat g # gs, v4, rest'))))"

definition read_ipv6_addr :: "u16 list scan" where
  "read_ipv6_addr s =
     (case read_groups 0 8 s of (head, head_ipv4, rest) \<Rightarrow>
        if length head = 8 then Some (head, rest)
        else if head_ipv4 then None
        else
          (case read_given_char CHR '':'' rest of
             None \<Rightarrow> None
           | Some (_, rest1) \<Rightarrow>
               (case read_given_char CHR '':'' rest1 of
                  None \<Rightarrow> None
                | Some (_, rest2) \<Rightarrow>
                    (case read_groups 0 (8 - (length head + 1)) rest2 of
                       (tail, _, rest3) \<Rightarrow>
                         Some (head @ replicate (8 - length head - length tail) 0 @ tail, rest3)))))"

datatype IpAddr = V4 "u8 list" | V6 "u16 list"

definition parse_ipv4 :: "string \<Rightarrow> u8 list option" where
  "parse_ipv4 s =
     (if 15 < length s then None
      else case read_ipv4_addr s of Some (a, []) \<Rightarrow> Some a | _ \<Rightarrow> None)"

definition parse_ipv6 :: "string \<Rightarrow> u16 list option" where
  "parse_ipv6 s = (case read_ipv6_addr s of Some (a, []) \<Rightarrow> Some a | _ \<Rightarrow> None)"

definition parse_ip :: "string \<Rightarrow> IpAddr option" where
  "parse_ip s =
     (case (case read_ipv4_addr s of
              Some (a, rest) \<Rightarrow> Some (V4 a, rest)
            | None \<Rightarrow> map_option (\<lambda>(a, rest). (V6 a, rest)) (read_ipv6_addr s)) of
        Some (a, []) \<Rightarrow> Some a
      | _ \<Rightarrow> None)"


subsection \<open>The text of an address\<close>

text \<open>What is read is a piece of the text, of the characters an address can have.\<close>

definition hex_char :: "char \<Rightarrow> bool" where
  "hex_char c = (to_digit 16 c \<noteq> None)"

definition address_char :: "char \<Rightarrow> bool" where
  "address_char c = (hex_char c \<or> c = CHR ''.'' \<or> c = CHR '':'')"

definition scanned :: "(string \<Rightarrow> bool) \<Rightarrow> string \<Rightarrow> string \<Rightarrow> bool" where
  "scanned P s rest \<longleftrightarrow> (\<exists>x. s = x @ rest \<and> P x \<and> list_all address_char x)"

lemma to_digit_mono: "to_digit r c = Some d \<Longrightarrow> r \<le> r' \<Longrightarrow> to_digit r' c = Some d"
  by (auto simp: to_digit_def Let_def split: if_splits)

lemma hex_char_to_digit: "to_digit r c = Some d \<Longrightarrow> r \<le> 16 \<Longrightarrow> hex_char c"
  by (auto simp: hex_char_def dest: to_digit_mono)

lemma address_char_hex [simp]: "hex_char c \<Longrightarrow> address_char c"
  by (simp add: address_char_def)

lemma not_hex_char [simp]: "\<not> hex_char CHR '':''" "\<not> hex_char CHR ''.''"
  by (simp_all add: hex_char_def to_digit_def)

lemma address_char_colon [simp]: "address_char CHR '':''" "address_char CHR ''.''"
  by (simp_all add: address_char_def)

lemma read_digits_prefix:
  "read_digits r s = (ds, rest) \<Longrightarrow> r \<le> 16 \<Longrightarrow> \<exists>x. s = x @ rest \<and> list_all hex_char x"
proof (induction s arbitrary: ds)
  case Nil
  then show ?case by simp
next
  case (Cons c s)
  show ?case
  proof (cases "to_digit r c")
    case None
    with Cons.prems show ?thesis by auto
  next
    case (Some d)
    with Cons.prems obtain ds' where "read_digits r s = (ds', rest)"
      by (auto split: prod.splits)
    with Cons obtain x where "s = x @ rest" "list_all hex_char x" by blast
    with Some Cons.prems(2) have "c # s = (c # x) @ rest \<and> list_all hex_char (c # x)"
      by (simp add: hex_char_to_digit)
    then show ?thesis by blast
  qed
qed

lemma read_number_prefix:
  assumes "read_number r m z b s = Some (n, rest)" and "r \<le> 16"
  shows "\<exists>x. s = x @ rest \<and> list_all hex_char x"
  using assms read_digits_prefix [of r s _ rest]
  by (auto simp: read_number_def Let_def split: prod.splits if_splits)

lemma colon_free_hex: "list_all hex_char x \<Longrightarrow> CHR '':'' \<notin> set x"
  by (auto simp: list_all_iff)

lemma read_separator_Some:
  assumes "read_separator sep i scan s = Some (n, rest)"
  obtains s' where "scan s' = Some (n, rest)" "s = (if 0 < i then sep # s' else s')"
  using assms
  by (auto simp: read_separator_def read_given_char_def split: if_splits list.splits)

lemma read_octets_prefix:
  "read_octets i k s = Some (ns, rest) \<Longrightarrow>
     length ns = k \<and> (\<exists>x. s = x @ rest \<and> list_all address_char x \<and> CHR '':'' \<notin> set x)"
proof (induction k arbitrary: i s ns)
  case 0
  then show ?case by simp
next
  case (Suc k)
  from Suc.prems obtain n s1 ns' where
    n: "read_separator CHR ''.'' i (read_number 10 3 False 256) s = Some (n, s1)"
    and ns: "read_octets (Suc i) k s1 = Some (ns', rest)" "ns = word_of_nat n # ns'"
    by (auto split: option.splits prod.splits)
  from n obtain s0 where s0: "read_number 10 3 False 256 s0 = Some (n, s1)"
    "s = (if 0 < i then CHR ''.'' # s0 else s0)" by (rule read_separator_Some)
  from read_number_prefix [OF s0(1)] obtain x where x: "s0 = x @ s1" "list_all hex_char x" by auto
  from Suc.IH [OF ns(1)] obtain y where y: "s1 = y @ rest" "list_all address_char y" "CHR '':'' \<notin> set y"
    and len: "length ns' = k" by auto
  let ?z = "(if 0 < i then [CHR ''.''] else []) @ x @ y"
  have "s = ?z @ rest" using s0(2) x(1) y(1) by simp
  moreover have "list_all address_char ?z" using x(2) y(2) by (auto simp: list_all_iff)
  moreover have "CHR '':'' \<notin> set ?z" using colon_free_hex [OF x(2)] y(3) by simp
  ultimately show ?case using len ns(2) by auto
qed

lemma read_ipv4_prefix:
  "read_ipv4_addr s = Some (a, rest) \<Longrightarrow>
     length a = 4 \<and> (\<exists>x. s = x @ rest \<and> list_all address_char x \<and> CHR '':'' \<notin> set x)"
  unfolding read_ipv4_addr_def by (rule read_octets_prefix)

text \<open>The number of colons in a text is a lower bound for an IPv6 address.\<close>

abbreviation colons :: "string \<Rightarrow> nat" where
  "colons s \<equiv> length (filter (\<lambda>c. c = CHR '':'') s)"

lemma colons_0: "CHR '':'' \<notin> set x \<Longrightarrow> colons x = 0"
  by (auto simp: filter_empty_conv)

lemma read_groups_prefix:
  "read_groups i k s = (gs, v4, rest) \<Longrightarrow>
     length gs \<le> k \<and> (\<exists>x. s = x @ rest \<and> list_all address_char x
       \<and> length gs \<le> colons x + 2 - min i 1)"
proof (induction k arbitrary: i s gs)
  case 0
  then show ?case by simp
next
  case (Suc k)
  let ?v4 = "if 0 < k then read_separator CHR '':'' i read_ipv4_addr s else None"
  show ?case
  proof (cases ?v4)
    case (Some r)
    then obtain octets s1 where r: "r = (octets, s1)" "0 < k"
      "read_separator CHR '':'' i read_ipv4_addr s = Some (octets, s1)"
      by (cases r) (auto split: if_splits)
    from r(3) obtain s0 where s0: "read_ipv4_addr s0 = Some (octets, s1)"
      "s = (if 0 < i then CHR '':'' # s0 else s0)" by (rule read_separator_Some)
    from read_ipv4_prefix [OF s0(1)] obtain x where
      x: "s0 = x @ s1" "list_all address_char x" "CHR '':'' \<notin> set x" by blast
    from Suc.prems Some r have gs: "length gs = 2" "rest = s1" by auto
    let ?z = "(if 0 < i then [CHR '':''] else []) @ x"
    have "s = ?z @ rest" "list_all address_char ?z" using s0(2) x gs by simp_all
    moreover have "2 \<le> colons ?z + 2 - min i 1" using x(3) by (simp add: colons_0 split: if_split)
    ultimately show ?thesis using gs r(2) by (intro conjI exI [of _ ?z]) simp_all
  next
    case None
    show ?thesis
    proof (cases "read_separator CHR '':'' i (read_number 16 4 True 65536) s")
      case n: None
      with Suc.prems None have "gs = []" "rest = s" by auto
      then show ?thesis by (auto intro: exI [of _ "[]"])
    next
      case (Some r)
      then obtain g s1 where r: "r = (g, s1)"
        "read_separator CHR '':'' i (read_number 16 4 True 65536) s = Some (g, s1)"
        by (cases r) auto
      from r(2) obtain s0 where s0: "read_number 16 4 True 65536 s0 = Some (g, s1)"
        "s = (if 0 < i then CHR '':'' # s0 else s0)" by (rule read_separator_Some)
      from read_number_prefix [OF s0(1)] obtain x where x: "s0 = x @ s1" "list_all hex_char x" by auto
      from Suc.prems None r Some obtain gs' where
        gs: "read_groups (Suc i) k s1 = (gs', v4, rest)" "gs = word_of_nat g # gs'"
        by (auto split: prod.splits)
      from Suc.IH [OF gs(1)] obtain y where
        y: "s1 = y @ rest" "list_all address_char y" "length gs' \<le> colons y + 2 - 1" and len: "length gs' \<le> k"
        by auto
      let ?z = "(if 0 < i then [CHR '':''] else []) @ x @ y"
      have "s = ?z @ rest" using s0(2) x(1) y(1) by simp
      moreover have "list_all address_char ?z" using x(2) y(2) by (auto simp: list_all_iff)
      moreover have "length gs \<le> colons ?z + 2 - min i 1"
        using y(3) gs(2) colons_0 [OF colon_free_hex [OF x(2)]] by (simp split: if_split)
      ultimately show ?thesis using len gs(2) by (intro conjI exI [of _ ?z]) simp_all
    qed
  qed
qed

lemma read_ipv6_prefix:
  assumes "read_ipv6_addr s = Some (a, rest)"
  shows "length a = 8 \<and> (\<exists>x. s = x @ rest \<and> list_all address_char x \<and> 2 \<le> colons x)"
proof -
  obtain head v4 s1 where h: "read_groups 0 8 s = (head, v4, s1)" by (metis prod_cases3)
  from read_groups_prefix [OF h] obtain x where
    x: "s = x @ s1" "list_all address_char x" "length head \<le> colons x + 2" and le: "length head \<le> 8" by auto
  show ?thesis
  proof (cases "length head = 8")
    case True
    with assms h have "a = head" "rest = s1" by (simp_all add: read_ipv6_addr_def)
    with True x show ?thesis by (intro conjI exI [of _ x]) simp_all
  next
    case False
    with assms h obtain s2 where s1: "s1 = CHR '':'' # CHR '':'' # s2"
      by (auto simp: read_ipv6_addr_def read_given_char_def split: if_splits option.splits list.splits)
    obtain tail v4' s3 where t: "read_groups 0 (8 - (length head + 1)) s2 = (tail, v4', s3)"
      by (metis prod_cases3)
    from read_groups_prefix [OF t] obtain y where
      y: "s2 = y @ s3" "list_all address_char y" and le': "length tail \<le> 8 - (length head + 1)" by auto
    from assms h False s1 t have a: "a = head @ replicate (8 - length head - length tail) 0 @ tail" "rest = s3"
      by (auto simp: read_ipv6_addr_def read_given_char_def split: if_splits)
    from False le le' have "length a = 8" by (simp add: a)
    moreover have "s = (x @ [CHR '':'', CHR '':''] @ y) @ rest" using x(1) y(1) s1 a by simp
    moreover have "list_all address_char (x @ [CHR '':'', CHR '':''] @ y)" using x(2) y(2) by simp
    moreover have "2 \<le> colons (x @ [CHR '':'', CHR '':''] @ y)" by simp
    ultimately show ?thesis by blast
  qed
qed

lemma parse_ipv6_text:
  "parse_ipv6 s = Some a \<Longrightarrow> length a = 8 \<and> list_all address_char s \<and> 2 \<le> colons s"
  using read_ipv6_prefix [of s a "[]"]
  by (auto simp: parse_ipv6_def split: option.splits prod.splits list.splits)

lemma parse_ip_text: "parse_ip s = Some a \<Longrightarrow> list_all address_char s"
  using read_ipv6_prefix [of s _ "[]"] read_ipv4_prefix [of s _ "[]"]
  by (auto simp: parse_ip_def split: option.splits prod.splits list.splits)

text \<open>A text with a colon is an address only if it is an IPv6 address.\<close>

lemma parse_ip_colon:
  assumes "CHR '':'' \<in> set s"
  shows "parse_ip s = map_option V6 (parse_ipv6 s)"
proof (cases "read_ipv4_addr s")
  case None
  then show ?thesis
    by (auto simp: parse_ip_def parse_ipv6_def split: option.splits prod.splits list.splits)
next
  case (Some r)
  then obtain a rest where r: "read_ipv4_addr s = Some (a, rest)" by (cases r) auto
  from read_ipv4_prefix [OF r] obtain x where "s = x @ rest" "CHR '':'' \<notin> set x" by blast
  with assms have "rest \<noteq> []" by auto
  with r have "parse_ip s = None" by (cases rest) (simp_all add: parse_ip_def)
  moreover have "parse_ipv6 s = None"
    using r by (simp add: parse_ipv6_def read_ipv6_addr_def read_separator_def eval_nat_numeral)
  ultimately show ?thesis by simp
qed

text \<open>An address for the examples.\<close>

lemma parse_ip_1111: "parse_ip ''1.1.1.1'' = Some (V4 [1, 1, 1, 1])"
  by (simp add: parse_ip_def read_ipv4_addr_def read_separator_def read_number_def read_given_char_def
      to_digit_def Let_def eval_nat_numeral)

end
