(* ===== verification/Address.thy ===== *)
theory Address
  imports Ip_Addr
begin

text \<open>
  The addresses of nameservers that users give (\<open>dns-transport/src/address.rs\<close>): a host, with
  a port or without, and the URL of a DNS-over-HTTPS server. What comes out goes into name
  lookups and into the head of an HTTP request, so the properties bound what it can hold.
\<close>

subsection \<open>The code\<close>

text \<open>The message names the address, or the URL, and the reason.\<close>

datatype InvalidAddress = Invalid_Nameserver string string | Invalid_Url string string

definition is_host :: "string \<Rightarrow> bool" where
  "is_host host =
     (parse_ip host \<noteq> None
      \<or> list_all (\<lambda>b. is_ascii_alphanumeric b \<or> b \<in> {CHR ''-'', CHR ''_'', CHR ''.''}) host)"

definition split_bracketed :: "string \<Rightarrow> string \<Rightarrow> (InvalidAddress, string \<times> string option) outcome" where
  "split_bracketed addr bracketed =
     (case split_once CHR '']'' bracketed of
        None \<Rightarrow> Err (Invalid_Nameserver addr ''its '[' is never closed'')
      | Some (host, rest) \<Rightarrow>
          (case strip_prefix '':'' rest of
             Some port \<Rightarrow> Ok (host, Some port)
           | None \<Rightarrow>
               if rest = [] then Ok (host, None)
               else Err (Invalid_Nameserver addr (''something other than a port follows its ']'' @ [CHR 0x27]))))"

definition parse_host_port :: "string \<Rightarrow> u16 \<Rightarrow> (InvalidAddress, string \<times> u16) outcome" where
  "parse_host_port addr default_port =
     (if contains_str ''://'' addr then
        Err (Invalid_Nameserver addr ''it is a URL, which only DNS-over-HTTPS can use'')
      else if parse_ipv6 addr \<noteq> None then Ok (addr, default_port)
      else
        bind_outcome
          (case strip_prefix ''['' addr of
             Some bracketed \<Rightarrow> split_bracketed addr bracketed
           | None \<Rightarrow>
               (case rsplit_once CHR '':'' addr of
                  None \<Rightarrow> Ok (addr, None)
                | Some (host, port) \<Rightarrow> Ok (host, Some port)))
          (\<lambda>(host, port).
             if host = [] then Err (Invalid_Nameserver addr ''it has no host'')
             else if \<not> is_host host then
               Err (Invalid_Nameserver addr ''its host is not an IP address or a host name'')
             else
               (case port of
                  None \<Rightarrow> Ok (host, default_port)
                | Some port \<Rightarrow>
                    (case parse_u16 port of
                       Some port \<Rightarrow> Ok (host, port)
                     | None \<Rightarrow> Err (Invalid_Nameserver addr ''its port is not a number from 0 to 65535'')))))"

record HttpsUrl =
  url_host :: string
  url_port :: u16
  url_path :: string

definition find_char :: "char \<Rightarrow> string \<Rightarrow> nat option" where
  "find_char c s = (if c \<in> set s then Some (length (takeWhile (\<lambda>x. x \<noteq> c) s)) else None)"

definition parse_https_url :: "string \<Rightarrow> (InvalidAddress, HttpsUrl) outcome" where
  "parse_https_url url =
     (if \<not> list_all is_ascii_graphic url then
        Err (Invalid_Url url ''it contains a space, a control character, or a character that is not ASCII'')
      else
        (case strip_prefix ''https://'' url of
           None \<Rightarrow> Err (Invalid_Url url (''it does not start with 'https://'' @ [CHR 0x27]))
         | Some rest \<Rightarrow>
             (case find_char CHR ''/'' rest of
                None \<Rightarrow> Err (Invalid_Url url (''it has no path, such as '/dns-query'' @ [CHR 0x27]))
              | Some slash \<Rightarrow>
                  (let authority = take slash rest; path = drop slash rest in
                   if CHR ''@'' \<in> set authority then
                     Err (Invalid_Url url ''it has a user name or password, which dog cannot send'')
                   else
                     bind_outcome
                       (map_err (\<lambda>_. Invalid_Url url ''its host or port is not valid'')
                         (parse_host_port authority 443))
                       (\<lambda>(host, port).
                          let path = (case split_once CHR ''#'' path of None \<Rightarrow> path | Some (before, _) \<Rightarrow> before)
                          in Ok \<lparr>url_host = host, url_port = port, url_path = path\<rparr>)))))"


subsection \<open>Hosts\<close>

text \<open>The characters of a host: of a name, or of an address.\<close>

definition host_char :: "char \<Rightarrow> bool" where
  "host_char c = (is_ascii_alphanumeric c \<or> c \<in> {CHR ''-'', CHR ''_'', CHR ''.'', CHR '':''})"

lemma address_char_host_char: "address_char c \<Longrightarrow> host_char c"
  by (auto simp: address_char_def hex_char_def to_digit_def host_char_def is_ascii_alphanumeric_def
      is_ascii_alphabetic_def is_ascii_digit_def Let_def split: if_splits)

lemma host_char_graphic: "host_char c \<Longrightarrow> is_ascii_graphic c"
  by (auto simp: host_char_def is_ascii_alphanumeric_def is_ascii_alphabetic_def is_ascii_digit_def
      is_ascii_graphic_def Let_def)

lemma is_host_chars: "is_host host \<Longrightarrow> list_all host_char host"
proof -
  assume "is_host host"
  then consider a where "parse_ip host = Some a"
    | "list_all (\<lambda>b. is_ascii_alphanumeric b \<or> b \<in> {CHR ''-'', CHR ''_'', CHR ''.''}) host"
    by (auto simp: is_host_def)
  then show ?thesis
  proof cases
    case 1
    then show ?thesis by (auto dest: parse_ip_text simp: list_all_iff address_char_host_char)
  next
    case 2
    then show ?thesis by (auto simp: list_all_iff host_char_def)
  qed
qed

lemma parse_ipv6_is_host: "parse_ipv6 s = Some a \<Longrightarrow> is_host s \<and> s \<noteq> [] \<and> CHR '':'' \<in> set s"
proof -
  assume a: "parse_ipv6 s = Some a"
  then have c: "2 \<le> colons s" by (rule parse_ipv6_text [THEN conjunct2, THEN conjunct2])
  then have "CHR '':'' \<in> set s" by (metis colons_0 not_numeral_le_zero)
  with a c show ?thesis by (auto simp: is_host_def parse_ip_colon)
qed

lemma not_host_char [simp]:
  "\<not> host_char CHR ''/''" "\<not> host_char CHR '']''" "\<not> host_char CHR ''[''" "\<not> host_char CHR ''@''"
  by (simp_all add: host_char_def is_ascii_alphanumeric_def is_ascii_alphabetic_def is_ascii_digit_def)

lemma is_host_no_colon: "is_host host \<Longrightarrow> CHR '':'' \<in> set host \<Longrightarrow> \<exists>a. parse_ipv6 host = Some a"
  by (auto simp: is_host_def parse_ip_colon list_all_iff is_ascii_alphanumeric_def
      is_ascii_alphabetic_def is_ascii_digit_def)

lemma split_bracketed_Ok:
  "split_bracketed addr bracketed = Ok (host, port) \<longleftrightarrow>
     CHR '']'' \<notin> set host \<and>
     bracketed = host @ '']'' @ (case port of None \<Rightarrow> [] | Some p \<Rightarrow> '':'' @ p)"
proof
  assume "split_bracketed addr bracketed = Ok (host, port)"
  then show "CHR '']'' \<notin> set host \<and> bracketed = host @ '']'' @ (case port of None \<Rightarrow> [] | Some p \<Rightarrow> '':'' @ p)"
    by (auto simp: split_bracketed_def split_once_Some_iff strip_prefix_Some_iff split: option.splits if_splits)
next
  assume "CHR '']'' \<notin> set host \<and> bracketed = host @ '']'' @ (case port of None \<Rightarrow> [] | Some p \<Rightarrow> '':'' @ p)"
  then have "split_once CHR '']'' bracketed = Some (host, case port of None \<Rightarrow> [] | Some p \<Rightarrow> '':'' @ p)"
    by (simp add: split_once_Some_iff split: option.split)
  then show "split_bracketed addr bracketed = Ok (host, port)"
    by (cases port) (simp_all add: split_bracketed_def)
qed

text \<open>An address with a host in it, as one that is written out.\<close>

definition show_host_port :: "string \<Rightarrow> u16 \<Rightarrow> string" where
  "show_host_port host port =
     (if CHR '':'' \<in> set host then ''['' @ host @ '']:'' @ dec (unat port)
      else host @ '':'' @ dec (unat port))"

lemma no_slash_no_url: "CHR ''/'' \<notin> set s \<Longrightarrow> \<not> contains_str ''://'' s"
  by (auto simp: contains_str_iff)

lemma dec_chars: "list_all host_char (dec n)" "CHR '':'' \<notin> set (dec n)"
  using dec_digits [of n]
  by (auto simp: list_all_iff host_char_def is_ascii_alphanumeric_def is_ascii_digit_def)

lemma parse_host_port_show:
  assumes "is_host host" and "host \<noteq> []"
  shows "parse_host_port (show_host_port host port) default_port = Ok (host, port)"
proof -
  let ?p = "dec (unat port)"
  have chars: "list_all host_char host" "list_all host_char ?p" "CHR '':'' \<notin> set ?p"
    using is_host_chars [OF assms(1)] dec_chars by blast+
  then have "CHR ''/'' \<notin> set host" "CHR ''/'' \<notin> set ?p" and br: "CHR '']'' \<notin> set host" "CHR ''['' \<notin> set host"
    by (auto simp: list_all_iff)
  then have no_url: "\<not> contains_str ''://'' (show_host_port host port)"
    by (intro no_slash_no_url) (simp add: show_host_port_def)
  have v6: "parse_ipv6 (show_host_port host port) = None"
  proof (rule ccontr)
    assume "parse_ipv6 (show_host_port host port) \<noteq> None"
    then obtain a where a: "parse_ipv6 (show_host_port host port) = Some a" by auto
    then have "list_all address_char (show_host_port host port)" and c: "2 \<le> colons (show_host_port host port)"
      by (auto dest: parse_ipv6_text)
    then have "list_all host_char (show_host_port host port)"
      by (auto simp: list_all_iff intro: address_char_host_char)
    then have "CHR '':'' \<notin> set host" by (auto simp: show_host_port_def split: if_splits)
    with c chars(3) show False by (simp add: show_host_port_def colons_0)
  qed
  show ?thesis
  proof (cases "CHR '':'' \<in> set host")
    case True
    then have "split_bracketed (show_host_port host port) (host @ '']:'' @ ?p) = Ok (host, Some ?p)"
      using br by (simp add: split_bracketed_Ok)
    moreover have "strip_prefix ''['' (show_host_port host port) = Some (host @ '']:'' @ ?p)"
      using True by (simp add: show_host_port_def)
    ultimately show ?thesis using no_url v6 assms by (simp add: parse_host_port_def)
  next
    case False
    then have "rsplit_once CHR '':'' (show_host_port host port) = Some (host, ?p)"
      using chars(3) by (simp add: show_host_port_def rsplit_once_Some_iff)
    moreover have "strip_prefix ''['' (show_host_port host port) = None"
      using False br(2) assms(2) by (cases host) (auto simp: show_host_port_def)
    ultimately show ?thesis using no_url v6 assms by (simp add: parse_host_port_def)
  qed
qed

lemma parse_host_port_host:
  assumes "parse_host_port addr default_port = Ok (host, port)"
  shows "host \<noteq> [] \<and> is_host host"
  using assms parse_ipv6_is_host
  by (auto simp: parse_host_port_def bind_outcome_Ok_iff split: if_splits option.splits)

text \<open>
  What is taken from a nameserver's address as its host is never empty, and is an IP address
  or made of letters, digits, hyphens, underscores and dots: nothing else is ever looked up,
  connected to, or put into a request. It is a piece of the address as it was given.
\<close>

theorem parse_host_port_sound:
  assumes "parse_host_port addr default_port = Ok (host, port)"
  shows "host \<noteq> [] \<and> is_host host \<and> list_all host_char host \<and> (\<exists>before after. addr = before @ host @ after)"
proof -
  have "\<exists>before after. addr = before @ host @ after"
  proof (cases "parse_ipv6 addr = None")
    case False
    with assms have "addr = [] @ host @ []" by (auto simp: parse_host_port_def split: if_splits)
    then show ?thesis by blast
  next
    case True
    with assms obtain p where
      p: "(case strip_prefix ''['' addr of Some bracketed \<Rightarrow> split_bracketed addr bracketed
         | None \<Rightarrow> (case rsplit_once CHR '':'' addr of None \<Rightarrow> Ok (addr, None)
             | Some (host, port) \<Rightarrow> Ok (host, Some port))) = Ok (host, p)"
      by (auto simp: parse_host_port_def bind_outcome_Ok_iff split: if_splits option.splits)
    show ?thesis
    proof (cases "strip_prefix ''['' addr")
      case None
      with p have "addr = [] @ host @ [] \<or> (\<exists>q. addr = [] @ host @ CHR '':'' # q)"
        by (auto simp: rsplit_once_Some_iff split: option.splits)
      then show ?thesis by metis
    next
      case (Some bracketed)
      with p have "addr = ''['' @ host @ '']'' @ (case p of None \<Rightarrow> [] | Some q \<Rightarrow> '':'' @ q)"
        by (simp add: split_bracketed_Ok strip_prefix_Some_iff)
      then show ?thesis by metis
    qed
  qed
  with parse_host_port_host [OF assms] is_host_chars show ?thesis by blast
qed

lemma parse_host_port_sound_witness:
  "parse_host_port ''dns.example:5353'' 53 = Ok (''dns.example'', 5353)
   \<and> list_all host_char ''dns.example''"
proof -
  have "(''dns.example'' :: string) @ '':'' @ dec (unat (5353 :: u16)) = ''dns.example:5353''"
    by (simp add: dec.simps digit_def char_of_eq_iff)
  moreover have "is_host ''dns.example''"
    by (simp add: is_host_def is_ascii_alphanumeric_def is_ascii_alphabetic_def)
  ultimately have p: "parse_host_port ''dns.example:5353'' 53 = Ok (''dns.example'', 5353)"
    using parse_host_port_show [of "''dns.example''" 5353 53] by (simp add: show_host_port_def)
  with parse_host_port_sound [OF p] show ?thesis by blast
qed

text \<open>
  Every host and port can be given: a host name or an IPv4 address as \<open>host:port\<close>, and an
  IPv6 address as \<open>[host]:port\<close>, are taken apart into that host and that port.
\<close>

theorem parse_host_port_shown:
  assumes "is_host host" and "host \<noteq> []"
  shows "parse_host_port (show_host_port host port) default_port = Ok (host, port)"
  using assms by (rule parse_host_port_show)

lemma parse_host_port_shown_witness:
  "parse_host_port (show_host_port ''one.one'' 53) 853 = Ok (''one.one'', 53)"
proof -
  have "is_host ''one.one''"
    by (simp add: is_host_def is_ascii_alphanumeric_def is_ascii_alphabetic_def)
  from parse_host_port_shown [OF this, of 53 853] show ?thesis by simp
qed


subsection \<open>URLs\<close>

lemma take_find_char:
  "find_char c s = Some n \<Longrightarrow> s = take n s @ c # drop (Suc n) s \<and> c \<notin> set (take n s) \<and> drop n s = c # drop (Suc n) s"
proof -
  assume n: "find_char c s = Some n"
  then have c: "c \<in> set s" and n: "n = length (takeWhile (\<lambda>x. x \<noteq> c) s)"
    by (auto simp: find_char_def split: if_splits)
  then have t: "take n s = takeWhile (\<lambda>x. x \<noteq> c) s" "drop n s = dropWhile (\<lambda>x. x \<noteq> c) s"
    by (simp_all add: takeWhile_eq_take [symmetric] dropWhile_eq_drop [symmetric])
  from c have "dropWhile (\<lambda>x. x \<noteq> c) s \<noteq> []" by (simp add: dropWhile_eq_Nil_conv)
  then have d: "drop n s = c # drop (Suc n) s"
    using hd_dropWhile [of "\<lambda>x. x \<noteq> c" s] t(2) by (metis drop_Suc list.collapse tl_drop)
  have "c \<notin> set (take n s)" using t(1) by (metis (mono_tags) set_takeWhileD)
  with d show ?thesis by (metis append_take_drop_id)
qed

lemma parse_https_url_parts:
  assumes "parse_https_url url = Ok u"
  shows "url_host u \<noteq> [] \<and> list_all host_char (url_host u) \<and> list_all is_ascii_graphic (url_path u)
    \<and> (\<exists>p. url_path u = CHR ''/'' # p) \<and> CHR ''#'' \<notin> set (url_path u)"
proof -
  from assms obtain rest slash where
    g: "list_all is_ascii_graphic url" and r: "strip_prefix ''https://'' url = Some rest"
    and s: "find_char CHR ''/'' rest = Some slash"
    and h: "parse_host_port (take slash rest) 443 = Ok (url_host u, url_port u)"
    and p: "url_path u = (case split_once CHR ''#'' (drop slash rest) of None \<Rightarrow> drop slash rest
                          | Some (before, _) \<Rightarrow> before)"
    by (auto simp: parse_https_url_def bind_outcome_Ok_iff map_err_Ok_iff Let_def
        split: if_splits option.splits)
  have "list_all is_ascii_graphic (drop slash rest)"
    using g r by (auto simp: strip_prefix_Some_iff list_all_iff dest: in_set_dropD)
  then have "list_all is_ascii_graphic (url_path u)"
    by (auto simp: p split_once_Some_iff list_all_iff split: option.split)
  moreover have "\<exists>q. drop slash rest = CHR ''/'' # q" using take_find_char [OF s] by blast
  then have "\<exists>q. url_path u = CHR ''/'' # q"
    by (auto simp: p split: option.splits prod.split)
  moreover have "CHR ''#'' \<notin> set (url_path u)"
    by (auto simp: p split_once_Some_iff split_once_None_iff split: option.split)
  ultimately show ?thesis
    using parse_host_port_host [OF h] is_host_chars by blast
qed

text \<open>
  Whatever URL is accepted, its path starts with a slash and, like its host, holds only
  printable ASCII, with no space, no line break and no fragment: nothing in a URL can add a
  line to the HTTP request that is made from it.
\<close>

theorem parse_https_url_sound:
  assumes "parse_https_url url = Ok u"
  shows "url_host u \<noteq> [] \<and> list_all host_char (url_host u) \<and> list_all is_ascii_graphic (url_path u)
    \<and> (\<exists>p. url_path u = CHR ''/'' # p) \<and> CHR ''#'' \<notin> set (url_path u)"
  using assms by (rule parse_https_url_parts)

lemma dns_example_port: "parse_host_port ''dns.example'' 443 = Ok (''dns.example'', 443)"
proof -
  have "parse_ipv6 ''dns.example'' = None"
    by (rule ccontr) (auto dest!: parse_ipv6_text)
  moreover have "is_host ''dns.example''"
    by (simp add: is_host_def is_ascii_alphanumeric_def is_ascii_alphabetic_def)
  ultimately show ?thesis by (simp add: parse_host_port_def rsplit_once_def)
qed

lemma parse_https_url_sound_witness:
  "\<exists>u. parse_https_url ''https://dns.example/dns-query'' = Ok u \<and> list_all is_ascii_graphic (url_path u)"
proof -
  have "parse_https_url ''https://dns.example/dns-query''
      = Ok \<lparr>url_host = ''dns.example'', url_port = 443, url_path = ''/dns-query''\<rparr>"
    by (simp add: parse_https_url_def is_ascii_graphic_def find_char_def dns_example_port Let_def)
  with parse_https_url_sound [OF this] show ?thesis by blast
qed


subsection \<open>The addresses that are numbers\<close>

lemma address_char_no_url: "list_all address_char s \<Longrightarrow> \<not> contains_str ''://'' s"
  by (auto simp: contains_str_iff address_char_def hex_char_def to_digit_def)

lemma parse_ip_Nil: "parse_ip [] = None"
proof -
  have "read_ipv4_addr [] = None"
    by (simp add: read_ipv4_addr_def read_separator_def read_number_def eval_nat_numeral)
  moreover have "parse_ipv6 [] = None" by (rule ccontr) (auto dest!: parse_ipv6_text)
  ultimately show ?thesis
    by (auto simp: parse_ip_def parse_ipv6_def split: option.splits list.splits)
qed

lemma parse_ip_host_port:
  assumes "parse_ip s = Some ip"
  shows "parse_host_port s dflt = Ok (s, dflt)"
proof (cases "parse_ipv6 s")
  case (Some a)
  with address_char_no_url [OF parse_ip_text [OF assms]] show ?thesis by (simp add: parse_host_port_def)
next
  case None
  then have "CHR '':'' \<notin> set s" using assms parse_ip_colon [of s] by auto
  moreover have "strip_prefix ''['' s = None"
    using parse_ip_text [OF assms] by (auto simp: strip_prefix_None_iff address_char_def hex_char_def to_digit_def)
  moreover have "s \<noteq> []" using assms parse_ip_Nil by auto
  ultimately show ?thesis
    using address_char_no_url [OF parse_ip_text [OF assms]] assms None
    by (simp add: parse_host_port_def rsplit_once_None_iff [THEN iffD2] is_host_def)
qed

end
