(* ===== verification/Net.thy ===== *)
theory Net
  imports Validate Address
begin

text \<open>
  Sockets and time (\<open>dns-transport/src/net.rs\<close>, \<open>error.rs\<close>): the deadline of an exchange,
  finding the addresses of a host, connecting to the first that accepts, and the stream on
  which every read and write has to be over by the deadline.

  The operating system is explicit: the time is a number, and what a socket will do is a
  script, a list of events with the delay before each. \<open>socket_read\<close> and \<open>socket_write\<close> say
  what the standard library documents of a socket with a timeout: an operation that would
  take as long as the timeout fails with \<open>WouldBlock\<close> when it runs out.
\<close>

subsection \<open>Errors\<close>

datatype io_kind =
    K_NotFound | K_WouldBlock | K_TimedOut | K_Interrupted | K_UnexpectedEof | K_WriteZero | K_BrokenPipe
  | K_ConnectionReset | K_InvalidInput | K_InvalidData | K_Other nat

text \<open>The errors of the \<open>native_tls\<close> and \<open>httparse\<close> crates, which dog only passes on.\<close>

typedecl tls_error
typedecl http_parse_error

text \<open>A message about HTTP, or one that quotes bytes of the response between two texts.\<close>

datatype http_fault = Fault string | Fault_Quoting string "u8 list" string

datatype Error =
    E_WireError WireError
  | E_NetworkError io_kind
  | E_TruncatedResponse
  | E_Timeout nat
  | E_MismatchedResponse Mismatch
  | E_InvalidNameserver "InvalidAddress + string"
  | E_TlsError tls_error
  | E_TlsHandshakeError tls_error
  | E_HttpError http_parse_error
  | E_WrongHttpStatus u16 "string option"
  | E_MalformedHttp http_fault

definition io_error :: "io_kind \<Rightarrow> nat \<Rightarrow> Error" where
  "io_error kind timeout =
     (case kind of
        K_WouldBlock \<Rightarrow> E_Timeout timeout
      | K_TimedOut \<Rightarrow> E_Timeout timeout
      | _ \<Rightarrow> E_NetworkError kind)"


subsection \<open>Deadlines\<close>

record Deadline =
  dl_at :: nat
  dl_timeout :: nat

definition deadline_after :: "nat \<Rightarrow> nat \<Rightarrow> Deadline" where
  "deadline_after now timeout = \<lparr>dl_at = now + timeout, dl_timeout = timeout\<rparr>"

text \<open>\<open>saturating_duration_since\<close> is subtraction of natural numbers.\<close>

definition io_left :: "Deadline \<Rightarrow> nat \<Rightarrow> (io_kind, nat) outcome" where
  "io_left dl now = (let left = dl_at dl - now in if left = 0 then Err K_WouldBlock else Ok left)"

definition deadline_left :: "Deadline \<Rightarrow> nat \<Rightarrow> (Error, nat) outcome" where
  "deadline_left dl now = map_err (\<lambda>_. E_Timeout (dl_timeout dl)) (io_left dl now)"

lemma io_left_Ok_iff: "io_left dl now = Ok left \<longleftrightarrow> left = dl_at dl - now \<and> now < dl_at dl"
  by (auto simp: io_left_def Let_def)

lemma io_left_cases:
  obtains "dl_at dl \<le> now" "io_left dl now = Err K_WouldBlock"
  | "now < dl_at dl" "io_left dl now = Ok (dl_at dl - now)"
  by (cases "now < dl_at dl") (auto simp: io_left_def Let_def)


subsection \<open>Streams with a deadline\<close>

text \<open>\<open>Arrives []\<close> is the end of the stream.\<close>

datatype read_event = Arrives "u8 list" | Read_Fails io_kind

datatype write_event = Takes nat | Write_Fails io_kind

record net =
  clock :: nat
  incoming :: "(nat \<times> read_event) list"
  accepts :: "(nat \<times> write_event) list"
  outgoing :: "u8 list"

definition socket_read ::
  "nat \<Rightarrow> nat \<Rightarrow> 'w net_scheme \<Rightarrow> (io_kind, u8 list) outcome \<times> 'w net_scheme" where
  "socket_read limit n w =
     (case incoming w of
        [] \<Rightarrow> (Err K_WouldBlock, w\<lparr>clock := clock w + limit\<rparr>)
      | (delay, ev) # evs \<Rightarrow>
          if limit \<le> delay then
            (Err K_WouldBlock, w\<lparr>clock := clock w + limit, incoming := (delay - limit, ev) # evs\<rparr>)
          else
            (case ev of
               Read_Fails k \<Rightarrow> (Err k, w\<lparr>clock := clock w + delay, incoming := evs\<rparr>)
             | Arrives bs \<Rightarrow>
                 if length bs \<le> n then (Ok bs, w\<lparr>clock := clock w + delay, incoming := evs\<rparr>)
                 else (Ok (take n bs),
                       w\<lparr>clock := clock w + delay, incoming := (0, Arrives (drop n bs)) # evs\<rparr>)))"

text \<open>Once its script is over, a socket takes everything at once.\<close>

definition socket_write ::
  "nat \<Rightarrow> u8 list \<Rightarrow> 'w net_scheme \<Rightarrow> (io_kind, nat) outcome \<times> 'w net_scheme" where
  "socket_write limit bs w =
     (case accepts w of
        [] \<Rightarrow> (Ok (length bs), w\<lparr>outgoing := outgoing w @ bs\<rparr>)
      | (delay, ev) # evs \<Rightarrow>
          if limit \<le> delay then
            (Err K_WouldBlock, w\<lparr>clock := clock w + limit, accepts := (delay - limit, ev) # evs\<rparr>)
          else
            (case ev of
               Write_Fails k \<Rightarrow> (Err k, w\<lparr>clock := clock w + delay, accepts := evs\<rparr>)
             | Takes n \<Rightarrow>
                 (Ok (min n (length bs)),
                  w\<lparr>clock := clock w + delay, accepts := evs, outgoing := outgoing w @ take n bs\<rparr>)))"

text \<open>\<open>DeadlineStream::read\<close>: an interrupted read is tried again with the time that is left.\<close>

function deadline_read ::
  "Deadline \<Rightarrow> nat \<Rightarrow> 'w net_scheme \<Rightarrow> (io_kind, u8 list) outcome \<times> 'w net_scheme" where
  "deadline_read dl n w =
     (case io_left dl (clock w) of
        Err k \<Rightarrow> (Err k, w)
      | Panic \<Rightarrow> (Panic, w)
      | Ok left \<Rightarrow>
          (case socket_read left n w of
             (Err k, w') \<Rightarrow> if k = K_Interrupted then deadline_read dl n w' else (Err k, w')
           | result \<Rightarrow> result))"
  by pat_completeness auto
termination
  by (relation "measure (\<lambda>(dl, n, w). length (incoming w))")
    (auto simp: socket_read_def split: list.splits if_splits read_event.splits)

declare deadline_read.simps [simp del]

function deadline_write ::
  "Deadline \<Rightarrow> u8 list \<Rightarrow> 'w net_scheme \<Rightarrow> (io_kind, nat) outcome \<times> 'w net_scheme" where
  "deadline_write dl bs w =
     (case io_left dl (clock w) of
        Err k \<Rightarrow> (Err k, w)
      | Panic \<Rightarrow> (Panic, w)
      | Ok left \<Rightarrow>
          (case socket_write left bs w of
             (Err k, w') \<Rightarrow> if k = K_Interrupted then deadline_write dl bs w' else (Err k, w')
           | result \<Rightarrow> result))"
  by pat_completeness auto
termination
  by (relation "measure (\<lambda>(dl, bs, w). length (accepts w))")
    (auto simp: socket_write_def split: list.splits if_splits write_event.splits)

declare deadline_write.simps [simp del]

text \<open>The standard library's \<open>read_exact\<close> and \<open>write_all\<close> over such a stream.\<close>

function stream_read_exact ::
  "Deadline \<Rightarrow> nat \<Rightarrow> 'w net_scheme \<Rightarrow> (io_kind, u8 list) outcome \<times> 'w net_scheme" where
  "stream_read_exact dl n w =
     (if n = 0 then (Ok [], w)
      else
        (case deadline_read dl n w of
           (Err k, w') \<Rightarrow> (Err k, w')
         | (Panic, w') \<Rightarrow> (Panic, w')
         | (Ok bs, w') \<Rightarrow>
             if bs = [] then (Err K_UnexpectedEof, w')
             else
               (case stream_read_exact dl (n - length bs) w' of
                  (Ok cs, w'') \<Rightarrow> (Ok (bs @ cs), w'')
                | result \<Rightarrow> result)))"
  by pat_completeness auto
termination
  by (relation "measure (\<lambda>(dl, n, w). n)") auto

declare stream_read_exact.simps [simp del]

function stream_write_all ::
  "Deadline \<Rightarrow> u8 list \<Rightarrow> 'w net_scheme \<Rightarrow> (io_kind, unit) outcome \<times> 'w net_scheme" where
  "stream_write_all dl bs w =
     (if bs = [] then (Ok (), w)
      else
        (case deadline_write dl bs w of
           (Err k, w') \<Rightarrow> (Err k, w')
         | (Panic, w') \<Rightarrow> (Panic, w')
         | (Ok n, w') \<Rightarrow>
             if n = 0 then (Err K_WriteZero, w')
             else stream_write_all dl (drop n bs) w'))"
  by pat_completeness auto
termination
  by (relation "measure (\<lambda>(dl, bs, w). length bs)") auto

declare stream_write_all.simps [simp del]


subsection \<open>Steps in sequence\<close>

text \<open>The question mark of the code, where the network's state goes from one step to the next.\<close>

definition and_then ::
  "('w \<Rightarrow> ('e, 'a) outcome \<times> 'w) \<Rightarrow> ('a \<Rightarrow> 'w \<Rightarrow> ('e, 'b) outcome \<times> 'w) \<Rightarrow> 'w \<Rightarrow> ('e, 'b) outcome \<times> 'w" where
  "and_then m f w =
     (case m w of
        (Ok x, w') \<Rightarrow> f x w'
      | (Err e, w') \<Rightarrow> (Err e, w')
      | (Panic, w') \<Rightarrow> (Panic, w'))"

text \<open>A step that leaves the network alone.\<close>

definition just :: "('e, 'a) outcome \<Rightarrow> 'w \<Rightarrow> ('e, 'a) outcome \<times> 'w" where
  "just r w = (r, w)"

lemma and_then_Ok:
  "and_then m f w = (Ok y, w') \<longleftrightarrow> (\<exists>x v. m w = (Ok x, v) \<and> f x v = (Ok y, w'))"
  by (auto simp: and_then_def split: prod.splits outcome.splits)

lemma and_then_step: "m w = (Ok x, v) \<Longrightarrow> and_then m f w = f x v"
  by (simp add: and_then_def)

lemma and_then_error: "m w = (Err e, v) \<Longrightarrow> and_then m f w = (Err e, v)"
  by (simp add: and_then_def)

lemma just_Ok [simp]: "just r w = (Ok x, w') \<longleftrightarrow> r = Ok x \<and> w' = w"
  by (auto simp: just_def)

lemma and_then_just [simp]: "and_then (just (Ok x)) f w = f x w"
  by (simp add: and_then_def just_def)

text \<open>The state alone, whatever the result, only moves by the steps.\<close>

lemma and_then_moves:
  assumes "R w (snd (m w))" and "\<And>x v. m w = (Ok x, v) \<Longrightarrow> R v (snd (f x v))"
    and "\<And>u v w. R u v \<Longrightarrow> R v w \<Longrightarrow> R u w"
  shows "R w (snd (and_then m f w))"
  using assms(1,2) assms(3) [of w "snd (m w)"]
  by (auto simp: and_then_def split: prod.split outcome.split)


subsection \<open>Finding and connecting to a server\<close>

type_synonym SocketAddr = "IpAddr \<times> u16"

datatype lookup_event = Found "IpAddr list" | Lookup_Fails io_kind | Lookup_Stops

text \<open>A connection that is made may fail to be configured; then it has data in store.\<close>

datatype connect_event =
    Connects "io_kind option" "(nat \<times> read_event) list" "(nat \<times> write_event) list"
  | Connect_Fails io_kind

datatype datagram_event = Datagram "u8 list" | Recv_Fails io_kind

text \<open>A socket that is opened has datagrams in store, and may fail to send.\<close>

datatype open_event = Opens "io_kind option" "(nat \<times> datagram_event) list" | Open_Fails io_kind

text \<open>
  The rest of the network: what will come of each name lookup, of each connection, and of each
  UDP socket. \<open>dialled\<close> records the addresses that were tried.
\<close>

record world = net +
  lookups :: "(nat \<times> lookup_event) list"
  connects :: "(nat \<times> connect_event) list"
  opens :: "open_event list"
  datagrams :: "(nat \<times> datagram_event) list"
  send_fails :: "io_kind option"
  nodelay_fails :: "io_kind option"
  dialled :: "SocketAddr list"

text \<open>
  \<open>lookup_before\<close>: the lookup runs on a thread of its own, whose answer is waited for until the
  deadline. A lookup that never answers is the end of the script.
\<close>

definition lookup_before :: "Deadline \<Rightarrow> 'w world_scheme \<Rightarrow> (Error, IpAddr list) outcome \<times> 'w world_scheme" where
  "lookup_before dl w =
     (case deadline_left dl (clock w) of
        Err e \<Rightarrow> (Err e, w\<lparr>lookups := tl (lookups w)\<rparr>)
      | Panic \<Rightarrow> (Panic, w)
      | Ok left \<Rightarrow>
          (case lookups w of
             [] \<Rightarrow> (Err (E_Timeout (dl_timeout dl)), w\<lparr>clock := clock w + left\<rparr>)
           | (delay, ev) # rest \<Rightarrow>
               if left \<le> delay then
                 (Err (E_Timeout (dl_timeout dl)), w\<lparr>clock := clock w + left, lookups := rest\<rparr>)
               else
                 ((case ev of
                     Found ips \<Rightarrow> Ok ips
                   | Lookup_Fails k \<Rightarrow> Err (E_NetworkError k)
                   | Lookup_Stops \<Rightarrow> Err (E_NetworkError (K_Other 0))),
                  w\<lparr>clock := clock w + delay, lookups := rest\<rparr>)))"

definition addresses ::
  "string \<Rightarrow> u16 \<Rightarrow> Deadline \<Rightarrow> 'w world_scheme \<Rightarrow> (Error, SocketAddr list) outcome \<times> 'w world_scheme" where
  "addresses host port dl =
     (case parse_ip host of
        Some ip \<Rightarrow> just (Ok [(ip, port)])
      | None \<Rightarrow> and_then (lookup_before dl) (\<lambda>ips. just (Ok (map (\<lambda>ip. (ip, port)) ips))))"

text \<open>\<open>TcpStream::connect_timeout\<close>: connecting takes as long as the time limit at most.\<close>

definition socket_connect ::
  "SocketAddr \<Rightarrow> nat \<Rightarrow> 'w world_scheme \<Rightarrow> (io_kind, unit) outcome \<times> 'w world_scheme" where
  "socket_connect addr limit w =
     (let w = w\<lparr>dialled := dialled w @ [addr]\<rparr> in
      case connects w of
        [] \<Rightarrow> (Err K_TimedOut, w\<lparr>clock := clock w + limit\<rparr>)
      | (delay, ev) # rest \<Rightarrow>
          if limit \<le> delay then (Err K_TimedOut, w\<lparr>clock := clock w + limit, connects := rest\<rparr>)
          else
            (case ev of
               Connect_Fails k \<Rightarrow> (Err k, w\<lparr>clock := clock w + delay, connects := rest\<rparr>)
             | Connects fails evs takes \<Rightarrow>
                 (Ok (), w\<lparr>clock := clock w + delay, connects := rest, incoming := evs, accepts := takes,
                          outgoing := [], nodelay_fails := fails\<rparr>)))"

text \<open>\<open>configure\<close>: the option that keeps small writes from being held back, which may not be set.\<close>

definition configure_stream :: "'w world_scheme \<Rightarrow> (Error, unit) outcome \<times> 'w world_scheme" where
  "configure_stream w =
     (case nodelay_fails w of Some k \<Rightarrow> (Err (E_NetworkError k), w) | None \<Rightarrow> (Ok (), w))"

lemma snd_configure_stream [simp]: "snd (configure_stream w) = w"
  by (simp add: configure_stream_def split: option.split)

fun connect_loop ::
  "Deadline \<Rightarrow> io_kind \<Rightarrow> SocketAddr list \<Rightarrow> 'w world_scheme \<Rightarrow> (Error, unit) outcome \<times> 'w world_scheme" where
  "connect_loop dl last_error [] w = (Err (io_error last_error (dl_timeout dl)), w)"
| "connect_loop dl last_error (addr # addrs) w =
     (case deadline_left dl (clock w) of
        Err e \<Rightarrow> (Err e, w)
      | Panic \<Rightarrow> (Panic, w)
      | Ok left \<Rightarrow>
          (case socket_connect addr left w of
             (Ok _, w') \<Rightarrow> configure_stream w'
           | (Panic, w') \<Rightarrow> (Panic, w')
           | (Err e, w') \<Rightarrow> connect_loop dl e addrs w'))"

definition connect_tcp ::
  "string \<Rightarrow> u16 \<Rightarrow> Deadline \<Rightarrow> 'w world_scheme \<Rightarrow> (Error, unit) outcome \<times> 'w world_scheme" where
  "connect_tcp host port dl = and_then (addresses host port dl) (connect_loop dl K_NotFound)"

text \<open>\<open>open_udp\<close>: binding and connecting a UDP socket sends nothing and takes no time.\<close>

definition open_udp :: "SocketAddr \<Rightarrow> 'w world_scheme \<Rightarrow> (io_kind, unit) outcome \<times> 'w world_scheme" where
  "open_udp addr w =
     (let w = w\<lparr>dialled := dialled w @ [addr]\<rparr> in
      case opens w of
        [] \<Rightarrow> (Err (K_Other 0), w)
      | Open_Fails k # rest \<Rightarrow> (Err k, w\<lparr>opens := rest\<rparr>)
      | Opens fails evs # rest \<Rightarrow> (Ok (), w\<lparr>opens := rest, datagrams := evs, send_fails := fails\<rparr>))"

fun open_loop ::
  "Deadline \<Rightarrow> io_kind \<Rightarrow> SocketAddr list \<Rightarrow> 'w world_scheme \<Rightarrow> (Error, unit) outcome \<times> 'w world_scheme" where
  "open_loop dl last_error [] w = (Err (io_error last_error (dl_timeout dl)), w)"
| "open_loop dl last_error (addr # addrs) w =
     (case open_udp addr w of
        (Ok _, w') \<Rightarrow> (Ok (), w')
      | (Panic, w') \<Rightarrow> (Panic, w')
      | (Err e, w') \<Rightarrow> open_loop dl e addrs w')"

definition connect_udp ::
  "string \<Rightarrow> u16 \<Rightarrow> Deadline \<Rightarrow> 'w world_scheme \<Rightarrow> (Error, unit) outcome \<times> 'w world_scheme" where
  "connect_udp host port dl = and_then (addresses host port dl) (open_loop dl K_NotFound)"


subsection \<open>Nothing outlasts the deadline\<close>

text \<open>From one state of the network to a later one, no later than the deadline.\<close>

definition in_time :: "Deadline \<Rightarrow> 'w net_scheme \<Rightarrow> 'w net_scheme \<Rightarrow> bool" where
  "in_time dl w w' \<longleftrightarrow> clock w \<le> clock w' \<and> clock w' \<le> max (clock w) (dl_at dl)"

lemma in_time_refl [simp]: "in_time dl w w"
  by (simp add: in_time_def)

lemma in_time_trans: "in_time dl u v \<Longrightarrow> in_time dl v w \<Longrightarrow> in_time dl u w"
  by (auto simp: in_time_def)

lemma socket_read_in_time: "clock w + limit \<le> dl_at dl \<Longrightarrow> in_time dl w (snd (socket_read limit n w))"
  by (auto simp: socket_read_def in_time_def split: list.split read_event.split)

lemma socket_write_in_time: "clock w + limit \<le> dl_at dl \<Longrightarrow> in_time dl w (snd (socket_write limit bs w))"
  by (auto simp: socket_write_def in_time_def split: list.split write_event.split)

lemma deadline_read_in_time: "in_time dl w (snd (deadline_read dl n w))"
proof (induction dl n w rule: deadline_read.induct)
  case (1 dl n w)
  show ?case
  proof (cases rule: io_left_cases [of dl "clock w"])
    case 1
    then show ?thesis by (simp add: deadline_read.simps [of dl n w])
  next
    case 2
    obtain r w' where r: "socket_read (dl_at dl - clock w) n w = (r, w')" by fastforce
    have t: "in_time dl w w'"
      using socket_read_in_time [of w "dl_at dl - clock w" dl n] r 2(1) by simp
    show ?thesis
    proof (cases "r = Err K_Interrupted")
      case True
      have "in_time dl w' (snd (deadline_read dl n w'))"
        by (rule "1.IH" [OF 2(2) r [symmetric] True refl])
      with 2 r True in_time_trans [OF t] show ?thesis
        by (simp add: deadline_read.simps [of dl n w])
    next
      case False
      with 2 r t show ?thesis
        by (cases r) (auto simp: deadline_read.simps [of dl n w])
    qed
  qed
qed

lemma deadline_write_in_time: "in_time dl w (snd (deadline_write dl bs w))"
proof (induction dl bs w rule: deadline_write.induct)
  case (1 dl bs w)
  show ?case
  proof (cases rule: io_left_cases [of dl "clock w"])
    case 1
    then show ?thesis by (simp add: deadline_write.simps [of dl bs w])
  next
    case 2
    obtain r w' where r: "socket_write (dl_at dl - clock w) bs w = (r, w')" by fastforce
    have t: "in_time dl w w'"
      using socket_write_in_time [of w "dl_at dl - clock w" dl bs] r 2(1) by simp
    show ?thesis
    proof (cases "r = Err K_Interrupted")
      case True
      have "in_time dl w' (snd (deadline_write dl bs w'))"
        by (rule "1.IH" [OF 2(2) r [symmetric] True refl])
      with 2 r True in_time_trans [OF t] show ?thesis
        by (simp add: deadline_write.simps [of dl bs w])
    next
      case False
      with 2 r t show ?thesis
        by (cases r) (auto simp: deadline_write.simps [of dl bs w])
    qed
  qed
qed

lemma stream_read_exact_in_time: "in_time dl w (snd (stream_read_exact dl n w))"
proof (induction dl n w rule: stream_read_exact.induct)
  case (1 dl n w)
  obtain r w' where r: "deadline_read dl n w = (r, w')" by fastforce
  have t: "in_time dl w w'" using deadline_read_in_time [of dl w n] r by simp
  show ?case
  proof (cases "n \<noteq> 0 \<and> (\<exists>bs. r = Ok bs \<and> bs \<noteq> [])")
    case True
    then obtain bs where bs: "r = Ok bs" "bs \<noteq> []" "n \<noteq> 0" by blast
    obtain r2 v where rest: "stream_read_exact dl (n - length bs) w' = (r2, v)" by fastforce
    have "in_time dl w' (snd (stream_read_exact dl (n - length bs) w'))"
      by (rule "1.IH" [OF bs(3) r [symmetric] bs(1,2)])
    with rest have "in_time dl w v" using in_time_trans [OF t] by simp
    with r bs rest show ?thesis
      by (cases r2) (simp_all add: stream_read_exact.simps [of dl n w])
  next
    case False
    with r t show ?thesis
      by (cases r) (auto simp: stream_read_exact.simps [of dl n w])
  qed
qed

lemma stream_write_all_in_time: "in_time dl w (snd (stream_write_all dl bs w))"
proof (induction dl bs w rule: stream_write_all.induct)
  case (1 dl bs w)
  obtain r w' where r: "deadline_write dl bs w = (r, w')" by fastforce
  have t: "in_time dl w w'" using deadline_write_in_time [of dl w bs] r by simp
  show ?case
  proof (cases "bs \<noteq> [] \<and> (\<exists>n. r = Ok n \<and> n \<noteq> 0)")
    case True
    then obtain n where n: "r = Ok n" "n \<noteq> 0" "bs \<noteq> []" by blast
    have "in_time dl w' (snd (stream_write_all dl (drop n bs) w'))"
      by (rule "1.IH" [OF n(3) r [symmetric] n(1,2)])
    with r n in_time_trans [OF t] show ?thesis
      by (simp add: stream_write_all.simps [of dl bs w])
  next
    case False
    with r t show ?thesis
      by (cases r) (auto simp: stream_write_all.simps [of dl bs w])
  qed
qed

lemma and_then_in_time:
  assumes "in_time dl w (snd (m w))" and "\<And>x v. m w = (Ok x, v) \<Longrightarrow> in_time dl v (snd (f x v))"
  shows "in_time dl w (snd (and_then m f w))"
  by (rule and_then_moves) (use assms in \<open>auto intro: in_time_trans\<close>)

lemma just_in_time [simp]: "in_time dl w (snd (just r w))"
  by (simp add: just_def)

lemma lookup_before_in_time: "in_time dl w (snd (lookup_before dl w))"
  by (cases rule: io_left_cases [of dl "clock w"])
    (auto simp: lookup_before_def deadline_left_def in_time_def split: list.split)

lemma addresses_in_time: "in_time dl w (snd (addresses host port dl w))"
  unfolding addresses_def
  by (auto split: option.split intro!: and_then_in_time lookup_before_in_time)

lemma socket_connect_in_time:
  "clock w + limit \<le> dl_at dl \<Longrightarrow> in_time dl w (snd (socket_connect addr limit w))"
  by (auto simp: socket_connect_def Let_def in_time_def split: list.split connect_event.split)

lemma connect_loop_in_time: "in_time dl w (snd (connect_loop dl e addrs w))"
proof (induction addrs arbitrary: e w)
  case (Cons addr addrs)
  show ?case
  proof (cases rule: io_left_cases [of dl "clock w"])
    case 1
    then show ?thesis by (simp add: deadline_left_def)
  next
    case 2
    obtain r v where r: "socket_connect addr (dl_at dl - clock w) w = (r, v)" by fastforce
    with socket_connect_in_time [of w "dl_at dl - clock w" dl addr] 2 have "in_time dl w v" by simp
    with 2 r Cons.IH show ?thesis
      by (auto simp: deadline_left_def intro: in_time_trans split: outcome.split)
  qed
qed simp

lemma connect_tcp_in_time: "in_time dl w (snd (connect_tcp host port dl w))"
  unfolding connect_tcp_def by (intro and_then_in_time addresses_in_time connect_loop_in_time)

lemma open_loop_in_time: "in_time dl w (snd (open_loop dl e addrs w))"
proof (induction addrs arbitrary: e w)
  case (Cons addr addrs)
  have "in_time dl w v" if "open_udp addr w = (r, v)" for r v
    using that by (auto simp: open_udp_def Let_def in_time_def split: list.splits open_event.splits)
  with Cons.IH show ?case
    by (auto intro: in_time_trans split: prod.split outcome.split)
qed simp

lemma connect_udp_in_time: "in_time dl w (snd (connect_udp host port dl w))"
  unfolding connect_udp_def by (intro and_then_in_time addresses_in_time open_loop_in_time)


subsection \<open>What is dialled\<close>

text \<open>From one state to a later one, only such addresses are tried.\<close>

definition dials :: "(SocketAddr \<Rightarrow> bool) \<Rightarrow> 'w world_scheme \<Rightarrow> 'w world_scheme \<Rightarrow> bool" where
  "dials P w w' \<longleftrightarrow> (\<exists>xs. dialled w' = dialled w @ xs \<and> list_all P xs)"

lemma dials_same: "dialled w' = dialled w \<Longrightarrow> dials P w w'"
  by (simp add: dials_def)

lemma dials_trans: "dials P u v \<Longrightarrow> dials P v w \<Longrightarrow> dials P u w"
  unfolding dials_def by (metis append_assoc list_all_append)

lemma dials_mono: "dials P u v \<Longrightarrow> (\<And>a. P a \<Longrightarrow> Q a) \<Longrightarrow> dials Q u v"
  unfolding dials_def by (metis list_all_iff)

text \<open>Reading and writing touch the stream only.\<close>

lemma deadline_read_more: "net.more (snd (deadline_read dl n w)) = net.more w"
proof (induction dl n w rule: deadline_read.induct)
  case (1 dl n w)
  have more: "net.more (snd (socket_read left n w)) = net.more w" for left
    by (simp add: socket_read_def split: list.split read_event.split)
  show ?case
  proof (cases rule: io_left_cases [of dl "clock w"])
    case 1
    then show ?thesis by (simp add: deadline_read.simps [of dl n w])
  next
    case 2
    obtain r v where r: "socket_read (dl_at dl - clock w) n w = (r, v)" by fastforce
    with more [of "dl_at dl - clock w"] "1.IH" [OF 2(2) r [symmetric]] 2 show ?thesis
      by (cases r) (simp_all add: deadline_read.simps [of dl n w])
  qed
qed

lemma deadline_write_more: "net.more (snd (deadline_write dl bs w)) = net.more w"
proof (induction dl bs w rule: deadline_write.induct)
  case (1 dl bs w)
  have more: "net.more (snd (socket_write left bs w)) = net.more w" for left
    by (simp add: socket_write_def split: list.split write_event.split)
  show ?case
  proof (cases rule: io_left_cases [of dl "clock w"])
    case 1
    then show ?thesis by (simp add: deadline_write.simps [of dl bs w])
  next
    case 2
    obtain r v where r: "socket_write (dl_at dl - clock w) bs w = (r, v)" by fastforce
    with more [of "dl_at dl - clock w"] "1.IH" [OF 2(2) r [symmetric]] 2 show ?thesis
      by (cases r) (simp_all add: deadline_write.simps [of dl bs w])
  qed
qed

lemma stream_read_exact_more: "net.more (snd (stream_read_exact dl n w)) = net.more w"
proof (induction dl n w rule: stream_read_exact.induct)
  case (1 dl n w)
  obtain r v where r: "deadline_read dl n w = (r, v)" by fastforce
  with deadline_read_more [of dl n w] "1.IH" [OF _ r [symmetric]] show ?case
    by (cases r) (auto simp: stream_read_exact.simps [of dl n w] split: prod.split outcome.split)
qed

lemma stream_write_all_more: "net.more (snd (stream_write_all dl bs w)) = net.more w"
proof (induction dl bs w rule: stream_write_all.induct)
  case (1 dl bs w)
  obtain r v where r: "deadline_write dl bs w = (r, v)" by fastforce
  with deadline_write_more [of dl bs w] "1.IH" [OF _ r [symmetric]] show ?case
    by (cases r) (auto simp: stream_write_all.simps [of dl bs w])
qed

text \<open>The addresses of a host: itself if it is one, or what the name lookups in store find.\<close>

definition host_address :: "(nat \<times> lookup_event) set \<Rightarrow> string \<Rightarrow> u16 \<Rightarrow> SocketAddr \<Rightarrow> bool" where
  "host_address store host port addr \<longleftrightarrow> snd addr = port \<and>
     (case parse_ip host of
        Some ip \<Rightarrow> fst addr = ip
      | None \<Rightarrow> \<exists>(d, ev) \<in> store. case ev of Found ips \<Rightarrow> fst addr \<in> set ips | _ \<Rightarrow> False)"

text \<open>A step that tries only such addresses, and takes lookups from what is in store.\<close>

definition fetches ::
  "(nat \<times> lookup_event) set \<Rightarrow> (SocketAddr \<Rightarrow> bool) \<Rightarrow> 'w world_scheme \<Rightarrow> 'w world_scheme \<Rightarrow> bool" where
  "fetches store P w w' \<longleftrightarrow>
     (set (lookups w) \<subseteq> store \<longrightarrow> set (lookups w') \<subseteq> store \<and> dials P w w')"

lemma fetches_trans: "fetches L P u v \<Longrightarrow> fetches L P v w \<Longrightarrow> fetches L P u w"
  by (auto simp: fetches_def intro: dials_trans)

lemma fetches_same: "lookups v = lookups u \<Longrightarrow> dialled v = dialled u \<Longrightarrow> fetches L P u v"
  by (simp add: fetches_def dials_same)

lemma fetches_mono: "fetches L P u v \<Longrightarrow> (\<And>a. P a \<Longrightarrow> Q a) \<Longrightarrow> fetches L Q u v"
  by (auto simp: fetches_def intro: dials_mono)

lemma fetches_more:
  fixes u v :: "'w world_scheme"
  shows "net.more v = net.more u \<Longrightarrow> fetches L P u v"
  by (cases u, cases v) (simp add: fetches_same)

lemma just_fetches [simp]: "fetches L P w (snd (just r w))"
  by (simp add: just_def fetches_same)

lemma and_then_fetches:
  assumes "fetches L P w (snd (m w))" and "\<And>x v. m w = (Ok x, v) \<Longrightarrow> fetches L P v (snd (f x v))"
  shows "fetches L P w (snd (and_then m f w))"
  by (rule and_then_moves) (use assms in \<open>auto intro: fetches_trans\<close>)

text \<open>Connecting tries the addresses of the host, on the port.\<close>

lemma connect_loop_dials:
  "list_all P addrs \<Longrightarrow> fetches L P w (snd (connect_loop dl e addrs w))"
proof (induction addrs arbitrary: e w)
  case Nil
  then show ?case by (simp add: fetches_same)
next
  case (Cons addr addrs)
  have one: "fetches L P w v" if "socket_connect addr left w = (r, v)" for left r v
  proof -
    from that have "lookups v = lookups w" "dialled v = dialled w @ [addr]"
      by (auto simp: socket_connect_def Let_def split: list.splits if_splits connect_event.splits)
    with Cons.prems show ?thesis by (simp add: fetches_def dials_def)
  qed
  from Cons show ?case
    by (auto simp: fetches_same intro: one fetches_trans [OF one] split: prod.split outcome.split)
qed

lemma open_loop_dials: "list_all P addrs \<Longrightarrow> fetches L P w (snd (open_loop dl e addrs w))"
proof (induction addrs arbitrary: e w)
  case Nil
  then show ?case by (simp add: fetches_same)
next
  case (Cons addr addrs)
  have one: "fetches L P w v" if "open_udp addr w = (r, v)" for r v
  proof -
    from that have "lookups v = lookups w" "dialled v = dialled w @ [addr]"
      by (auto simp: open_udp_def Let_def split: list.splits open_event.splits)
    with Cons.prems show ?thesis by (simp add: fetches_def dials_def)
  qed
  from Cons show ?case
    by (auto intro: one fetches_trans [OF one] split: prod.split outcome.split)
qed

lemma lookup_before_fetches: "fetches L P w (snd (lookup_before dl w))"
proof -
  have "set (lookups (snd (lookup_before dl w))) \<subseteq> set (lookups w)"
    by (cases "lookups w") (auto simp: lookup_before_def split: outcome.splits if_splits)
  moreover have "dialled (snd (lookup_before dl w)) = dialled w"
    by (auto simp: lookup_before_def split: list.split outcome.split)
  ultimately show ?thesis by (auto simp: fetches_def dials_same)
qed

lemma lookup_before_Ok:
  "lookup_before dl w = (Ok ips, v) \<Longrightarrow> \<exists>d. (d, Found ips) \<in> set (lookups w)"
  by (auto simp: lookup_before_def split: list.splits outcome.splits if_splits lookup_event.splits)

lemma addresses_Ok:
  assumes "addresses host port dl w = (Ok addrs, v)" and "set (lookups w) \<subseteq> L"
  shows "list_all (host_address L host port) addrs"
proof (cases "parse_ip host")
  case (Some ip)
  with assms show ?thesis by (auto simp: addresses_def host_address_def)
next
  case None
  with assms obtain ips where ips: "lookup_before dl w = (Ok ips, v)" "addrs = map (\<lambda>ip. (ip, port)) ips"
    by (auto simp: addresses_def and_then_Ok)
  from lookup_before_Ok [OF ips(1)] obtain d where "(d, Found ips) \<in> set (lookups w)" by blast
  with assms(2) None ips(2) show ?thesis by (force simp: host_address_def list_all_iff)
qed

lemma addresses_fetches: "fetches L P w (snd (addresses host port dl w))"
  unfolding addresses_def
  by (auto split: option.split intro!: and_then_fetches lookup_before_fetches)

lemma connect_fetches:
  assumes "\<And>P addrs u. list_all P addrs \<Longrightarrow> fetches L P u (snd (loop addrs u))"
  shows "fetches L (host_address L host port) w (snd (and_then (addresses host port dl) loop w))"
proof (cases "set (lookups w) \<subseteq> L")
  case True
  show ?thesis
    by (rule and_then_fetches) (auto intro!: addresses_fetches assms addresses_Ok [OF _ True])
next
  case False
  then show ?thesis by (simp add: fetches_def)
qed

lemma connect_tcp_fetches: "fetches L (host_address L host port) w (snd (connect_tcp host port dl w))"
  unfolding connect_tcp_def by (rule connect_fetches) (rule connect_loop_dials)

lemma connect_udp_fetches: "fetches L (host_address L host port) w (snd (connect_udp host port dl w))"
  unfolding connect_udp_def by (rule connect_fetches) (rule open_loop_dials)


subsection \<open>What arrives in time is read\<close>

text \<open>A script that delivers data, interrupted or not, with no other failure and no end.\<close>

fun payload :: "(nat \<times> read_event) list \<Rightarrow> u8 list" where
  "payload [] = []"
| "payload ((_, Arrives bs) # evs) = bs @ payload evs"
| "payload ((_, Read_Fails _) # evs) = payload evs"

fun steady :: "(nat \<times> read_event) list \<Rightarrow> bool" where
  "steady [] = True"
| "steady ((_, Arrives bs) # evs) = (bs \<noteq> [] \<and> steady evs)"
| "steady ((_, Read_Fails k) # evs) = (k = K_Interrupted \<and> steady evs)"

definition delays :: "(nat \<times> 'e) list \<Rightarrow> nat" where
  "delays evs = sum_list (map fst evs)"

lemma delays_simps [simp]: "delays [] = 0" "delays (e # evs) = fst e + delays evs"
  by (simp_all add: delays_def)

text \<open>What reading leaves of the network: the rest of the script, as far into it as time has passed.\<close>

definition reads_on ::
  "'w net_scheme \<Rightarrow> (nat \<times> read_event) list \<Rightarrow> 'w net_scheme \<Rightarrow> (nat \<times> read_event) list \<Rightarrow>
     (nat \<times> read_event) list \<Rightarrow> bool" where
  "reads_on w evs w' evs' later \<longleftrightarrow> steady evs' \<and> incoming w' = evs' @ later
     \<and> clock w' + delays evs' = clock w + delays evs
     \<and> outgoing w' = outgoing w \<and> accepts w' = accepts w"

lemma deadline_read_steady:
  assumes "steady evs" and "incoming w = evs @ later" and "clock w + delays evs < dl_at dl"
    and "payload evs \<noteq> []" and "0 < n"
  shows "\<exists>bs w' evs'. deadline_read dl n w = (Ok bs, w') \<and> bs \<noteq> [] \<and> length bs \<le> n
    \<and> payload evs = bs @ payload evs' \<and> reads_on w evs w' evs' later"
  using assms
proof (induction evs arbitrary: w rule: steady.induct)
  case 1
  then show ?case by simp
next
  case (2 d bs evs)
  then have left: "io_left dl (clock w) = Ok (dl_at dl - clock w)" "\<not> dl_at dl - clock w \<le> d"
    by (auto simp: io_left_Ok_iff)
  show ?case
  proof (cases "length bs \<le> n")
    case True
    with 2 left show ?thesis
      by (simp add: deadline_read.simps [of dl n w] socket_read_def reads_on_def)
  next
    case False
    let ?w' = "w\<lparr>clock := clock w + d, incoming := (0, Arrives (drop n bs)) # evs @ later\<rparr>"
    have "deadline_read dl n w = (Ok (take n bs), ?w')"
      using 2 left False by (simp add: deadline_read.simps [of dl n w] socket_read_def)
    moreover have "reads_on w ((d, Arrives bs) # evs) ?w' ((0, Arrives (drop n bs)) # evs) later"
      using 2(2) False by (simp add: reads_on_def)
    ultimately show ?thesis
      using False 2(6) by (intro exI [of _ "take n bs"] exI [of _ ?w'] exI [of _ "(0, Arrives (drop n bs)) # evs"])
        auto
  qed
next
  case (3 d k evs)
  then have left: "io_left dl (clock w) = Ok (dl_at dl - clock w)" "\<not> dl_at dl - clock w \<le> d"
    by (auto simp: io_left_Ok_iff)
  let ?w = "w\<lparr>clock := clock w + d, incoming := evs @ later\<rparr>"
  have step: "deadline_read dl n w = deadline_read dl n ?w"
    using 3 left by (simp add: deadline_read.simps [of dl n w] socket_read_def)
  have "\<exists>bs w' evs'. deadline_read dl n ?w = (Ok bs, w') \<and> bs \<noteq> [] \<and> length bs \<le> n
      \<and> payload evs = bs @ payload evs' \<and> reads_on ?w evs w' evs' later"
    by (rule "3.IH") (use 3 in \<open>simp_all add: add.assoc\<close>)
  then show ?case
    unfolding step by (simp add: reads_on_def add.assoc)
qed

lemma reads_on_trans:
  "reads_on u es v es' later \<Longrightarrow> reads_on v es' w es'' later \<Longrightarrow> reads_on u es w es'' later"
  by (simp add: reads_on_def)

lemma stream_read_exact_steady:
  assumes "steady evs" and "incoming w = evs @ later" and "clock w + delays evs < dl_at dl"
    and "n \<le> length (payload evs)"
  shows "\<exists>w' evs'. stream_read_exact dl n w = (Ok (take n (payload evs)), w')
    \<and> payload evs' = drop n (payload evs) \<and> reads_on w evs w' evs' later"
  using assms
proof (induction n arbitrary: w evs rule: less_induct)
  case (less n)
  show ?case
  proof (cases "n = 0")
    case True
    with less.prems show ?thesis
      by (intro exI [of _ w] exI [of _ evs]) (simp add: stream_read_exact.simps [of dl 0 w] reads_on_def)
  next
    case False
    with less.prems have "payload evs \<noteq> []" "0 < n" by auto
    from deadline_read_steady [OF less.prems(1-3) this] obtain bs v es where
      read: "deadline_read dl n w = (Ok bs, v)" "bs \<noteq> []" "length bs \<le> n"
      "payload evs = bs @ payload es" "reads_on w evs v es later" by blast
    have "\<exists>w' evs'. stream_read_exact dl (n - length bs) v = (Ok (take (n - length bs) (payload es)), w')
        \<and> payload evs' = drop (n - length bs) (payload es) \<and> reads_on v es w' evs' later"
      by (rule less.IH) (use read less.prems False in \<open>auto simp: reads_on_def\<close>)
    then obtain w' evs' where
      rest: "stream_read_exact dl (n - length bs) v = (Ok (take (n - length bs) (payload es)), w')"
      "payload evs' = drop (n - length bs) (payload es)" "reads_on v es w' evs' later" by blast
    have "stream_read_exact dl n w = (Ok (take n (payload evs)), w')"
      using False read rest by (simp add: stream_read_exact.simps [of dl n w])
    moreover have "payload evs' = drop n (payload evs)" using read rest by simp
    ultimately show ?thesis using reads_on_trans [OF read(5) rest(3)] by blast
  qed
qed

text \<open>A stream that ends before enough has arrived.\<close>

lemma deadline_read_end:
  assumes "steady evs" and "payload evs = []" and "incoming w = evs @ (d, Arrives []) # later"
    and "clock w + delays evs + d < dl_at dl"
  shows "\<exists>w'. deadline_read dl n w = (Ok [], w')"
  using assms
proof (induction evs arbitrary: w rule: steady.induct)
  case 1
  then show ?case by (simp add: deadline_read.simps [of dl n w] socket_read_def io_left_def Let_def)
next
  case (3 e k evs)
  then have left: "io_left dl (clock w) = Ok (dl_at dl - clock w)" "\<not> dl_at dl - clock w \<le> e"
    by (auto simp: io_left_Ok_iff)
  let ?w = "w\<lparr>clock := clock w + e, incoming := evs @ (d, Arrives []) # later\<rparr>"
  have "deadline_read dl n w = deadline_read dl n ?w"
    using 3 left by (simp add: deadline_read.simps [of dl n w] socket_read_def)
  moreover have "\<exists>w'. deadline_read dl n ?w = (Ok [], w')"
    by (rule "3.IH") (use 3 in \<open>simp_all add: add.assoc\<close>)
  ultimately show ?case by simp
qed simp

lemma stream_read_exact_end:
  assumes "steady evs" and "incoming w = evs @ (d, Arrives []) # later"
    and "clock w + delays evs + d < dl_at dl" and "length (payload evs) < n"
  shows "\<exists>w'. stream_read_exact dl n w = (Err K_UnexpectedEof, w')"
  using assms
proof (induction n arbitrary: w evs rule: less_induct)
  case (less n)
  show ?case
  proof (cases "payload evs = []")
    case True
    with less.prems deadline_read_end [of evs w d later dl n] show ?thesis
      by (auto simp: stream_read_exact.simps [of dl n w])
  next
    case False
    from less.prems have pos: "0 < n" by simp
    have early: "clock w + delays evs < dl_at dl" using less.prems(3) by simp
    obtain bs v es where
      read: "deadline_read dl n w = (Ok bs, v)" "bs \<noteq> []" "length bs \<le> n"
      "payload evs = bs @ payload es" "reads_on w evs v es ((d, Arrives []) # later)"
      using deadline_read_steady [OF less.prems(1,2) early False pos] by blast
    have "\<exists>w'. stream_read_exact dl (n - length bs) v = (Err K_UnexpectedEof, w')"
      by (rule less.IH [of _ es]) (use read less.prems in \<open>auto simp: reads_on_def\<close>)
    with read pos show ?thesis by (auto simp: stream_read_exact.simps [of dl n w])
  qed
qed

text \<open>A socket that takes everything.\<close>

lemma stream_write_all_free:
  assumes "accepts w = []" and "clock w < dl_at dl"
  shows "stream_write_all dl bs w = (Ok (), w\<lparr>outgoing := outgoing w @ bs\<rparr>)"
proof (cases "bs = []")
  case True
  then show ?thesis by (simp add: stream_write_all.simps)
next
  case False
  with assms have "deadline_write dl bs w = (Ok (length bs), w\<lparr>outgoing := outgoing w @ bs\<rparr>)"
    by (simp add: deadline_write.simps [of dl bs w] socket_write_def io_left_def Let_def)
  with False show ?thesis
    by (simp add: stream_write_all.simps [of dl bs w] stream_write_all.simps [of dl "[]"])
qed

end
