(* ===== verification/Transport.thy ===== *)
theory Transport
  imports Net
begin

text \<open>
  The transports (\<open>dns-transport/src/\<close>: \<open>tcp.rs\<close>, \<open>udp.rs\<close>, \<open>auto.rs\<close>, \<open>failover.rs\<close>, the
  trait \<open>Transport\<close> of \<open>lib.rs\<close>). A transport takes a request and the state of the outside
  world, and returns what came of it with the state after. The trait is an interface with one
  promise, that what is returned answers the request, which the transports built on others
  keep because those do.
\<close>

type_synonym 'w transport = "Request \<Rightarrow> 'w \<Rightarrow> (Error, Response) outcome \<times> 'w"


subsection \<open>TCP\<close>

definition prefix_with_length :: "u8 list \<Rightarrow> (Error, u8 list) outcome" where
  "prefix_with_length message =
     (if length message < 65536 then Ok (be_bytes16 (word_of_nat (length message)) @ message)
      else Err (E_NetworkError K_InvalidInput))"

definition read_fully ::
  "Deadline \<Rightarrow> nat \<Rightarrow> 'w net_scheme \<Rightarrow> (Error, u8 list) outcome \<times> 'w net_scheme" where
  "read_fully dl n w =
     (case stream_read_exact dl n w of
        (r, w') \<Rightarrow>
          (map_err (\<lambda>e. if e = K_UnexpectedEof then E_TruncatedResponse else io_error e (dl_timeout dl)) r,
           w'))"

definition length_prefixed_read ::
  "Deadline \<Rightarrow> 'w net_scheme \<Rightarrow> (Error, u8 list) outcome \<times> 'w net_scheme" where
  "length_prefixed_read dl =
     and_then (read_fully dl 2) (\<lambda>len. read_fully dl (unat (be16 (len ! 0) (len ! 1))))"

text \<open>What a transport does with the bytes of a message: parse them, and check the response.\<close>

definition checked_response :: "Request \<Rightarrow> u8 list \<Rightarrow> (Error, Response) outcome" where
  "checked_response request bytes =
     bind_outcome (map_err E_WireError (response_from_bytes bytes)) (\<lambda>response.
     bind_outcome (map_err E_MismatchedResponse (check_response request response)) (\<lambda>_.
     Ok response))"

definition request_bytes :: "Request \<Rightarrow> (Error, u8 list) outcome" where
  "request_bytes request = map_err (\<lambda>_. E_NetworkError K_InvalidInput) (request_to_bytes request)"

text \<open>\<open>write_all\<close>, with its error made one of the transport's. Flushing does nothing to a socket.\<close>

definition write_fully :: "Deadline \<Rightarrow> u8 list \<Rightarrow> 'w net_scheme \<Rightarrow> (Error, unit) outcome \<times> 'w net_scheme" where
  "write_fully dl bs w =
     (case stream_write_all dl bs w of (r, w') \<Rightarrow> (map_err (\<lambda>e. io_error e (dl_timeout dl)) r, w'))"

definition exchange :: "Deadline \<Rightarrow> 'w net_scheme transport" where
  "exchange dl request =
     and_then (just (bind_outcome (request_bytes request) prefix_with_length)) (\<lambda>bytes_to_send.
     and_then (write_fully dl bytes_to_send) (\<lambda>_.
     and_then (length_prefixed_read dl) (\<lambda>read_bytes.
     just (checked_response request read_bytes))))"

text \<open>The host and port of a nameserver's address, as every transport but HTTPS takes them apart.\<close>

definition nameserver :: "string \<Rightarrow> u16 \<Rightarrow> (Error, string \<times> u16) outcome" where
  "nameserver addr default_port = map_err (\<lambda>e. E_InvalidNameserver (Inl e)) (parse_host_port addr default_port)"

definition tcp_send :: "string \<Rightarrow> nat \<Rightarrow> 'w world_scheme transport" where
  "tcp_send addr timeout request w =
     (let dl = deadline_after (clock w) timeout in
      and_then (just (nameserver addr 53)) (\<lambda>(host, port).
      and_then (connect_tcp host port dl) (\<lambda>_.
      exchange dl request)) w)"


subsection \<open>UDP\<close>

definition carries_txid :: "u8 list \<Rightarrow> u16 \<Rightarrow> bool" where
  "carries_txid datagram txid = (2 \<le> length datagram \<and> take 2 datagram = be_bytes16 txid)"

definition accept :: "Request \<Rightarrow> u8 list \<Rightarrow> (Error, Response option) outcome" where
  "accept request datagram =
     (case response_from_bytes datagram of
        Ok response \<Rightarrow>
          (case check_response request response of
             Ok _ \<Rightarrow> Ok (Some response)
           | Err mismatch \<Rightarrow> Ok None
           | Panic \<Rightarrow> Panic)
      | Err e \<Rightarrow>
          if carries_txid datagram (req_transaction_id request) then Err (E_WireError e) else Ok None
      | Panic \<Rightarrow> Panic)"

text \<open>
  \<open>receive\<close>: the datagrams that will arrive, each with the delay before it, are the script of
  the socket. A datagram too long for the buffer of 65535 bytes is cut by the socket.
\<close>

fun receive ::
  "Request \<Rightarrow> Deadline \<Rightarrow> (nat \<times> datagram_event) list \<Rightarrow> nat \<Rightarrow> (Error, Response) outcome \<times> nat" where
  "receive request dl [] now =
     (case deadline_left dl now of
        Err e \<Rightarrow> (Err e, now)
      | Panic \<Rightarrow> (Panic, now)
      | Ok left \<Rightarrow> (Err (io_error K_WouldBlock (dl_timeout dl)), now + left))"
| "receive request dl ((delay, ev) # evs) now =
     (case deadline_left dl now of
        Err e \<Rightarrow> (Err e, now)
      | Panic \<Rightarrow> (Panic, now)
      | Ok left \<Rightarrow>
          if left \<le> delay then (Err (io_error K_WouldBlock (dl_timeout dl)), now + left)
          else
            (case ev of
               Datagram bytes \<Rightarrow>
                 (case accept request (take 65535 bytes) of
                    Ok (Some response) \<Rightarrow> (Ok response, now + delay)
                  | Ok None \<Rightarrow> receive request dl evs (now + delay)
                  | Err e \<Rightarrow> (Err e, now + delay)
                  | Panic \<Rightarrow> (Panic, now + delay))
             | Recv_Fails k \<Rightarrow>
                 if k = K_Interrupted then receive request dl evs (now + delay)
                 else (Err (io_error k (dl_timeout dl)), now + delay)))"


text \<open>\<open>send\<close> on the connected socket: the datagram is sent whole, or not at all.\<close>

definition socket_send :: "nat \<Rightarrow> u8 list \<Rightarrow> 'w world_scheme \<Rightarrow> (Error, unit) outcome \<times> 'w world_scheme" where
  "socket_send timeout bs w =
     (case send_fails w of
        Some k \<Rightarrow> (Err (io_error k timeout), w)
      | None \<Rightarrow> (Ok (), w\<lparr>outgoing := bs\<rparr>))"

definition udp_receive :: "Deadline \<Rightarrow> 'w world_scheme transport" where
  "udp_receive dl request w =
     (case receive request dl (datagrams w) (clock w) of
        (r, now) \<Rightarrow> (r, w\<lparr>clock := now, datagrams := []\<rparr>))"

definition udp_send :: "string \<Rightarrow> nat \<Rightarrow> 'w world_scheme transport" where
  "udp_send addr timeout request w =
     (let dl = deadline_after (clock w) timeout in
      and_then (just (nameserver addr 53)) (\<lambda>(host, port).
      and_then (connect_udp host port dl) (\<lambda>_.
      and_then (just (request_bytes request)) (\<lambda>bytes_to_send.
      and_then (socket_send timeout bytes_to_send) (\<lambda>_.
      udp_receive dl request)))) w)"


subsection \<open>Transports made of others\<close>

text \<open>The automatic transport: UDP, then TCP if the response is truncated.\<close>

definition auto_send :: "'w transport \<Rightarrow> 'w transport \<Rightarrow> 'w transport" where
  "auto_send udp tcp request =
     and_then (udp request) (\<lambda>udp_response.
       if \<not> flag_truncated (resp_flags udp_response) then just (Ok udp_response)
       else tcp request)"

definition auto_transport :: "string \<Rightarrow> nat \<Rightarrow> 'w world_scheme transport" where
  "auto_transport addr timeout = auto_send (udp_send addr timeout) (tcp_send addr timeout)"

fun failover_loop :: "Error \<Rightarrow> 'w transport list \<Rightarrow> 'w transport" where
  "failover_loop last_error [] request w = (Err last_error, w)"
| "failover_loop last_error (t # ts) request w =
     (case t request w of
        (Ok response, w') \<Rightarrow> (Ok response, w')
      | (Panic, w') \<Rightarrow> (Panic, w')
      | (Err e, w') \<Rightarrow> failover_loop e ts request w')"

definition failover_send :: "'w transport list \<Rightarrow> 'w transport" where
  "failover_send transports =
     failover_loop (E_InvalidNameserver (Inr ''There are no nameservers to send the request to'')) transports"


subsection \<open>What the trait promises\<close>

text \<open>A response that was read from a message, and that answers the request.\<close>

definition genuine :: "Request \<Rightarrow> Response \<Rightarrow> bool" where
  "genuine request response \<longleftrightarrow>
     (\<exists>bytes. response_from_bytes bytes = Ok response) \<and> answers_request request response"

text \<open>
  The interface: whatever a transport returns was read from a message and answers the request it
  was given, and it takes no longer than its limit.
\<close>

locale transport =
  fixes send :: "'w transport" and time :: "'w \<Rightarrow> nat" and limit :: nat
  assumes honest: "send request w = (Ok response, w') \<Longrightarrow> genuine request response"
    and timely: "send request w = (r, w') \<Longrightarrow> time w \<le> time w' \<and> time w' \<le> time w + limit"
begin

lemma answer_question:
  "send request w = (Ok response, w') \<Longrightarrow> resp_queries response = q # qs \<Longrightarrow>
     same_question (req_query request) q"
  by (auto dest!: honest simp: genuine_def answers_request_def same_question_iff)

end

lemma checked_response_Ok:
  "checked_response request bytes = Ok response \<longleftrightarrow>
     response_from_bytes bytes = Ok response \<and> answers_request request response"
  by (auto simp: checked_response_def bind_outcome_Ok_iff check_response_Ok_iff)

lemma exchange_honest:
  "exchange dl request w = (Ok response, w') \<Longrightarrow> genuine request response"
  by (auto simp: exchange_def and_then_Ok checked_response_Ok genuine_def)

lemma read_fully_in_time: "in_time dl w (snd (read_fully dl n w))"
  using stream_read_exact_in_time [of dl w n] by (simp add: read_fully_def case_prod_unfold)

lemma write_fully_in_time: "in_time dl w (snd (write_fully dl bs w))"
  using stream_write_all_in_time [of dl w bs] by (simp add: write_fully_def case_prod_unfold)

lemma length_prefixed_read_in_time: "in_time dl w (snd (length_prefixed_read dl w))"
  unfolding length_prefixed_read_def by (intro and_then_in_time read_fully_in_time)

lemma exchange_in_time: "in_time dl w (snd (exchange dl request w))"
  unfolding exchange_def
  by (intro and_then_in_time write_fully_in_time length_prefixed_read_in_time just_in_time)

lemma in_time_limit:
  "in_time (deadline_after (clock w) timeout) w w' \<Longrightarrow> clock w \<le> clock w' \<and> clock w' \<le> clock w + timeout"
  by (simp add: in_time_def deadline_after_def)

interpretation tcp: transport "tcp_send addr timeout" clock timeout for addr timeout
proof
  show "genuine request response"
    if "tcp_send addr timeout request w = (Ok response, w')" for request and w w' :: "'w world_scheme" and response
    using that by (auto simp: tcp_send_def Let_def and_then_Ok dest: exchange_honest)
  show "clock w \<le> clock w' \<and> clock w' \<le> clock w + timeout"
    if "tcp_send addr timeout request w = (r, w')" for request and w w' :: "'w world_scheme" and r
  proof (rule in_time_limit)
    have "in_time (deadline_after (clock w) timeout) w (snd (tcp_send addr timeout request w))"
      unfolding tcp_send_def Let_def
      by (intro and_then_in_time just_in_time) (auto intro!: and_then_in_time connect_tcp_in_time exchange_in_time)
    with that show "in_time (deadline_after (clock w) timeout) w w'" by simp
  qed
qed

lemma accept_Some:
  "accept request datagram = Ok (Some response) \<longleftrightarrow>
     response_from_bytes datagram = Ok response \<and> answers_request request response"
  by (auto simp: accept_def check_response_Ok_iff [symmetric] split: outcome.splits if_splits)

lemma receive_Ok:
  "receive request dl evs now = (Ok response, t) \<Longrightarrow> genuine request response"
proof (induction evs arbitrary: now)
  case Nil
  then show ?case by (auto split: outcome.splits)
next
  case (Cons e evs)
  then show ?case
    by (cases e) (auto simp: accept_Some genuine_def split: outcome.splits if_splits datagram_event.splits option.splits)
qed

lemma receive_in_time: "now \<le> snd (receive request dl evs now)
    \<and> snd (receive request dl evs now) \<le> max now (dl_at dl)"
proof (induction evs arbitrary: now)
  case Nil
  show ?case by (rule io_left_cases [of dl now]) (simp_all add: deadline_left_def)
next
  case (Cons e evs)
  obtain d ev where e: "e = (d, ev)" by (cases e)
  show ?case
  proof (cases rule: io_left_cases [of dl now])
    case 1
    then show ?thesis by (simp add: e deadline_left_def)
  next
    case 2
    with Cons [of "now + d"] show ?thesis
      by (auto simp: e deadline_left_def split: outcome.split datagram_event.split option.split)
  qed
qed

lemma udp_receive_in_time: "in_time dl w (snd (udp_receive dl request w))"
  using receive_in_time [of "clock w" request dl "datagrams w"]
  by (simp add: udp_receive_def in_time_def case_prod_unfold)

lemma udp_receive_honest: "udp_receive dl request w = (Ok response, w') \<Longrightarrow> genuine request response"
  by (auto simp: udp_receive_def dest: receive_Ok split: prod.splits)

lemma socket_send_in_time: "in_time dl w (snd (socket_send timeout bs w))"
  by (simp add: socket_send_def in_time_def split: option.split)

interpretation udp: transport "udp_send addr timeout" clock timeout for addr timeout
proof
  show "genuine request response"
    if "udp_send addr timeout request w = (Ok response, w')" for request and w w' :: "'w world_scheme" and response
    using that
    by (auto simp: udp_send_def Let_def and_then_Ok dest: udp_receive_honest)
  show "clock w \<le> clock w' \<and> clock w' \<le> clock w + timeout"
    if "udp_send addr timeout request w = (r, w')" for request and w w' :: "'w world_scheme" and r
  proof (rule in_time_limit)
    have "in_time (deadline_after (clock w) timeout) w (snd (udp_send addr timeout request w))"
      unfolding udp_send_def Let_def
      by (intro and_then_in_time just_in_time)
        (auto intro!: and_then_in_time connect_udp_in_time socket_send_in_time udp_receive_in_time)
    with that show "in_time (deadline_after (clock w) timeout) w w'" by simp
  qed
qed

lemma transport_auto:
  assumes "transport udp time l1" and "transport tcp time l2"
  shows "transport (auto_send udp tcp) time (l1 + l2)"
proof
  show "genuine request response"
    if "auto_send udp tcp request w = (Ok response, w')" for request w w' response
    using that by (auto simp: auto_send_def and_then_Ok split: if_splits
        dest: transport.honest [OF assms(1)] transport.honest [OF assms(2)])
  show "time w \<le> time w' \<and> time w' \<le> time w + (l1 + l2)"
    if "auto_send udp tcp request w = (r, w')" for request w w' r
    using that by (fastforce simp: auto_send_def and_then_def just_def split: outcome.splits prod.splits if_splits
        dest: transport.timely [OF assms(1)] transport.timely [OF assms(2)])
qed

lemma transport_failover:
  assumes "list_all2 (\<lambda>send limit. transport send time limit) ts limits"
  shows "transport (failover_send ts) time (sum_list limits)"
proof -
  have "transport (failover_loop e ts) time (sum_list limits)" for e
    using assms
  proof (induction ts limits arbitrary: e rule: list_all2_induct)
    case Nil
    show ?case by unfold_locales auto
  next
    case (Cons t ts l ls)
    then have rest: "transport (failover_loop e' ts) time (sum_list ls)" for e' by blast
    show ?case
    proof
      show "genuine request response"
        if "failover_loop e (t # ts) request w = (Ok response, w')" for request w w' response
        using that by (auto split: outcome.splits prod.splits
            dest: transport.honest [OF Cons(1)] transport.honest [OF rest])
      show "time w \<le> time w' \<and> time w' \<le> time w + sum_list (l # ls)"
        if "failover_loop e (t # ts) request w = (r, w')" for request w w' r
        using that by (fastforce split: outcome.splits prod.splits
            dest: transport.timely [OF Cons(1)] transport.timely [OF rest])
    qed
  qed
  then show ?thesis by (simp add: failover_send_def [abs_def])
qed

interpretation auto: transport "auto_transport addr timeout" clock "timeout + timeout" for addr timeout
  unfolding auto_transport_def
  by (rule transport_auto [OF udp.transport_axioms tcp.transport_axioms])

text \<open>Every nameserver with a transport of its own, all given the same time.\<close>

interpretation failover: transport "failover_send (map (\<lambda>addr. auto_transport addr timeout) addrs)" clock
    "sum_list (map (\<lambda>_. timeout + timeout) addrs)" for addrs timeout
  by (rule transport_failover) (simp add: list_all2_conv_all_nth auto.transport_axioms)


subsection \<open>Properties\<close>

text \<open>
  dog's transports keep their promise whatever arrives and whenever: with any nameservers,
  each asked over UDP and, if its response is truncated, over TCP, what is returned answers
  the request, and comes no later than twice the time limit for each nameserver, with looking
  up its addresses and connecting to them counted in.
\<close>

theorem failover_honest_and_timely:
  assumes "failover_send (map (\<lambda>addr. auto_transport addr timeout) addrs) request w = (r, w')"
  shows "(case r of Ok response \<Rightarrow> answers_request request response | _ \<Rightarrow> True)
    \<and> clock w' \<le> clock w + 2 * timeout * length addrs"
proof -
  have "sum_list (map (\<lambda>_. timeout + timeout) addrs) = 2 * timeout * length addrs"
    by (induction addrs) simp_all
  with failover.timely [OF assms] failover.honest [of timeout addrs request w _ w'] assms show ?thesis
    by (auto simp: genuine_def split: outcome.split)
qed

lemma failover_honest_and_timely_witness:
  "\<exists>r w'. failover_send (map (\<lambda>addr. auto_transport addr 5) [''1.1.1.1'', ''dns.example''])
      \<lparr>req_transaction_id = 0, req_flags = flags_query,
       req_query = \<lparr>query_qname = root, query_qclass = IN, query_qtype = T_NS\<rparr>, req_additional = None\<rparr>
      \<lparr>clock = 100, incoming = [], accepts = [], outgoing = [], lookups = [], connects = [], opens = [],
       datagrams = [], send_fails = None, nodelay_fails = None, dialled = []\<rparr> = (r, w')
    \<and> clock w' \<le> 120"
proof -
  let ?r = "\<lparr>req_transaction_id = 0, req_flags = flags_query,
       req_query = \<lparr>query_qname = root, query_qclass = IN, query_qtype = T_NS\<rparr>, req_additional = None\<rparr>"
  let ?w = "\<lparr>clock = 100, incoming = [], accepts = [], outgoing = [], lookups = [], connects = [], opens = [],
       datagrams = [], send_fails = None, nodelay_fails = None, dialled = []\<rparr>"
  obtain r w' where send: "failover_send (map (\<lambda>addr. auto_transport addr 5) [''1.1.1.1'', ''dns.example'']) ?r ?w = (r, w')"
    by fastforce
  with failover_honest_and_timely [OF send] show ?thesis by auto
qed

text \<open>The nameservers before the one that answers, each of which fails in turn.\<close>

fun all_fail :: "'w transport list \<Rightarrow> Request \<Rightarrow> 'w \<Rightarrow> 'w option" where
  "all_fail [] request w = Some w"
| "all_fail (t # ts) request w =
     (case t request w of (Err e, w') \<Rightarrow> all_fail ts request w' | _ \<Rightarrow> None)"

text \<open>
  C26: With several nameservers, the request goes to each in turn until one answers, and its
  answer is returned with no other asked; when none answers, the error is the last one's.
\<close>

theorem failover_send_spec:
  assumes "all_fail ts request w = Some w1"
  shows "failover_send (ts @ [t] @ later) request w =
    (case t request w1 of
       (Ok response, w2) \<Rightarrow> (Ok response, w2)
     | (Panic, w2) \<Rightarrow> (Panic, w2)
     | (Err e, w2) \<Rightarrow> if later = [] then (Err e, w2) else failover_loop e later request w2)"
proof -
  have "failover_loop e (ts @ t # later) request w = failover_loop e' (t # later) request w1" for e e'
    using assms
    by (induction ts arbitrary: w e) (auto split: outcome.splits prod.splits)
  from this [of _ "E_TruncatedResponse"] show ?thesis
    by (cases later) (simp_all add: failover_send_def split: outcome.split prod.split)
qed

lemma failover_send_spec_witness:
  "(\<lambda>req. failover_send [\<lambda>_ w. (Err (E_Timeout 5), w + 5), \<lambda>_ w. (Err E_TruncatedResponse, w + (1 :: nat))] req 0)
   = (\<lambda>_. (Err E_TruncatedResponse, 6))"
proof
  fix req :: Request
  show "failover_send [\<lambda>_ w. (Err (E_Timeout 5), w + 5), \<lambda>_ w. (Err E_TruncatedResponse, w + (1 :: nat))] req 0
    = (Err E_TruncatedResponse, 6)"
    using failover_send_spec [of "[\<lambda>_ w. (Err (E_Timeout 5), w + 5)]" req "0 :: nat" 5
        "\<lambda>_ w. (Err E_TruncatedResponse, w + 1)" "[]"]
    by simp
qed

text \<open>
  A message sent over TCP is received whole, however the network splits it and whenever the
  reads are interrupted, as long as it arrives before the deadline.
\<close>

lemma length_prefixed_read_message:
  assumes "prefix_with_length message = Ok bytes"
    and "steady evs" and "payload evs = bytes @ rest"
    and "incoming w = evs @ later" and "clock w + delays evs < dl_at dl"
  shows "\<exists>w'. length_prefixed_read dl w = (Ok message, w') \<and> outgoing w' = outgoing w
    \<and> net.more w' = net.more w"
proof -
  let ?n = "word_of_nat (length message) :: u16"
  have small: "length message < 65536" and bytes: "bytes = be_bytes16 ?n @ message"
    using assms(1) by (auto simp: prefix_with_length_def split: if_splits)
  have n: "unat ?n = length message" using small by simp
  have p: "payload evs = be_bytes16 ?n @ message @ rest" using assms(3) bytes by simp
  obtain v es where len: "stream_read_exact dl 2 w = (Ok (take 2 (payload evs)), v)"
    "payload es = drop 2 (payload evs)" "reads_on w evs v es later"
    using stream_read_exact_steady [OF assms(2,4,5), of 2] p by auto
  have two: "take 2 (payload evs) = be_bytes16 ?n" "drop 2 (payload evs) = message @ rest"
    unfolding p by simp_all
  have "be16 (be_bytes16 ?n ! 0) (be_bytes16 ?n ! 1) = ?n"
    by (simp add: be_bytes16_def be16_be_bytes16)
  moreover obtain w' es' where "stream_read_exact dl (length message) v = (Ok message, w')"
    "reads_on v es w' es' later"
    using stream_read_exact_steady [of es v later dl "length message"] len two assms(5)
    by (auto simp: reads_on_def)
  ultimately show ?thesis
    using len n two stream_read_exact_more [of dl 2 w] stream_read_exact_more [of dl "length message" v] by (auto simp: length_prefixed_read_def and_then_def read_fully_def reads_on_def)
qed

lemma tcp_send_connected:
  fixes w :: "'w world_scheme"
  assumes "parse_host_port addr 53 = Ok (host, port)" and "parse_ip host = Some ip"
    and "request_to_bytes request = Ok bs" and "length bs < 65536"
    and "connects w = (d, Connects None evs []) # others" and "d < timeout"
  obtains u where "tcp_send addr timeout request w =
      and_then (length_prefixed_read (deadline_after (clock w) timeout))
        (\<lambda>read_bytes. just (checked_response request read_bytes)) u"
    and "clock u = clock w + d" and "incoming u = evs" and "accepts u = []"
    and "outgoing u = be_bytes16 (word_of_nat (length bs)) @ bs" and "dialled u = dialled w @ [(ip, port)]"
proof -
  let ?dl = "deadline_after (clock w) timeout"
  let ?sent = "be_bytes16 (word_of_nat (length bs)) @ bs"
  let ?v = "w\<lparr>dialled := dialled w @ [(ip, port)], clock := clock w + d, connects := others,
              incoming := evs, accepts := [], outgoing := [], nodelay_fails := None\<rparr>"
  let ?u = "?v\<lparr>outgoing := ?sent\<rparr>"
  have connect: "connect_tcp host port ?dl w = (Ok (), ?v)"
    using assms(2,5,6)
    by (simp add: connect_tcp_def addresses_def deadline_left_def io_left_def deadline_after_def
        socket_connect_def Let_def configure_stream_def)
  have early: "clock ?v < dl_at ?dl" using assms(6) by (simp add: deadline_after_def)
  have wrote: "write_fully ?dl ?sent ?v = (Ok (), ?u)"
    using stream_write_all_free [of ?v ?dl ?sent] early by (simp add: write_fully_def)
  have "tcp_send addr timeout request w = and_then (connect_tcp host port ?dl) (\<lambda>_. exchange ?dl request) w"
    using assms(1) by (simp add: tcp_send_def nameserver_def Let_def)
  also have "\<dots> = exchange ?dl request ?v" using connect by (simp add: and_then_def)
  also have "\<dots> = and_then (write_fully ?dl ?sent) (\<lambda>_. and_then (length_prefixed_read ?dl)
      (\<lambda>read_bytes. just (checked_response request read_bytes))) ?v"
    using assms(3,4) by (simp add: exchange_def request_bytes_def prefix_with_length_def)
  also have "\<dots> = and_then (length_prefixed_read ?dl) (\<lambda>read_bytes. just (checked_response request read_bytes)) ?u"
    using wrote by (simp add: and_then_def)
  finally show ?thesis by (rule that) simp_all
qed

lemma tcp_send_checked:
  fixes w :: "'w world_scheme"
  assumes "parse_host_port addr 53 = Ok (host, port)" and "parse_ip host = Some ip"
    and "request_to_bytes request = Ok bs" and "length bs < 65536"
    and "connects w = (d, Connects None (evs @ later) []) # others"
    and "prefix_with_length message = Ok bytes" and "steady evs" and "payload evs = bytes @ rest"
    and "d + delays evs < timeout"
  shows "\<exists>w'. tcp_send addr timeout request w = (checked_response request message, w')
    \<and> outgoing w' = be_bytes16 (word_of_nat (length bs)) @ bs \<and> dialled w' = dialled w @ [(ip, port)]"
proof -
  let ?dl = "deadline_after (clock w) timeout"
  have early: "d < timeout" using assms(9) by simp
  from tcp_send_connected [OF assms(1-5) early] obtain u where
    u: "tcp_send addr timeout request w = and_then (length_prefixed_read ?dl)
        (\<lambda>read_bytes. just (checked_response request read_bytes)) u"
      "clock u = clock w + d" "incoming u = evs @ later"
      "outgoing u = be_bytes16 (word_of_nat (length bs)) @ bs" "dialled u = dialled w @ [(ip, port)]"
    by blast
  have "clock u + delays evs < dl_at ?dl" using u(2) assms(9) by (simp add: deadline_after_def)
  from length_prefixed_read_message [OF assms(6,7,8) u(3) this] obtain w' where
    read: "length_prefixed_read ?dl u = (Ok message, w')" "outgoing w' = outgoing u" "net.more w' = net.more u"
    by blast
  have "dialled w' = dialled u" using read(3) by (cases u, cases w') simp
  with u read show ?thesis by (simp add: and_then_def just_def)
qed

lemma tcp_send_succeeds:
  fixes w :: "'w world_scheme"
  assumes "parse_host_port addr 53 = Ok (host, port)" and "parse_ip host = Some ip"
    and "request_to_bytes request = Ok bs" and "length bs < 65536"
    and "connects w = (d, Connects None (evs @ later) []) # others"
    and "prefix_with_length message = Ok bytes" and "steady evs" and "payload evs = bytes @ rest"
    and "d + delays evs < timeout"
    and "response_from_bytes message = Ok response" and "answers_request request response"
  shows "\<exists>w'. tcp_send addr timeout request w = (Ok response, w')
    \<and> outgoing w' = be_bytes16 (word_of_nat (length bs)) @ bs \<and> dialled w' = dialled w @ [(ip, port)]"
  using tcp_send_checked [OF assms(1-9)] assms(10,11) checked_response_Ok [of request message response] by simp

text \<open>
  C24: A query over TCP succeeds whenever it can: if the server's address is in the nameserver's,
  the server accepts the connection and sends a response that answers the request, cut up and
  interrupted in any way but before the time is up, the response is returned; and the server,
  and nothing else, was connected to, and was sent the request and its length.
\<close>

theorem tcp_send_answers:
  fixes w :: "'w world_scheme"
  assumes "parse_host_port addr 53 = Ok (host, port)" and "parse_ip host = Some ip"
    and "request_to_bytes request = Ok bs" and "length bs < 65536"
    and "connects w = (d, Connects None (evs @ later) []) # others"
    and "prefix_with_length message = Ok bytes" and "steady evs" and "payload evs = bytes @ rest"
    and "d + delays evs < timeout"
    and "response_from_bytes message = Ok response" and "answers_request request response"
  shows "\<exists>w'. tcp_send addr timeout request w = (Ok response, w')
    \<and> outgoing w' = be_bytes16 (word_of_nat (length bs)) @ bs \<and> dialled w' = dialled w @ [(ip, port)]"
  using assms by (rule tcp_send_succeeds)

text \<open>A query for the examples, the refusal that answers it, and a nameserver's address.\<close>

abbreviation query_7 :: Request where
  "query_7 \<equiv> \<lparr>req_transaction_id = 7, req_flags = flags_query,
     req_query = \<lparr>query_qname = root, query_qclass = IN, query_qtype = T_NS\<rparr>, req_additional = None\<rparr>"

abbreviation refusal_7 :: "u8 list" where
  "refusal_7 \<equiv> [0, 7, 0x80, 5, 0, 0, 0, 0, 0, 0, 0, 0]"

lemma refusal_answers:
  obtains response where "response_from_bytes refusal_7 = Ok response" and "answers_request query_7 response"
proof -
  obtain response where parse: "response_from_bytes refusal_7 = Ok response"
    and fields: "resp_transaction_id response = 7" "flag_response (resp_flags response)"
      "flag_error_code (resp_flags response) = Some QueryRefused" "resp_queries response = []"
    by (simp add: response_from_bytes_def read_response_def read_counts_def bind_def ret_def read_u16_def
        read_exact_def read_section_def be16_def Let_def extended_rcode_def find_map_def flags_from_u16_def
        error_code_from_bits_def bit_numeral_rec List.map_filter_simps)
  then show ?thesis using that by (simp add: answers_request_def)
qed

lemma tcp_send_answers_witness:
  "\<exists>response w'. tcp_send ''1.1.1.1'' 10 query_7
      \<lparr>clock = 100, incoming = [], accepts = [], outgoing = [], lookups = [],
       connects = [(1, Connects None [(2, Arrives [0]), (1, Arrives [12, 0, 7, 0x80, 5, 0, 0, 0, 0, 0, 0, 0, 0])] [])],
       opens = [], datagrams = [], send_fails = None, nodelay_fails = None, dialled = []\<rparr>
    = (Ok response, w') \<and> dialled w' = [(V4 [1, 1, 1, 1], 53)]"
proof -
  let ?es = "[(2, Arrives [0]), (1, Arrives [12, 0, 7, 0x80, 5, 0, 0, 0, 0, 0, 0, 0, 0])]"
  let ?w = "\<lparr>clock = 100, incoming = [], accepts = [], outgoing = [], lookups = [],
       connects = [(1, Connects None ?es [])], opens = [], datagrams = [], send_fails = None, nodelay_fails = None, dialled = []\<rparr>"
  obtain response where response: "response_from_bytes refusal_7 = Ok response" "answers_request query_7 response"
    using refusal_answers .
  obtain bs where bs: "request_to_bytes query_7 = Ok bs" "length bs < 65536"
    by (simp add: request_to_bytes_def write_labels_def root_def Let_def be_bytes16_def)
  have "\<exists>w'. tcp_send ''1.1.1.1'' 10 query_7 ?w = (Ok response, w')
    \<and> outgoing w' = be_bytes16 (word_of_nat (length bs)) @ bs \<and> dialled w' = dialled ?w @ [(V4 [1, 1, 1, 1], 53)]"
    by (rule tcp_send_answers [OF parse_ip_host_port [OF parse_ip_1111] parse_ip_1111 bs, of ?w 1 ?es "[]" "[]" refusal_7 "[0, 12] @ refusal_7" "[]"])
      (use response in \<open>simp_all add: prefix_with_length_def be_bytes16_def\<close>)
  then show ?thesis by auto
qed

text \<open>
  A TCP stream that ends before the whole message is reported as a truncated response,
  wherever it ends, and never as a shorter message.
\<close>

theorem tcp_message_cut_short:
  assumes "prefix_with_length message = Ok bytes"
    and "steady evs" and "payload evs = take k bytes" and "k < length bytes"
    and "incoming w = evs @ (d, Arrives []) # later" and "clock w + delays evs + d < dl_at dl"
  shows "\<exists>w'. length_prefixed_read dl w = (Err E_TruncatedResponse, w')"
proof -
  let ?n = "word_of_nat (length message) :: u16"
  have small: "length message < 65536" and bytes: "bytes = be_bytes16 ?n @ message"
    using assms(1) by (auto simp: prefix_with_length_def split: if_splits)
  have n: "unat ?n = length message" using small by simp
  show ?thesis
  proof (cases "k < 2")
    case True
    then have "length (payload evs) < 2" using assms(3) by simp
    from stream_read_exact_end [OF assms(2,5,6) this] show ?thesis
      by (auto simp: length_prefixed_read_def and_then_def read_fully_def)
  next
    case False
    have early: "clock w + delays evs < dl_at dl" using assms(6) by simp
    from False have p: "payload evs = be_bytes16 ?n @ take (k - 2) message"
      using assms(3) bytes by simp
    obtain v es where len: "stream_read_exact dl 2 w = (Ok (take 2 (payload evs)), v)"
      "payload es = drop 2 (payload evs)" "reads_on w evs v es ((d, Arrives []) # later)"
      using stream_read_exact_steady [OF assms(2,5) early, of 2] p by auto
    have two: "take 2 (payload evs) = be_bytes16 ?n" "drop 2 (payload evs) = take (k - 2) message"
      unfolding p by simp_all
    have "be16 (be_bytes16 ?n ! 0) (be_bytes16 ?n ! 1) = ?n"
      by (simp add: be_bytes16_def be16_be_bytes16)
    moreover have "k - 2 < length message" using assms(4) bytes False by simp
    then obtain w' where "stream_read_exact dl (length message) v = (Err K_UnexpectedEof, w')"
      using stream_read_exact_end [of es v d later dl "length message"] len two assms(6)
      by (auto simp: reads_on_def)
    ultimately show ?thesis
      using len n two by (auto simp: length_prefixed_read_def and_then_def read_fully_def)
  qed
qed

lemma tcp_message_cut_short_witness:
  "\<exists>w'. length_prefixed_read \<lparr>dl_at = 100, dl_timeout = 100\<rparr>
     \<lparr>clock = 0, incoming = [(10, Arrives [0, 2, 7]), (5, Arrives [])], accepts = [], outgoing = []\<rparr>
     = (Err E_TruncatedResponse, w')"
  using tcp_message_cut_short [where message = "[7, 8]" and bytes = "[0, 2, 7, 8]" and k = 3
      and evs = "[(10, Arrives [0, 2, 7])]" and d = 5
      and later = "[]" and dl = "\<lparr>dl_at = 100, dl_timeout = 100\<rparr>"
      and w = "\<lparr>clock = 0, incoming = [(10, Arrives [0, 2, 7]), (5, Arrives [])], accepts = [], outgoing = []\<rparr>"]
  by (simp add: prefix_with_length_def be_bytes16_def)

text \<open>What dog waits past: a datagram that is not the answer, or an interruption.\<close>

definition stray :: "Request \<Rightarrow> datagram_event \<Rightarrow> bool" where
  "stray request ev \<longleftrightarrow>
     (case ev of
        Recv_Fails k \<Rightarrow> k = K_Interrupted
      | Datagram bytes \<Rightarrow>
          (case response_from_bytes (take 65535 bytes) of
             Ok response \<Rightarrow> \<not> answers_request request response
           | Err _ \<Rightarrow> \<not> carries_txid (take 65535 bytes) (req_transaction_id request)
           | Panic \<Rightarrow> False))"

lemma check_response_no_panic: "check_response request response \<noteq> Panic"
  by (auto simp: check_response_def split: list.splits if_splits)

lemma accept_stray:
  "stray request (Datagram bytes) \<Longrightarrow> accept request (take 65535 bytes) = Ok None"
  using check_response_no_panic
  by (auto simp: stray_def accept_def check_response_Ok_iff split: outcome.splits)

lemma receive_finds:
  assumes "\<forall>(d, ev) \<in> set strays. stray request ev"
    and "response_from_bytes (take 65535 bytes) = Ok response" and "answers_request request response"
    and "now + delays strays + d < dl_at dl"
  shows "receive request dl (strays @ (d, Datagram bytes) # later) now = (Ok response, now + delays strays + d)"
  using assms
proof (induction strays arbitrary: now)
  case Nil
  then have "deadline_left dl now = Ok (dl_at dl - now)"
    by (simp add: deadline_left_def io_left_Ok_iff)
  with Nil show ?case
    using accept_Some [of request "take 65535 bytes" response] by simp
next
  case (Cons e strays)
  obtain d' ev where e: "e = (d', ev)" by (cases e)
  from Cons.prems have left: "deadline_left dl now = Ok (dl_at dl - now)"
    by (simp add: e deadline_left_def io_left_Ok_iff)
  have rest: "receive request dl (strays @ (d, Datagram bytes) # later) (now + d')
      = (Ok response, now + d' + delays strays + d)"
    by (rule Cons.IH) (use Cons.prems in \<open>auto simp: e add.assoc\<close>)
  from Cons.prems have stray: "stray request ev" by (simp add: e)
  show ?case
  proof (cases ev)
    case (Datagram b)
    with accept_stray [of request b] stray Cons.prems left rest show ?thesis
      by (simp add: e add.assoc)
  next
    case (Recv_Fails k)
    with stray have "k = K_Interrupted" by (simp add: stray_def)
    with Recv_Fails Cons.prems left rest show ?thesis by (simp add: e add.assoc)
  qed
qed

text \<open>
  Over UDP, late answers to other queries, forgeries and noise do not change what is
  returned: the answer is found after any number of datagrams that are not it, if it arrives
  before the deadline.
\<close>

theorem receive_past_strays:
  assumes "\<forall>(d, ev) \<in> set strays. stray request ev"
    and "response_from_bytes (take 65535 bytes) = Ok response" and "answers_request request response"
    and "now + delays strays + d < dl_at dl"
  shows "receive request dl (strays @ (d, Datagram bytes) # later) now = (Ok response, now + delays strays + d)"
  using assms by (rule receive_finds)

lemma receive_past_strays_witness:
  "\<exists>response. receive query_7 \<lparr>dl_at = 10, dl_timeout = 10\<rparr>
      [(1, Datagram [9]), (2, Recv_Fails K_Interrupted), (3, Datagram refusal_7)] 0 = (Ok response, 6)"
proof -
  obtain response where response: "response_from_bytes refusal_7 = Ok response" "answers_request query_7 response"
    using refusal_answers .
  have "stray query_7 (Datagram [9])" "stray query_7 (Recv_Fails K_Interrupted)"
    by (simp_all add: stray_def response_from_bytes_def read_response_def bind_def read_u16_def
        read_exact_def carries_txid_def)
  then have "receive query_7 \<lparr>dl_at = 10, dl_timeout = 10\<rparr>
      ([(1, Datagram [9]), (2, Recv_Fails K_Interrupted)] @ (3, Datagram refusal_7) # []) 0 = (Ok response, 0 + 3 + 3)"
    using receive_past_strays [of "[(1, Datagram [9]), (2, Recv_Fails K_Interrupted)]" query_7 refusal_7 response 0 3
        "\<lparr>dl_at = 10, dl_timeout = 10\<rparr>" "[]"] response
    by simp
  then show ?thesis by simp
qed

subsection \<open>What the transports connect to\<close>

text \<open>The addresses that a nameserver stands for, with the name lookups in store.\<close>

definition nameserver_address :: "(nat \<times> lookup_event) set \<Rightarrow> string \<Rightarrow> SocketAddr \<Rightarrow> bool" where
  "nameserver_address store addr a \<longleftrightarrow>
     (\<exists>host port. parse_host_port addr 53 = Ok (host, port) \<and> host_address store host port a)"

lemma nameserver_Ok:
  "nameserver addr dflt = Ok (host, port) \<longleftrightarrow> parse_host_port addr dflt = Ok (host, port)"
  by (simp add: nameserver_def map_err_Ok_iff)

lemma exchange_more:
  fixes w :: "'w world_scheme"
  shows "fetches L P w (snd (exchange dl request w))"
proof -
  have "fetches L P u (snd (write_fully dl bs u))" for bs and u :: "'w world_scheme"
    using stream_write_all_more [of dl bs u]
    by (intro fetches_more) (simp add: write_fully_def case_prod_unfold)
  moreover have "fetches L P u (snd (read_fully dl n u))" for n and u :: "'w world_scheme"
    using stream_read_exact_more [of dl n u]
    by (intro fetches_more) (simp add: read_fully_def case_prod_unfold)
  ultimately show ?thesis
    unfolding exchange_def length_prefixed_read_def
    by (intro and_then_fetches just_fetches) blast+
qed

lemma tcp_send_fetches: "fetches L (nameserver_address L addr) w (snd (tcp_send addr timeout request w))"
  unfolding tcp_send_def Let_def
  by (rule and_then_fetches)
    (auto simp: nameserver_Ok nameserver_address_def
      intro!: and_then_fetches fetches_mono [OF connect_tcp_fetches] exchange_more)

lemma udp_send_fetches: "fetches L (nameserver_address L addr) w (snd (udp_send addr timeout request w))"
proof -
  have "fetches L P u (snd (socket_send timeout bs u))" "fetches L P u (snd (udp_receive dl request u))"
    for P bs dl and u :: "'w world_scheme"
    by (simp_all add: socket_send_def udp_receive_def fetches_same case_prod_unfold split: option.split)
  then show ?thesis
    unfolding udp_send_def Let_def
    by (intro and_then_fetches just_fetches)
      (auto simp: nameserver_Ok nameserver_address_def
        intro!: and_then_fetches fetches_mono [OF connect_udp_fetches])
qed

lemma failover_loop_fetches:
  assumes "\<And>t request w. t \<in> set ts \<Longrightarrow> fetches L P w (snd (t request w))"
  shows "fetches L P w (snd (failover_loop e ts request w))"
  using assms
proof (induction ts arbitrary: e w)
  case Nil
  then show ?case by (simp add: fetches_same)
next
  case (Cons t ts)
  obtain r v where r: "t request w = (r, v)" by fastforce
  with Cons.prems [where t = t and request = request and w = w] have "fetches L P w v" by simp
  with r Cons show ?case by (cases r) (auto intro: fetches_trans)
qed



end
