(* ===== verification/Utf8.thy ===== *)
theory Utf8
  imports Ip_Addr
begin

text \<open>
  Bytes as text: \<open>str::from_utf8\<close>, and the white space around a number, as Rust's standard
  library has them.
\<close>

definition continuation :: "u8 \<Rightarrow> bool" where
  "continuation b = (0x80 \<le> b \<and> b \<le> 0xBF)"

text \<open>The well-formed sequences of UTF-8 (the Unicode Standard, table 3-7).\<close>

fun is_utf8 :: "u8 list \<Rightarrow> bool" where
  "is_utf8 [] = True"
| "is_utf8 (a # s) =
     (if a < 0x80 then is_utf8 s
      else
        (case s of
           [] \<Rightarrow> False
         | b # s1 \<Rightarrow>
             if 0xC2 \<le> a \<and> a \<le> 0xDF then continuation b \<and> is_utf8 s1
             else
               (case s1 of
                  [] \<Rightarrow> False
                | c # s2 \<Rightarrow>
                    if (a = 0xE0 \<and> 0xA0 \<le> b \<and> b \<le> 0xBF)
                       \<or> (((0xE1 \<le> a \<and> a \<le> 0xEC) \<or> a = 0xEE \<or> a = 0xEF) \<and> continuation b)
                       \<or> (a = 0xED \<and> 0x80 \<le> b \<and> b \<le> 0x9F)
                    then continuation c \<and> is_utf8 s2
                    else
                      (case s2 of
                         [] \<Rightarrow> False
                       | d # s3 \<Rightarrow>
                           ((a = 0xF0 \<and> 0x90 \<le> b \<and> b \<le> 0xBF)
                            \<or> (0xF1 \<le> a \<and> a \<le> 0xF3 \<and> continuation b)
                            \<or> (a = 0xF4 \<and> 0x80 \<le> b \<and> b \<le> 0x8F))
                           \<and> continuation c \<and> continuation d \<and> is_utf8 s3))))"

definition string_of :: "u8 list \<Rightarrow> string" where
  "string_of bs = map char_of_byte bs"

definition from_utf8 :: "u8 list \<Rightarrow> string option" where
  "from_utf8 bs = (if is_utf8 bs then Some (string_of bs) else None)"

text \<open>\<open>trim\<close>, and a number that fits \<open>usize\<close> after it. A number has ASCII digits only.\<close>

definition trim :: "nat list \<Rightarrow> nat list" where
  "trim cs = rev (dropWhile is_whitespace (rev (dropWhile is_whitespace cs)))"

definition parse_usize :: "nat list \<Rightarrow> nat option" where
  "parse_usize cs =
     (if list_all (\<lambda>c. c < 0x80) cs then parse_unsigned (2 ^ 64) (map char_of cs) else None)"

lemma is_utf8_ascii: "list_all (\<lambda>b. b < 0x80) bs \<Longrightarrow> is_utf8 bs"
  by (induction bs) auto

lemma string_of_bytes_of [simp]: "string_of (bytes_of s) = s"
  by (simp add: string_of_def bytes_of_def comp_def)

lemma bytes_of_string_of [simp]: "bytes_of (string_of bs) = bs"
  by (simp add: string_of_def bytes_of_def comp_def)

lemma bytes_of_append [simp]: "bytes_of (s @ t) = bytes_of s @ bytes_of t"
  by (simp add: bytes_of_def)

text \<open>A decimal number, as it is written, is text, and is parsed as itself.\<close>

lemma dec_ascii: "list_all (\<lambda>c. (of_char c :: nat) < 0x80) (dec n)"
  using dec_digits [of n] by (auto simp: list_all_iff is_ascii_digit_def)

lemma trim_id: "list_all (\<lambda>c. \<not> is_whitespace c) cs \<Longrightarrow> trim cs = cs"
proof -
  assume a: "list_all (\<lambda>c. \<not> is_whitespace c) cs"
  then have "dropWhile is_whitespace cs = cs" by (cases cs) auto
  moreover have "dropWhile is_whitespace (rev cs) = rev cs"
    using a by (cases "rev cs") (auto simp: list_all_iff dest: arg_cong [where f = set])
  ultimately show ?thesis by (simp add: trim_def)
qed

lemma parse_content_number:
  assumes "n < 2 ^ 64"
  shows "from_utf8 (bytes_of (dec n)) = Some (dec n)"
    and "parse_usize (trim (chars (dec n))) = Some n"
proof -
  have "list_all (\<lambda>b. b < 0x80) (bytes_of (dec n))"
    using dec_ascii [of n] by (simp add: bytes_of_def list_all_iff word_less_nat_alt)
  then show "from_utf8 (bytes_of (dec n)) = Some (dec n)"
    by (simp add: from_utf8_def is_utf8_ascii)
  have c: "chars (dec n) = map of_char (dec n)" by (rule chars_ascii) (rule dec_ascii)
  have "list_all (\<lambda>c :: nat. \<not> is_whitespace c) (map of_char (dec n))"
    using dec_digits [of n] by (auto simp: list_all_iff is_ascii_digit_def is_whitespace_def)
  then have "trim (chars (dec n)) = map of_char (dec n)" by (simp only: c trim_id)
  moreover have "list_all (\<lambda>c :: nat. c < 0x80) (map of_char (dec n))"
    using dec_ascii [of n] by (simp add: list_all_iff)
  moreover have "map char_of (map of_char (dec n) :: nat list) = dec n"
    by (simp add: comp_def)
  ultimately show "parse_usize (trim (chars (dec n))) = Some n"
    using assms by (simp only: parse_usize_def if_True parse_unsigned_dec)
qed

end
