(* ===== verification/Http1.thy ===== *)
theory Http1
  imports Transport Utf8
begin

text \<open>
  DNS over HTTPS with HTTP/1.1 (\<open>dns-transport/src/https.rs\<close>): the request that carries a DNS
  message, and reading the response, whose body is the answer. Parsing the head of a response
  belongs to the \<open>httparse\<close> package, so it is a parameter: bytes to an error, to nothing when
  the head is not whole, or to the status, the reason and the headers.
\<close>

subsection \<open>The request\<close>

definition MAX_HEAD :: nat where "MAX_HEAD = 8 * 1024"
definition MAX_BODY :: nat where "MAX_BODY = 65535"

definition USER_AGENT :: string where "USER_AGENT = ''dog/0.2.0-pre''"

definition crlf :: string where "crlf = [CHR 0x0D, CHR 0x0A]"

definition host_header :: "HttpsUrl \<Rightarrow> string" where
  "host_header url =
     (let host = (if CHR '':'' \<in> set (url_host url) then ''['' @ url_host url @ '']'' else url_host url) in
      if url_port url = 443 then host else host @ '':'' @ dec (unat (url_port url)))"

definition build_http_request :: "HttpsUrl \<Rightarrow> u8 list \<Rightarrow> u8 list" where
  "build_http_request url body =
     bytes_of
       (''POST '' @ url_path url @ '' HTTP/1.1'' @ crlf
        @ ''Host: '' @ host_header url @ crlf
        @ ''Content-Type: application/dns-message'' @ crlf
        @ ''Accept: application/dns-message'' @ crlf
        @ ''User-Agent: '' @ USER_AGENT @ crlf
        @ ''Content-Length: '' @ dec (length body) @ crlf @ crlf)
     @ body"


subsection \<open>The head of the response\<close>

record http_head =
  head_code :: "u16 option"
  head_reason :: "string option"
  head_headers :: "(string \<times> u8 list) list"

type_synonym head_parser = "u8 list \<Rightarrow> (http_parse_error, http_head option) outcome"

definition header :: "(string \<times> u8 list) list \<Rightarrow> string \<Rightarrow> u8 list option" where
  "header headers name = map_option snd (List.find (\<lambda>h. eq_ignore_ascii_case (fst h) name) headers)"

definition content_length :: "(string \<times> u8 list) list \<Rightarrow> (Error, nat) outcome" where
  "content_length headers =
     (case header headers ''Transfer-Encoding'' of
        Some encoding \<Rightarrow>
          Err (E_MalformedHttp (Fault_Quoting ''Responses with Transfer-Encoding '' encoding '' are not supported''))
      | None \<Rightarrow>
          (case header headers ''Content-Length'' of
             None \<Rightarrow> Err (E_MalformedHttp (Fault ''The response has no Content-Length''))
           | Some value \<Rightarrow>
               (case Option.bind (from_utf8 value) (\<lambda>t. parse_usize (trim (chars t))) of
                  None \<Rightarrow> Err (E_MalformedHttp (Fault_Quoting ''Invalid Content-Length '' value []))
                | Some len \<Rightarrow>
                    if MAX_BODY < len then
                      Err (E_MalformedHttp (Fault (''The response body is too long ('' @ dec len @ '' bytes)'')))
                    else Ok len)))"

definition parse_head :: "head_parser \<Rightarrow> u8 list \<Rightarrow> (Error, nat) outcome" where
  "parse_head parse head =
     bind_outcome (map_err E_HttpError (parse head)) (\<lambda>result.
     case result of
       None \<Rightarrow> Err (E_MalformedHttp (Fault ''The response headers are incomplete''))
     | Some h \<Rightarrow>
         if head_code h \<noteq> Some 200 then
           Err (E_WrongHttpStatus (case head_code h of None \<Rightarrow> 0 | Some code \<Rightarrow> code) (head_reason h))
         else content_length (head_headers h))"

text \<open>\<open>data.windows(4).position(|w| w == b"\r\n\r\n")\<close>.\<close>

definition blank_line :: "u8 list" where "blank_line = [13, 10, 13, 10]"

fun find_blank :: "u8 list \<Rightarrow> nat option" where
  "find_blank [] = None"
| "find_blank (b # bs) =
     (if take 4 (b # bs) = blank_line then Some 0 else map_option Suc (find_blank bs))"


subsection \<open>Reading the response\<close>

text \<open>How much a stream still has in store: every read that gives bytes makes it less.\<close>

definition store :: "'w net_scheme \<Rightarrow> nat" where
  "store w = sum_list (map (\<lambda>(_, ev). case ev of Arrives bs \<Rightarrow> Suc (length bs) | Read_Fails _ \<Rightarrow> 1) (incoming w))"

lemma deadline_read_store:
  "deadline_read dl n w = (r, w') \<Longrightarrow> store w' \<le> store w \<and> (\<forall>bs. r = Ok bs \<longrightarrow> bs \<noteq> [] \<longrightarrow> store w' < store w)"
proof (induction dl n w arbitrary: r w' rule: deadline_read.induct)
  case (1 dl n w)
  have once: "store v \<le> store w \<and> (\<forall>bs. s = Ok bs \<longrightarrow> bs \<noteq> [] \<longrightarrow> store v < store w)"
    if "socket_read left n w = (s, v)" for left s v
    using that
    by (auto simp: socket_read_def store_def split: list.splits if_splits read_event.splits)
  show ?case
  proof (cases rule: io_left_cases [of dl "clock w"])
    case 1
    with "1.prems" show ?thesis by (auto simp: deadline_read.simps [of dl n w])
  next
    case 2
    obtain s v where s: "socket_read (dl_at dl - clock w) n w = (s, v)" by fastforce
    show ?thesis
    proof (cases "s = Err K_Interrupted")
      case True
      with "1.prems" 2 s have "deadline_read dl n v = (r, w')"
        by (simp add: deadline_read.simps [of dl n w])
      from "1.IH" [OF 2(2) s [symmetric] True refl this] once [OF s] show ?thesis
        by fastforce
    next
      case False
      with "1.prems" 2 s have "s = r \<and> v = w'"
        by (cases s) (simp_all add: deadline_read.simps [of dl n w])
      with once [OF s] show ?thesis by simp
    qed
  qed
qed

lemma deadline_read_not_interrupted: "fst (deadline_read dl n w) \<noteq> Err K_Interrupted"
proof (induction dl n w rule: deadline_read.induct)
  case (1 dl n w)
  show ?case
  proof (cases rule: io_left_cases [of dl "clock w"])
    case 1
    then show ?thesis by (simp add: deadline_read.simps [of dl n w])
  next
    case 2
    obtain s v where s: "socket_read (dl_at dl - clock w) n w = (s, v)" by fastforce
    with "1.IH" [OF 2(2) s [symmetric]] 2 show ?thesis
      by (cases s) (simp_all add: deadline_read.simps [of dl n w])
  qed
qed

lemma deadline_read_interrupted: "(Err K_Interrupted, w') = deadline_read dl n w \<Longrightarrow> False"
  using deadline_read_not_interrupted [of dl n w] by (metis fst_conv)

function read_more ::
  "Deadline \<Rightarrow> u8 list \<Rightarrow> 'w net_scheme \<Rightarrow> (Error, u8 list) outcome \<times> 'w net_scheme" where
  "read_more dl data w =
     (case deadline_read dl 4096 w of
        (Ok read, w') \<Rightarrow> if read = [] then (Err E_TruncatedResponse, w') else (Ok (data @ read), w')
      | (Panic, w') \<Rightarrow> (Panic, w')
      | (Err e, w') \<Rightarrow>
          if e = K_Interrupted then read_more dl data w' else (Err (io_error e (dl_timeout dl)), w'))"
  by pat_completeness auto
termination
  by (relation "measure (\<lambda>_. 0)") (auto dest: deadline_read_interrupted)

declare read_more.simps [simp del]

lemma read_more_eq:
  "read_more dl data w =
     (case deadline_read dl 4096 w of
        (Ok read, w') \<Rightarrow> if read = [] then (Err E_TruncatedResponse, w') else (Ok (data @ read), w')
      | (Panic, w') \<Rightarrow> (Panic, w')
      | (Err e, w') \<Rightarrow> (Err (io_error e (dl_timeout dl)), w'))"
  using deadline_read_not_interrupted [of dl 4096 w]
  by (auto simp: read_more.simps [of dl data w] split: prod.split outcome.split)

lemma read_more_store: "read_more dl data w = (Ok data', w') \<Longrightarrow> store w' < store w"
  using deadline_read_store [of dl 4096 w]
  by (auto simp: read_more_eq split: prod.splits outcome.splits if_splits)

text \<open>The result of \<open>read_head\<close> is the bytes read so far, and where the head ends in them.\<close>

function read_head ::
  "Deadline \<Rightarrow> u8 list \<Rightarrow> 'w net_scheme \<Rightarrow> (Error, u8 list \<times> nat) outcome \<times> 'w net_scheme" where
  "read_head dl data w =
     (case find_blank data of
        Some end \<Rightarrow> (Ok (data, end + 4), w)
      | None \<Rightarrow>
          if MAX_HEAD < length data then
            (Err (E_MalformedHttp (Fault (''The response headers are longer than '' @ dec MAX_HEAD @ '' bytes''))), w)
          else
            (case read_more dl data w of
               (Ok data', w') \<Rightarrow> read_head dl data' w'
             | (Err e, w') \<Rightarrow> (Err e, w')
             | (Panic, w') \<Rightarrow> (Panic, w')))"
  by pat_completeness auto
termination
  by (relation "measure (\<lambda>(_, _, w). store w)") (auto dest: read_more_store [OF sym])

declare read_head.simps [simp del]

function read_rest ::
  "Deadline \<Rightarrow> nat \<Rightarrow> u8 list \<Rightarrow> 'w net_scheme \<Rightarrow> (Error, u8 list) outcome \<times> 'w net_scheme" where
  "read_rest dl body_end data w =
     (if length data < body_end then
        (case read_more dl data w of
           (Ok data', w') \<Rightarrow> read_rest dl body_end data' w'
         | (Err e, w') \<Rightarrow> (Err e, w')
         | (Panic, w') \<Rightarrow> (Panic, w'))
      else (Ok data, w))"
  by pat_completeness auto
termination
  by (relation "measure (\<lambda>(_, _, _, w). store w)") (auto dest: read_more_store [OF sym])

declare read_rest.simps [simp del]

definition read_http_body ::
  "head_parser \<Rightarrow> Deadline \<Rightarrow> 'w net_scheme \<Rightarrow> (Error, u8 list) outcome \<times> 'w net_scheme" where
  "read_http_body parse dl =
     and_then (read_head dl []) (\<lambda>(data, head_end).
     and_then (just (parse_head parse (take head_end data))) (\<lambda>len.
     let body_end = head_end + len in
     and_then (read_rest dl body_end data) (\<lambda>data.
     just (Ok (drop head_end (take body_end data))))))"

definition exchange_https :: "head_parser \<Rightarrow> Deadline \<Rightarrow> HttpsUrl \<Rightarrow> 'w net_scheme transport" where
  "exchange_https parse dl url request =
     and_then (just (request_bytes request)) (\<lambda>message.
     and_then (write_fully dl (build_http_request url message)) (\<lambda>_.
     and_then (read_http_body parse dl) (\<lambda>body.
     just (checked_response request body))))"


subsection \<open>Nothing outlasts the deadline\<close>

lemma read_more_in_time: "in_time dl w (snd (read_more dl data w))"
  using deadline_read_in_time [of dl w 4096]
  by (auto simp: read_more_eq split: prod.split outcome.split)

lemma read_head_in_time: "in_time dl w (snd (read_head dl data w))"
proof (induction dl data w rule: read_head.induct)
  case (1 dl data w)
  obtain r v where r: "read_more dl data w = (r, v)" by fastforce
  with read_more_in_time [of dl w data] have t: "in_time dl w v" by simp
  with r "1.IH" [OF _ _ r [symmetric]] show ?case
    by (cases r) (auto simp: read_head.simps [of dl data w] intro: in_time_trans split: option.split)
qed

lemma read_rest_in_time: "in_time dl w (snd (read_rest dl n data w))"
proof (induction dl n data w rule: read_rest.induct)
  case (1 dl n data w)
  obtain r v where r: "read_more dl data w = (r, v)" by fastforce
  with read_more_in_time [of dl w data] have t: "in_time dl w v" by simp
  with r "1.IH" [OF _ r [symmetric]] show ?case
    by (cases r) (auto simp: read_rest.simps [of dl n data w] intro: in_time_trans)
qed

lemma read_http_body_in_time: "in_time dl w (snd (read_http_body parse dl w))"
  unfolding read_http_body_def
  by (intro and_then_in_time read_head_in_time)
    (auto simp: Let_def intro!: and_then_in_time read_rest_in_time)

lemma exchange_https_in_time: "in_time dl w (snd (exchange_https parse dl url request w))"
  unfolding exchange_https_def
  by (intro and_then_in_time just_in_time write_fully_in_time read_http_body_in_time)

lemma exchange_https_honest:
  "exchange_https parse dl url request w = (Ok response, w') \<Longrightarrow> genuine request response"
  by (auto simp: exchange_https_def and_then_Ok checked_response_Ok genuine_def)


subsection \<open>The request has the lines it is meant to have\<close>

definition clean_line :: "string \<Rightarrow> bool" where
  "clean_line l = (CHR 0x0D \<notin> set l \<and> CHR 0x0A \<notin> set l)"

lemma clean_line_graphic: "list_all is_ascii_graphic l \<Longrightarrow> clean_line l"
  by (auto simp: clean_line_def list_all_iff is_ascii_graphic_def)

lemma clean_line_append [simp]: "clean_line (a @ b) \<longleftrightarrow> clean_line a \<and> clean_line b"
  by (auto simp: clean_line_def)

lemma clean_line_dec: "clean_line (dec n)"
  using dec_digits [of n] by (auto simp: clean_line_def list_all_iff is_ascii_digit_def)

text \<open>The field lines of the request, after the one with the path.\<close>

definition request_fields :: "HttpsUrl \<Rightarrow> nat \<Rightarrow> string list" where
  "request_fields url n =
     [''Host: '' @ host_header url, ''Content-Type: application/dns-message'',
      ''Accept: application/dns-message'', ''User-Agent: '' @ USER_AGENT, ''Content-Length: '' @ dec n]"

lemma http_request_lines:
  assumes "parse_https_url s = Ok url"
  shows "build_http_request url body =
      bytes_of (concat (map (\<lambda>l. l @ crlf)
        ((''POST '' @ url_path url @ '' HTTP/1.1'') # request_fields url (length body))) @ crlf) @ body
    \<and> list_all clean_line ((''POST '' @ url_path url @ '' HTTP/1.1'') # request_fields url (length body))"
proof -
  from parse_https_url_parts [OF assms]
  have path: "clean_line (url_path url)" and "list_all host_char (url_host url)"
    by (auto intro: clean_line_graphic)
  then have host: "clean_line (url_host url)"
    by (intro clean_line_graphic) (auto simp: list_all_iff host_char_graphic)
  then have "clean_line (host_header url)"
    using clean_line_dec by (simp add: host_header_def Let_def) (simp add: clean_line_def)
  moreover have "clean_line (''POST '' @ url_path url @ '' HTTP/1.1'')"
    using path by (simp add: clean_line_def)
  ultimately show ?thesis
    using clean_line_dec
    by (simp add: build_http_request_def request_fields_def) (simp add: clean_line_def USER_AGENT_def)
qed

text \<open>
  The HTTP request made from a URL that was accepted is one request: its lines are the
  request line and five fields, none of which has a line break in it, and then a blank line and
  the DNS message. Nothing in a URL can add a field to the request, or a second request.
\<close>

theorem build_http_request_lines:
  assumes "parse_https_url s = Ok url"
  shows "build_http_request url body =
      bytes_of (concat (map (\<lambda>l. l @ crlf)
        ((''POST '' @ url_path url @ '' HTTP/1.1'') # request_fields url (length body))) @ crlf) @ body
    \<and> list_all clean_line ((''POST '' @ url_path url @ '' HTTP/1.1'') # request_fields url (length body))"
  using assms by (rule http_request_lines)

lemma https_url_example:
  "parse_https_url ''https://dns.example/q'' = Ok \<lparr>url_host = ''dns.example'', url_port = 443, url_path = ''/q''\<rparr>"
  by (simp add: parse_https_url_def is_ascii_graphic_def find_char_def dns_example_port Let_def)

lemma build_http_request_lines_witness:
  "\<exists>url. parse_https_url ''https://dns.example/q'' = Ok url
    \<and> list_all clean_line ((''POST '' @ url_path url @ '' HTTP/1.1'') # request_fields url 0)"
  using build_http_request_lines [OF https_url_example, of "[]"] https_url_example by (metis list.size(3))


subsection \<open>A response that arrives is read\<close>

lemma find_blank_append: "find_blank a = Some i \<Longrightarrow> find_blank (a @ b) = Some i \<and> i + 4 \<le> length a"
proof (induction a arbitrary: i)
  case Nil
  then show ?case by simp
next
  case (Cons x a)
  show ?case
  proof (cases "take 4 (x # a) = blank_line")
    case True
    then have "length (take 4 (x # a)) = length blank_line" by (rule arg_cong)
    then have "4 \<le> length (x # a)" by (simp add: blank_line_def)
    with True Cons.prems show ?thesis by simp
  next
    case False
    with Cons obtain j where j: "find_blank a = Some j" "i = Suc j" by (auto split: if_splits)
    with Cons.IH have le: "find_blank (a @ b) = Some j" "j + 4 \<le> length a" by auto
    then have "take 4 (x # a @ b) = take 4 (x # a)" by simp
    with False j le show ?thesis by simp
  qed
qed

lemma find_blank_prefix: "find_blank (a @ b) = Some i \<Longrightarrow> i + 4 \<le> length a \<Longrightarrow> find_blank a = Some i"
proof (induction a arbitrary: i)
  case Nil
  then show ?case by simp
next
  case (Cons x a)
  show ?case
  proof (cases i)
    case 0
    with Cons.prems show ?thesis by (auto split: if_splits)
  next
    case (Suc j)
    with Cons have "find_blank a = Some j" by (auto split: if_splits)
    moreover have "take 4 (x # a @ b) = take 4 (x # a)" using Cons.prems(2) by simp
    ultimately show ?thesis using Suc Cons.prems(1) by (auto split: if_splits)
  qed
qed

lemma read_more_steady:
  assumes "steady evs" and "incoming w = evs @ later" and "clock w + delays evs < dl_at dl"
    and "payload evs \<noteq> []"
  obtains bs w' evs' where "read_more dl data w = (Ok (data @ bs), w')" "bs \<noteq> []"
    "payload evs = bs @ payload evs'" "reads_on w evs w' evs' later"
  using deadline_read_steady [OF assms, of 4096] by (auto simp: read_more_eq)

lemma read_head_steady:
  assumes "find_blank (data @ payload evs) = Some i" and "i + 4 \<le> MAX_HEAD"
    and "steady evs" and "incoming w = evs @ later" and "clock w + delays evs < dl_at dl"
  shows "\<exists>data' w' evs'. read_head dl data w = (Ok (data', i + 4), w')
    \<and> data' @ payload evs' = data @ payload evs \<and> i + 4 \<le> length data' \<and> reads_on w evs w' evs' later"
  using assms
proof (induction "length (payload evs)" arbitrary: data evs w rule: less_induct)
  case less
  show ?case
  proof (cases "find_blank data")
    case (Some j)
    with less.prems(1) find_blank_append [OF Some, of "payload evs"] have "j = i" "i + 4 \<le> length data"
      by simp_all
    with Some less.prems show ?thesis
      by (intro exI [of _ data] exI [of _ w] exI [of _ evs]) (simp add: read_head.simps [of dl data w] reads_on_def)
  next
    case None
    with less.prems(1) have short: "length data < i + 4" and some: "payload evs \<noteq> []"
      using find_blank_prefix [of data "payload evs" i] by (auto simp: not_le [symmetric])
    obtain bs v es where read: "read_more dl data w = (Ok (data @ bs), v)" "bs \<noteq> []"
      "payload evs = bs @ payload es" "reads_on w evs v es later"
      using read_more_steady [OF less.prems(3-5) some] by metis
    have "\<exists>data' w' evs'. read_head dl (data @ bs) v = (Ok (data', i + 4), w')
      \<and> data' @ payload evs' = (data @ bs) @ payload es \<and> i + 4 \<le> length data' \<and> reads_on v es w' evs' later"
      by (rule less.hyps) (use read less.prems in \<open>auto simp: reads_on_def\<close>)
    moreover have "read_head dl data w = read_head dl (data @ bs) v"
      using None read(1) short less.prems(2) by (simp add: read_head.simps [of dl data w])
    ultimately show ?thesis using read(3) reads_on_trans [OF read(4)] by fastforce
  qed
qed

lemma read_rest_steady:
  assumes "n \<le> length (data @ payload evs)"
    and "steady evs" and "incoming w = evs @ later" and "clock w + delays evs < dl_at dl"
  shows "\<exists>data' w' evs'. read_rest dl n data w = (Ok data', w')
    \<and> data' @ payload evs' = data @ payload evs \<and> n \<le> length data'"
  using assms
proof (induction "length (payload evs)" arbitrary: data evs w rule: less_induct)
  case less
  show ?case
  proof (cases "length data < n")
    case False
    then show ?thesis
      by (intro exI [of _ data] exI [of _ w] exI [of _ evs]) (simp add: read_rest.simps [of dl n data w])
  next
    case True
    with less.prems(1) have some: "payload evs \<noteq> []" by auto
    obtain bs v es where read: "read_more dl data w = (Ok (data @ bs), v)" "bs \<noteq> []"
      "payload evs = bs @ payload es" "reads_on w evs v es later"
      using read_more_steady [OF less.prems(2-4) some] by metis
    have "\<exists>data' w' evs'. read_rest dl n (data @ bs) v = (Ok data', w')
      \<and> data' @ payload evs' = (data @ bs) @ payload es \<and> n \<le> length data'"
      by (rule less.hyps) (use read less.prems in \<open>auto simp: reads_on_def\<close>)
    with True read show ?thesis by (simp add: read_rest.simps [of dl n data w])
  qed
qed

lemma http_body_arrives:
  assumes "find_blank head = Some i" and "length head = i + 4" and "length head \<le> MAX_HEAD"
    and "parse_head parse head = Ok (length body)"
    and "steady evs" and "payload evs = head @ body @ rest"
    and "incoming w = evs @ later" and "clock w + delays evs < dl_at dl"
  shows "\<exists>w'. read_http_body parse dl w = (Ok body, w')"
proof -
  have "find_blank ([] @ payload evs) = Some i"
    using find_blank_append [OF assms(1), of "body @ rest"] assms(6) by simp
  from read_head_steady [OF this _ assms(5,7,8)] assms(2,3) obtain data v es where
    head: "read_head dl [] w = (Ok (data, i + 4), v)" "data @ payload es = payload evs"
    "i + 4 \<le> length data" "reads_on w evs v es later" by auto
  have take: "take (i + 4) data = head"
    using head(2,3) assms(2,6) by (metis append_eq_append_conv_if append_take_drop_id take_all_iff le_refl)
  have len: "i + 4 + length body \<le> length (data @ payload es)"
    using head(2) assms(2,6) by simp
  from read_rest_steady [OF this, of v later dl] head(4) assms(8) obtain data' w' es' where
    rest: "read_rest dl (i + 4 + length body) data v = (Ok data', w')"
    "data' @ payload es' = data @ payload es" "i + 4 + length body \<le> length data'"
    by (auto simp: reads_on_def)
  have "take (i + 4 + length body) data' = take (i + 4 + length body) (data' @ payload es')"
    using rest(3) by simp
  also have "\<dots> = head @ body" using rest(2) head(2) assms(2,6) by simp
  finally have "drop (i + 4) (take (i + 4 + length body) data') = body" using assms(2) by simp
  with head(1) take rest(1) assms(4) show ?thesis
    by (simp add: read_http_body_def and_then_def just_def Let_def)
qed


text \<open>A head with a length in it, for the examples.\<close>

abbreviation length_parser :: "nat \<Rightarrow> head_parser" where
  "length_parser n \<equiv> (\<lambda>_. Ok (Some \<lparr>head_code = Some 200, head_reason = None,
                     head_headers = [(''content-length'', bytes_of (dec n))]\<rparr>))"

lemma parse_head_length: "n \<le> MAX_BODY \<Longrightarrow> parse_head (length_parser n) head = Ok n"
proof -
  have "\<not> eq_ignore_ascii_case ''content-length'' ''Transfer-Encoding''"
    by (simp add: eq_ignore_ascii_case_def eq_bytes_ignore_ascii_case_def)
  moreover have "eq_ignore_ascii_case ''content-length'' ''Content-Length''"
    by (simp add: eq_ignore_ascii_case_def eq_bytes_ignore_ascii_case_iff bytes_of_def byte_of_char_def ascii_lower_def)
  ultimately show "n \<le> MAX_BODY \<Longrightarrow> ?thesis"
    by (simp add: parse_head_def content_length_def header_def parse_content_number [of n] MAX_BODY_def)
qed


end
