(* ===== verification/H2.thy ===== *)
theory H2
  imports Http1
begin

text \<open>
  DNS over HTTPS with HTTP/2 (\<open>dns-transport/src/h2.rs\<close>): the frames of the one request dog sends
  on a connection, the frames of the response, and as much of HPACK as finding the response's
  status takes. The sizes of the code's buffers, \<open>usize\<close>, are natural numbers: none comes near
  sixty-four bits.
\<close>

subsection \<open>Constants\<close>

definition PREFACE :: "u8 list" where
  "PREFACE = bytes_of (''PRI * HTTP/2.0'' @ crlf @ crlf @ ''SM'' @ crlf @ crlf)"

definition MAX_FRAME :: nat where "MAX_FRAME = 16384"
definition STREAM :: u32 where "STREAM = 1"

definition DATA :: u8 where "DATA = 0x0"
definition HEADERS :: u8 where "HEADERS = 0x1"
definition RST_STREAM :: u8 where "RST_STREAM = 0x3"
definition SETTINGS :: u8 where "SETTINGS = 0x4"
definition PUSH_PROMISE :: u8 where "PUSH_PROMISE = 0x5"
definition PING :: u8 where "PING = 0x6"
definition GOAWAY :: u8 where "GOAWAY = 0x7"

definition END_STREAM :: u8 where "END_STREAM = 0x1"
definition ACK :: u8 where "ACK = 0x1"
definition END_HEADERS :: u8 where "END_HEADERS = 0x4"
definition PADDED :: u8 where "PADDED = 0x8"
definition PRIORITY :: u8 where "PRIORITY = 0x20"

lemmas frame_types = DATA_def HEADERS_def RST_STREAM_def SETTINGS_def PUSH_PROMISE_def PING_def GOAWAY_def
lemmas frame_flags_defs = END_STREAM_def ACK_def END_HEADERS_def PADDED_def PRIORITY_def

definition NO_PUSH :: "u8 list" where "NO_PUSH = [0, 2, 0, 0, 0, 0]"

definition ERROR_CODES :: "string list" where
  "ERROR_CODES =
     [''NO_ERROR'', ''PROTOCOL_ERROR'', ''INTERNAL_ERROR'', ''FLOW_CONTROL_ERROR'', ''SETTINGS_TIMEOUT'',
      ''STREAM_CLOSED'', ''FRAME_SIZE_ERROR'', ''REFUSED_STREAM'', ''CANCEL'', ''COMPRESSION_ERROR'',
      ''CONNECT_ERROR'', ''ENHANCE_YOUR_CALM'', ''INADEQUATE_SECURITY'', ''HTTP_1_1_REQUIRED'']"

definition STATIC_STATUSES :: "u16 list" where
  "STATIC_STATUSES = [200, 204, 206, 304, 400, 404, 500]"

definition HUFFMAN_DIGITS :: "(u32 \<times> nat) list" where
  "HUFFMAN_DIGITS =
     [(0x0, 5), (0x1, 5), (0x2, 5), (0x19, 6), (0x1A, 6),
      (0x1B, 6), (0x1C, 6), (0x1D, 6), (0x1E, 6), (0x1F, 6)]"

abbreviation malformed :: "string \<Rightarrow> (Error, 'a) outcome" where
  "malformed why \<equiv> Err (E_MalformedHttp (Fault why))"


subsection \<open>What dog sends\<close>

definition low_byte :: "nat \<Rightarrow> u8" where "low_byte v = word_of_nat v"

function integer_rest :: "nat \<Rightarrow> u8 list" where
  "integer_rest rest =
     (if 0x80 \<le> rest then (low_byte rest OR 0x80) # integer_rest (drop_bit 7 rest) else [low_byte rest])"
  by pat_completeness auto
termination
  by (relation "measure id") (auto simp: drop_bit_eq_div)

declare integer_rest.simps [simp del]

definition integer :: "nat \<Rightarrow> nat \<Rightarrow> u8 \<Rightarrow> u8 list" where
  "integer v prefix_bits high_bits =
     (let limit = 2 ^ prefix_bits - 1 in
      if v < limit then [high_bits OR low_byte v]
      else (high_bits OR low_byte limit) # integer_rest (v - limit))"

definition header_fields :: "HttpsUrl \<Rightarrow> nat \<Rightarrow> (nat \<times> string) list" where
  "header_fields url body_length =
     [(1, host_header url), (4, url_path url), (31, ''application/dns-message''),
      (19, ''application/dns-message''), (58, USER_AGENT), (28, dec body_length)]"

definition header_block :: "HttpsUrl \<Rightarrow> nat \<Rightarrow> u8 list" where
  "header_block url body_length =
     [0x83, 0x87]
     @ concat (map (\<lambda>(name_index, val).
         integer name_index 4 0 @ integer (length val) 7 0 @ bytes_of val) (header_fields url body_length))"

definition frame :: "u8 \<Rightarrow> u8 \<Rightarrow> u32 \<Rightarrow> u8 list \<Rightarrow> (Error, u8 list) outcome" where
  "frame kind flags stream bytes =
     (if MAX_FRAME < length bytes then
        malformed (''The request needs a frame of '' @ dec (length bytes) @ '' bytes, more than the ''
                   @ dec MAX_FRAME @ '' allowed'')
      else
        Ok (drop 1 (be_bytes32 (word_of_nat (length bytes))) @ [kind, flags] @ be_bytes32 stream @ bytes))"

text \<open>The slices of at most so many elements, as \<open>chunks\<close> has them.\<close>

function chunks :: "nat \<Rightarrow> 'a list \<Rightarrow> 'a list list" where
  "chunks n xs = (if xs = [] \<or> n = 0 then [] else take n xs # chunks n (drop n xs))"
  by pat_completeness auto
termination
  by (relation "measure (\<lambda>(n, xs). length xs)") auto

declare chunks.simps [simp del]

fun data_frames :: "u8 list list \<Rightarrow> (Error, u8 list) outcome" where
  "data_frames [] = Ok []"
| "data_frames (chunk # rest) =
     bind_outcome (frame DATA (if rest = [] then END_STREAM else 0) STREAM chunk) (\<lambda>bytes.
     bind_outcome (data_frames rest) (\<lambda>more_bytes. Ok (bytes @ more_bytes)))"

definition h2_request_bytes :: "HttpsUrl \<Rightarrow> u8 list \<Rightarrow> (Error, u8 list) outcome" where
  "h2_request_bytes url body =
     bind_outcome (frame SETTINGS 0 0 NO_PUSH) (\<lambda>settings.
     bind_outcome (frame HEADERS END_HEADERS STREAM (header_block url (length body))) (\<lambda>hdrs.
     bind_outcome (data_frames (if body = [] then [body] else chunks MAX_FRAME body)) (\<lambda>dat.
     Ok (PREFACE @ settings @ hdrs @ dat))))"


subsection \<open>The status of a response\<close>

text \<open>The bytes after a full prefix, of which at most four are read, seven bits at a time.\<close>

fun integer_groups :: "nat \<Rightarrow> nat \<Rightarrow> nat \<Rightarrow> u8 list \<Rightarrow> (Error, nat \<times> nat) outcome" where
  "integer_groups 0 used v bytes = malformed ''A number in the response headers is too long, or cut short''"
| "integer_groups (Suc k) used v [] = malformed ''A number in the response headers is too long, or cut short''"
| "integer_groups (Suc k) used v (byte # bytes) =
     (let v = v + push_bit (7 * (used - 1)) (unat (byte AND 0x7F)) in
      if byte AND 0x80 = 0 then Ok (v, used + 1) else integer_groups k (used + 1) v bytes)"

definition read_integer :: "u8 list \<Rightarrow> nat \<Rightarrow> (Error, nat \<times> nat) outcome" where
  "read_integer bytes prefix_bits =
     (let limit = 2 ^ prefix_bits - 1 in
      case bytes of
        [] \<Rightarrow> malformed ''The response headers are cut short''
      | b # rest \<Rightarrow>
          let first = unat b AND limit in
          if first < limit then Ok (first, 1) else integer_groups 4 1 first rest)"

text \<open>The bits of some bytes, from the highest.\<close>

definition byte_bits :: "u8 \<Rightarrow> u8 list" where
  "byte_bits byte = map (\<lambda>shift. drop_bit shift byte AND 1) (rev [0..<8])"

fun huffman_bits :: "u8 list \<Rightarrow> u8 list \<Rightarrow> u32 \<Rightarrow> nat \<Rightarrow> (Error, u8 list \<times> u32 \<times> nat) outcome" where
  "huffman_bits [] digits code len = Ok (digits, code, len)"
| "huffman_bits (bt # bits) digits code len =
     (let code = push_bit 1 code OR ucast bt; len = len + 1 in
      case List.find (\<lambda>i. HUFFMAN_DIGITS ! i = (code, len)) [0..<10] of
        Some i \<Rightarrow> huffman_bits bits (digits @ [word_of_nat (48 + i)]) 0 0
      | None \<Rightarrow>
          if 7 < len then malformed ''The response status is not Huffman-coded digits''
          else huffman_bits bits digits code len)"

definition huffman_digits :: "u8 list \<Rightarrow> (Error, u8 list) outcome" where
  "huffman_digits coded =
     bind_outcome (huffman_bits (concat (map byte_bits coded)) [] 0 0) (\<lambda>(digits, code, len).
     if code = push_bit len 1 - 1 then Ok digits
     else malformed ''The response status is not Huffman-coded digits'')"

text \<open>\<open>get\<close> with a range: nothing when the range is not in the slice.\<close>

definition slice_from :: "nat \<Rightarrow> 'a list \<Rightarrow> 'a list option" where
  "slice_from n xs = (if n \<le> length xs then Some (drop n xs) else None)"

definition slice_to :: "nat \<Rightarrow> 'a list \<Rightarrow> 'a list option" where
  "slice_to n xs = (if n \<le> length xs then Some (take n xs) else None)"

definition read_hpack_string :: "u8 list \<Rightarrow> (Error, u8 list) outcome" where
  "read_hpack_string bytes =
     bind_outcome (read_integer bytes 7) (\<lambda>(len, used).
     case Option.bind (slice_from used bytes) (slice_to len) of
       None \<Rightarrow> malformed ''The response headers are cut short''
     | Some raw \<Rightarrow>
         (case bytes of
            [] \<Rightarrow> Panic
          | b # _ \<Rightarrow> if b AND 0x80 = 0 then Ok raw else huffman_digits raw))"

definition static_status :: "nat \<Rightarrow> (Error, u16) outcome" where
  "static_status index =
     (if 8 \<le> index \<and> index - 8 < length STATIC_STATUSES then Ok (STATIC_STATUSES ! (index - 8))
      else malformed (''The response headers start with field '' @ dec index @ '', not the status''))"

definition parse_status :: "u8 list \<Rightarrow> (Error, u16) outcome" where
  "parse_status val =
     (case from_utf8 val of
        Some text \<Rightarrow>
          if length text = 3 \<and> list_all is_ascii_digit text then
            (case parse_u16 text of
               Some n \<Rightarrow> Ok n
             | None \<Rightarrow> Err (E_MalformedHttp (Fault_Quoting ''The response status '' val '' is not three digits'')))
          else Err (E_MalformedHttp (Fault_Quoting ''The response status '' val '' is not three digits''))
      | None \<Rightarrow> Err (E_MalformedHttp (Fault_Quoting ''The response status '' val '' is not three digits'')))"

text \<open>Past the changes to the size of the dynamic table. Each takes a byte at least.\<close>

lemma integer_groups_used:
  "integer_groups k used v bytes = Ok (n, u) \<Longrightarrow> used < u \<and> u \<le> used + length bytes"
  by (induction k used v bytes rule: integer_groups.induct) (auto simp: Let_def split: if_splits)

lemma read_integer_used: "read_integer bytes p = Ok (n, used) \<Longrightarrow> 0 < used \<and> used \<le> length bytes"
  by (auto simp: read_integer_def Let_def dest: integer_groups_used split: list.splits if_splits)

function first_field_from :: "nat \<Rightarrow> u8 list \<Rightarrow> (Error, nat) outcome" where
  "first_field_from at block =
     (if at < length block \<and> block ! at AND 0xE0 = 0x20 then
        (case read_integer (drop at block) 5 of
           Ok (_, used) \<Rightarrow> first_field_from (at + used) block
         | Err e \<Rightarrow> Err e
         | Panic \<Rightarrow> Panic)
      else Ok at)"
  by pat_completeness auto
termination
  by (relation "measure (\<lambda>(at, block). length block - at)") (auto dest: read_integer_used)

declare first_field_from.simps [simp del]

definition first_field :: "u8 list \<Rightarrow> (Error, u8 list) outcome" where
  "first_field block =
     bind_outcome (first_field_from 0 block) (\<lambda>at.
     case slice_from at block of
       Some (b # field) \<Rightarrow> Ok (b # field)
     | _ \<Rightarrow> malformed ''The response has no status'')"

definition status :: "u8 list \<Rightarrow> (Error, u16) outcome" where
  "status block =
     bind_outcome (first_field block) (\<lambda>field.
     case field of
       [] \<Rightarrow> Panic
     | b # _ \<Rightarrow>
         if b AND 0x80 \<noteq> 0 then
           bind_outcome (read_integer field 7) (\<lambda>(index, _). static_status index)
         else
           let prefix_bits = if b AND 0x40 \<noteq> 0 then 6 else 4 in
           bind_outcome (read_integer field prefix_bits) (\<lambda>(index, used).
           bind_outcome (static_status index) (\<lambda>_.
           if length field < used then Panic
           else bind_outcome (read_hpack_string (drop used field)) parse_status)))"


subsection \<open>The frames of the response\<close>

record Frame =
  frame_kind :: u8
  frame_flags :: u8
  frame_stream :: u32
  frame_payload :: "u8 list"

record Incoming =
  inc_headers :: bool
  inc_body :: "u8 list"
  inc_ended :: bool

definition incoming_default :: Incoming where
  "incoming_default = \<lparr>inc_headers = False, inc_body = [], inc_ended = False\<rparr>"

definition too_short :: Error where
  "too_short = E_MalformedHttp
     (Fault ''A frame is too short for the padding or priority its flags say it has'')"

definition content :: "Frame \<Rightarrow> (Error, u8 list) outcome" where
  "content f =
     bind_outcome
       (if frame_flags f AND PADDED = 0 then Ok (0, frame_payload f)
        else
          (case frame_payload f of
             [] \<Rightarrow> Err too_short
           | len # rest \<Rightarrow> Ok (unat len, rest)))
       (\<lambda>(padding, rest).
     bind_outcome
       (if frame_kind f = HEADERS \<and> frame_flags f AND PRIORITY \<noteq> 0 then
          (case slice_from 5 rest of None \<Rightarrow> Err too_short | Some rest \<Rightarrow> Ok rest)
        else Ok rest)
       (\<lambda>rest.
     if padding \<le> length rest then Ok (take (length rest - padding) rest) else Err too_short))"

definition error_name :: "u32 \<Rightarrow> string option" where
  "error_name code = (if unat code < length ERROR_CODES then Some (ERROR_CODES ! unat code) else None)"

definition stopped :: "string \<Rightarrow> u8 list option \<Rightarrow> Error" where
  "stopped what code_bytes =
     E_MalformedHttp (Fault
       (case code_bytes of
          Some [a, b, c, d] \<Rightarrow>
            (case error_name (be32 a b c d) of
               Some name \<Rightarrow> ''The server '' @ what @ '' (HTTP/2 error '' @ name @ '')''
             | None \<Rightarrow>
                 ''The server '' @ what @ '' (HTTP/2 error code 0x'' @ hex_nat (unat (be32 a b c d)) @ '')'')
        | _ \<Rightarrow> ''The server '' @ what))"

definition h2_headers :: "Incoming \<Rightarrow> Frame \<Rightarrow> (Error, Incoming) outcome" where
  "h2_headers inc f =
     (let ends = (frame_flags f AND END_STREAM \<noteq> 0) in
      if inc_headers inc then Ok (inc\<lparr>inc_ended := ends\<rparr>)
      else
        bind_outcome (bind_outcome (content f) status) (\<lambda>code.
        if code = 200 then Ok (inc\<lparr>inc_headers := True, inc_ended := ends\<rparr>)
        else if 100 \<le> code \<and> code \<le> 199 then Ok inc
        else Err (E_WrongHttpStatus code None)))"

definition h2_data :: "Incoming \<Rightarrow> Frame \<Rightarrow> (Error, Incoming) outcome" where
  "h2_data inc f =
     (if \<not> inc_headers inc then malformed ''The response body came before its headers''
      else
        bind_outcome (content f) (\<lambda>chunk.
        let body = inc_body inc @ chunk in
        if MAX_BODY < length body then
          malformed (''The response body is too long (more than '' @ dec MAX_BODY @ '' bytes)'')
        else Ok (inc\<lparr>inc_body := body, inc_ended := (frame_flags f AND END_STREAM \<noteq> 0)\<rparr>)))"

definition handle :: "Incoming \<Rightarrow> Frame \<Rightarrow> (Error, u8 list option \<times> Incoming) outcome" where
  "handle inc f =
     (let ours = (frame_stream f = STREAM); kind = frame_kind f in
      if kind = SETTINGS \<and> frame_flags f AND ACK = 0 then
        bind_outcome (frame SETTINGS ACK 0 []) (\<lambda>reply. Ok (Some reply, inc))
      else if kind = PING \<and> frame_flags f AND ACK = 0 then
        bind_outcome (frame PING ACK 0 (frame_payload f)) (\<lambda>reply. Ok (Some reply, inc))
      else if kind = GOAWAY then
        Err (stopped ''closed the connection'' (Option.bind (slice_to 8 (frame_payload f)) (slice_from 4)))
      else if kind = RST_STREAM \<and> ours then
        Err (stopped ''cancelled the request'' (slice_to 4 (frame_payload f)))
      else if kind = HEADERS \<and> ours then bind_outcome (h2_headers inc f) (\<lambda>inc. Ok (None, inc))
      else if kind = DATA \<and> ours then bind_outcome (h2_data inc f) (\<lambda>inc. Ok (None, inc))
      else if kind = PUSH_PROMISE then malformed ''The server pushed a response after being told not to''
      else Ok (None, inc))"

definition read_frame :: "Deadline \<Rightarrow> 'w net_scheme \<Rightarrow> (Error, Frame) outcome \<times> 'w net_scheme" where
  "read_frame dl =
     and_then (read_fully dl 9) (\<lambda>head.
     let len = push_bit 16 (unat (head ! 0)) OR push_bit 8 (unat (head ! 1)) OR unat (head ! 2) in
     if MAX_FRAME < len then
       just (malformed (''The server sent a frame of '' @ dec len @ '' bytes, more than the ''
                        @ dec MAX_FRAME @ '' allowed''))
     else
       and_then (read_fully dl len) (\<lambda>payload.
       just (Ok \<lparr>frame_kind = head ! 3, frame_flags = head ! 4,
                frame_stream = be32 (head ! 5) (head ! 6) (head ! 7) (head ! 8) AND 0x7FFFFFFF,
                frame_payload = payload\<rparr>)))"

text \<open>A frame that is read is taken from what the stream has in store.\<close>

lemma stream_read_exact_store:
  "stream_read_exact dl n w = (r, w') \<Longrightarrow>
     store w' \<le> store w \<and> (\<forall>bs. r = Ok bs \<longrightarrow> n \<noteq> 0 \<longrightarrow> store w' < store w)"
proof (induction dl n w arbitrary: r w' rule: stream_read_exact.induct)
  case (1 dl n w)
  obtain s v where s: "deadline_read dl n w = (s, v)" by fastforce
  from deadline_read_store [OF s] "1.prems" "1.IH" [OF _ s [symmetric]] s show ?case
    by (cases "stream_read_exact dl (n - length (case s of Ok bs \<Rightarrow> bs | _ \<Rightarrow> [])) v"; cases s)
      (fastforce simp: stream_read_exact.simps [of dl n w] split: if_splits outcome.splits)+
qed

lemma read_fully_store:
  "read_fully dl n w = (r, w') \<Longrightarrow> store w' \<le> store w \<and> (\<forall>bs. r = Ok bs \<longrightarrow> n \<noteq> 0 \<longrightarrow> store w' < store w)"
  using stream_read_exact_store [of dl n w]
  by (cases "stream_read_exact dl n w") (auto simp: read_fully_def map_err_Ok_iff)

lemma read_frame_store: "read_frame dl w = (Ok f, w') \<Longrightarrow> store w' < store w"
  by (auto simp: read_frame_def and_then_Ok Let_def split: if_splits dest!: read_fully_store)

lemma deadline_write_incoming: "incoming (snd (deadline_write dl bs w)) = incoming w"
proof (induction dl bs w rule: deadline_write.induct)
  case (1 dl bs w)
  have sock: "incoming (snd (socket_write left bs w)) = incoming w" for left
    by (simp add: socket_write_def split: list.split write_event.split)
  show ?case
  proof (cases rule: io_left_cases [of dl "clock w"])
    case 1
    then show ?thesis by (simp add: deadline_write.simps [of dl bs w])
  next
    case 2
    obtain r v where r: "socket_write (dl_at dl - clock w) bs w = (r, v)" by fastforce
    with sock [of "dl_at dl - clock w"] "1.IH" [OF 2(2) r [symmetric]] 2 show ?thesis
      by (cases r) (simp_all add: deadline_write.simps [of dl bs w])
  qed
qed

lemma stream_write_all_incoming: "incoming (snd (stream_write_all dl bs w)) = incoming w"
proof (induction dl bs w rule: stream_write_all.induct)
  case (1 dl bs w)
  obtain r v where r: "deadline_write dl bs w = (r, v)" by fastforce
  with deadline_write_incoming [of dl bs w] have "incoming v = incoming w" by simp
  with r "1.IH" [OF _ r [symmetric]] show ?case
    by (cases r) (auto simp: stream_write_all.simps [of dl bs w])
qed

lemma write_fully_store: "write_fully dl bs w = (r, w') \<Longrightarrow> store w' = store w"
  using stream_write_all_incoming [of dl bs w]
  by (auto simp: write_fully_def store_def split: prod.splits)

text \<open>The reply to a frame, if there is one, is sent before the next frame is read.\<close>

definition send_reply :: "Deadline \<Rightarrow> u8 list option \<Rightarrow> 'w net_scheme \<Rightarrow> (Error, unit) outcome \<times> 'w net_scheme" where
  "send_reply dl reply = (case reply of None \<Rightarrow> just (Ok ()) | Some bytes \<Rightarrow> write_fully dl bytes)"

lemma send_reply_store: "send_reply dl reply w = (r, w') \<Longrightarrow> store w' = store w"
  by (auto simp: send_reply_def just_def dest: write_fully_store split: option.splits)

definition next_frame ::
  "Deadline \<Rightarrow> Incoming \<Rightarrow> 'w net_scheme \<Rightarrow> (Error, Incoming) outcome \<times> 'w net_scheme" where
  "next_frame dl inc =
     and_then (read_frame dl) (\<lambda>f.
     and_then (just (handle inc f)) (\<lambda>(reply, inc').
     and_then (send_reply dl reply) (\<lambda>_. just (Ok inc'))))"

lemma next_frame_store: "next_frame dl inc w = (Ok inc', w') \<Longrightarrow> store w' < store w"
  by (auto simp: next_frame_def and_then_Ok dest!: read_frame_store send_reply_store)

function read_body ::
  "Deadline \<Rightarrow> Incoming \<Rightarrow> 'w net_scheme \<Rightarrow> (Error, u8 list) outcome \<times> 'w net_scheme" where
  "read_body dl inc w =
     (if inc_ended inc then (Ok (inc_body inc), w)
      else
        (case next_frame dl inc w of
           (Ok inc', w') \<Rightarrow> read_body dl inc' w'
         | (Err e, w') \<Rightarrow> (Err e, w')
         | (Panic, w') \<Rightarrow> (Panic, w')))"
  by pat_completeness auto
termination
  by (relation "measure (\<lambda>(_, _, w). store w)") (auto dest: next_frame_store [OF sym])

declare read_body.simps [simp del]

definition h2_exchange :: "Deadline \<Rightarrow> HttpsUrl \<Rightarrow> 'w net_scheme transport" where
  "h2_exchange dl url request =
     and_then (just (bind_outcome (request_bytes request) (h2_request_bytes url))) (\<lambda>bytes_to_send.
     and_then (write_fully dl bytes_to_send) (\<lambda>_.
     and_then (read_body dl incoming_default) (\<lambda>body.
     just (checked_response request body))))"

end
