(* ===== verification/H2_Status.thy ===== *)
theory H2_Status
  imports H2
begin

text \<open>
  HPACK as far as dog speaks it (\<open>dns-transport/src/h2.rs\<close>): integers in its format are read as
  they were written, digits in its Huffman code are decoded, and the status of a response is
  found however the server chose to write it.
\<close>

subsection \<open>Integers\<close>

lemma nat_and_127: "(n :: nat) AND 127 = n mod 128"
proof -
  have "n AND mask 7 = n mod 2 ^ 7" by (simp only: take_bit_eq_mask [symmetric] take_bit_eq_mod)
  moreover have "(mask 7 :: nat) = 127" by (simp add: mask_eq_exp_minus_1)
  ultimately show ?thesis by simp
qed

lemma group_value: "unat ((low_byte n OR 0x80) AND 0x7F) = n mod 128"
  "unat (low_byte n AND 0x7F) = n mod 128"
proof -
  have "(low_byte n OR 0x80) AND 0x7F = low_byte n AND 0x7F"
    by (simp add: bit.conj_disj_distrib2)
  moreover show v: "unat (low_byte n AND 0x7F) = n mod 128"
    by (simp add: low_byte_def unsigned_and_eq nat_and_127 unat_of_nat mod_mod_cancel)
  ultimately show "unat ((low_byte n OR 0x80) AND 0x7F) = n mod 128" by simp
qed

lemma group_flag: "(low_byte n OR 0x80) AND 0x80 \<noteq> 0" "n < 128 \<Longrightarrow> low_byte n AND 0x80 = 0"
proof -
  have "(low_byte n OR 0x80) AND 0x80 = (0x80 :: u8)"
    by (rule bit_word_eqI) (auto simp: bit_simps)
  then show "(low_byte n OR 0x80) AND 0x80 \<noteq> 0" by simp
  assume n: "n < 128"
  have "\<not> bit (low_byte n) 7"
    using n by (simp add: low_byte_def bit_simps bit_nat_def)
  then have "low_byte n AND 2 ^ 7 = 0" by (simp only: and_exp_eq_0_iff_not_bit not_False_eq_True)
  then show "low_byte n AND 0x80 = 0" by simp
qed

lemma integer_groups_rest:
  assumes "n < 128 ^ Suc k" and "0 < used"
  shows "integer_groups (Suc k) used v (integer_rest n @ rest)
    = Ok (v + n * 2 ^ (7 * (used - 1)), used + length (integer_rest n))"
  using assms
proof (induction k arbitrary: n used v)
  case 0
  then show ?case
    by (simp add: integer_rest.simps [of n] Let_def group_value group_flag push_bit_eq_mult)
next
  case (Suc k)
  show ?case
  proof (cases "0x80 \<le> n")
    case False
    then show ?thesis
      by (simp add: integer_rest.simps [of n] Let_def group_value group_flag push_bit_eq_mult)
  next
    case True
    let ?m = "drop_bit 7 n"
    let ?v = "v + (n mod 128) * 2 ^ (7 * (used - 1))"
    have m: "?m = n div 128" by (simp add: drop_bit_eq_div)
    have pow: "(2 :: nat) ^ (7 * used) = 128 * 2 ^ (7 * (used - 1))"
      using Suc.prems(2) by (cases used) (simp_all add: power_add)
    have "integer_groups (Suc k) (used + 1) ?v (integer_rest ?m @ rest)
        = Ok (?v + ?m * 2 ^ (7 * (used + 1 - 1)), used + 1 + length (integer_rest ?m))"
      by (rule Suc.IH) (use Suc.prems in \<open>simp_all add: m less_mult_imp_div_less mult.commute\<close>)
    moreover have "?v + ?m * 2 ^ (7 * used) = v + n * 2 ^ (7 * (used - 1))"
    proof -
      have "(n mod 128) * x + (n div 128) * (128 * x) = n * x" for x
        by (metis add.commute distrib_right div_mult_mod_eq mult.assoc)
      then show ?thesis by (simp add: m pow)
    qed
    ultimately show ?thesis
      using True
      by (simp add: integer_rest.simps [of n] Let_def group_value group_flag push_bit_eq_mult)
  qed
qed

text \<open>The low bits of the first byte, under a prefix of \<open>p\<close> bits, are the value; the others stay.\<close>

lemma first_byte_value:
  assumes "h AND mask p = 0" and "v < 2 ^ p" and "p \<le> 8"
  shows "unat (h OR low_byte v) AND (2 ^ p - 1) = v"
proof -
  have "unat (h OR low_byte v) AND (2 ^ p - 1) = take_bit p (unat (h OR low_byte v))"
    by (simp add: take_bit_eq_mask mask_eq_exp_minus_1)
  also have "\<dots> = unat (take_bit p (h OR low_byte v))" by (rule unsigned_take_bit_eq [symmetric])
  also have "take_bit p (h OR low_byte v) = take_bit p (low_byte v)"
    using assms(1) by (simp add: take_bit_eq_mask bit.conj_disj_distrib2)
  also have "unat (take_bit p (low_byte v)) = take_bit p (v mod 256)"
    by (simp add: low_byte_def unsigned_take_bit_eq unat_of_nat)
  also have "\<dots> = v"
  proof -
    have "(2 :: nat) ^ p \<le> 2 ^ 8" using assms(3) by (rule power_increasing) simp
    then have "v < 256" using assms(2) by simp
    then show ?thesis using assms(2) by (simp add: take_bit_eq_mod)
  qed
  finally show ?thesis .
qed

lemma first_byte_flags:
  assumes "m AND mask p = 0" and "v < 2 ^ p"
  shows "(h OR low_byte v) AND m = h AND m"
proof -
  have "low_byte v = low_byte v AND mask p"
    using assms(2)
    by (simp add: low_byte_def flip: take_bit_eq_mask)
      (simp add: take_bit_of_nat take_bit_nat_eq_self)
  then have "low_byte v AND m = low_byte v AND (m AND mask p)"
    by (metis and.assoc and.commute)
  then show ?thesis using assms(1) by (simp add: bit.conj_disj_distrib2)
qed

lemma integer_Cons:
  assumes "p \<le> 8"
  obtains v bs where "integer n p h = (h OR low_byte v) # bs" "v < 2 ^ p"
  by (cases "n < 2 ^ p - 1") (auto simp: integer_def Let_def)

lemma read_integer_write:
  assumes "h AND mask p = 0" and "0 < p" "p \<le> 8" and "n < 2 ^ p - 1 + 2 ^ 28"
  shows "read_integer (integer n p h @ rest) p = Ok (n, length (integer n p h))"
proof (cases "n < 2 ^ p - 1")
  case True
  with first_byte_value [of h p n] assms show ?thesis
    by (simp add: integer_def read_integer_def Let_def)
next
  case False
  let ?l = "2 ^ p - 1 :: nat"
  have four: "(4 :: nat) = Suc 3" by simp
  have small: "n - ?l < 128 ^ Suc 3" using assms(4) False by simp
  have "integer_groups (Suc 3) 1 ?l (integer_rest (n - ?l) @ rest)
      = Ok (?l + (n - ?l) * 2 ^ (7 * (1 - 1)), 1 + length (integer_rest (n - ?l)))"
    by (rule integer_groups_rest [OF small]) simp
  also have "?l + (n - ?l) * 2 ^ (7 * (1 - 1)) = n" using False by simp
  finally have "integer_groups 4 1 ?l (integer_rest (n - ?l) @ rest) = Ok (n, 1 + length (integer_rest (n - ?l)))"
    by (simp only: four)
  moreover have "unat (h OR low_byte (2 ^ p - 1)) AND (2 ^ p - 1) = 2 ^ p - 1"
    using first_byte_value [of h p "2 ^ p - 1"] assms by simp
  ultimately show ?thesis
    using False by (simp add: integer_def read_integer_def Let_def)
qed


text \<open>
  Every integer below 2 to the 28 is read back as it was written, whatever bits are in the
  byte above its prefix and whatever follows it, and the reader stops where it ends. Larger ones
  are refused, so that no shift or addition overflows.
\<close>

theorem integer_round_trip:
  assumes "h AND mask p = 0" and "0 < p" and "p \<le> 8" and "n < 2 ^ 28"
  shows "read_integer (integer n p h @ rest) p = Ok (n, length (integer n p h))"
proof (rule read_integer_write)
  have "(2 :: nat) ^ 28 \<le> 2 ^ p - 1 + 2 ^ 28" by simp
  with assms(4) show "n < 2 ^ p - 1 + 2 ^ 28" by (rule less_le_trans)
qed (use assms in simp_all)

lemma integer_round_trip_witness:
  "read_integer (integer 1337 5 0xE0 @ [7]) 5 = Ok (1337, 3) \<and> integer 1337 5 0xE0 = [0xFF, 0x9A, 0x0A]"
proof -
  have i: "integer 1337 5 0xE0 = [0xFF, 0x9A, 0x0A]"
    by (simp add: integer_def Let_def low_byte_def integer_rest.simps drop_bit_eq_div)
  have "(0xE0 :: u8) AND mask 5 = 0" by (simp add: mask_eq_exp_minus_1)
  from integer_round_trip [OF this, of 1337 "[7]"] i show ?thesis by simp
qed


subsection \<open>Huffman-coded digits\<close>

text \<open>The bits of a digit's code, and the coding of a text: the codes, and then ones.\<close>

definition digit_code :: "nat \<Rightarrow> u8 list" where
  "digit_code d =
     (case HUFFMAN_DIGITS ! d of (code, len) \<Rightarrow> map (\<lambda>shift. ucast (drop_bit shift code AND 1)) (rev [0..<len]))"

definition huffman_coded :: "u8 list \<Rightarrow> string \<Rightarrow> bool" where
  "huffman_coded raw text \<longleftrightarrow> list_all is_ascii_digit text \<and>
     (\<exists>k < 8. concat (map byte_bits raw) = concat (map (\<lambda>c. digit_code (digit_value c)) text) @ replicate k 1)"

lemma less_10_cases: "d < (10 :: nat) \<Longrightarrow> d \<in> {0, 1, 2, 3, 4, 5, 6, 7, 8, 9}"
  by auto

lemma find_code:
  "List.find (\<lambda>i. HUFFMAN_DIGITS ! i = x) [0..<10] =
     (if x = (0, 5) then Some 0 else if x = (1, 5) then Some 1 else if x = (2, 5) then Some 2
      else if x = (0x19, 6) then Some 3 else if x = (0x1A, 6) then Some 4 else if x = (0x1B, 6) then Some 5
      else if x = (0x1C, 6) then Some 6 else if x = (0x1D, 6) then Some 7 else if x = (0x1E, 6) then Some 8
      else if x = (0x1F, 6) then Some 9 else None)"
proof -
  have "[0..<10] = [0, 1, 2, 3, 4, 5, 6, 7, 8, 9 :: nat]" by (simp add: upt_rec)
  then show ?thesis by (simp add: HUFFMAN_DIGITS_def eq_commute [of _ x])
qed

lemma digit_codes:
  "digit_code 0 = [0, 0, 0, 0, 0]"
  "digit_code 1 = [0, 0, 0, 0, 1]"
  "digit_code 2 = [0, 0, 0, 1, 0]"
  "digit_code 3 = [0, 1, 1, 0, 0, 1]"
  "digit_code 4 = [0, 1, 1, 0, 1, 0]"
  "digit_code 5 = [0, 1, 1, 0, 1, 1]"
  "digit_code 6 = [0, 1, 1, 1, 0, 0]"
  "digit_code 7 = [0, 1, 1, 1, 0, 1]"
  "digit_code 8 = [0, 1, 1, 1, 1, 0]"
  "digit_code 9 = [0, 1, 1, 1, 1, 1]"
proof -
  have u: "[0..<5] = [0, 1, 2, 3, 4 :: nat]" "[0..<6] = [0, 1, 2, 3, 4, 5 :: nat]" by (simp_all add: upt_rec)
  show
  "digit_code 0 = [0, 0, 0, 0, 0]"
  "digit_code 1 = [0, 0, 0, 0, 1]"
  "digit_code 2 = [0, 0, 0, 1, 0]"
  "digit_code 3 = [0, 1, 1, 0, 0, 1]"
  "digit_code 4 = [0, 1, 1, 0, 1, 0]"
  "digit_code 5 = [0, 1, 1, 0, 1, 1]"
  "digit_code 6 = [0, 1, 1, 1, 0, 0]"
  "digit_code 7 = [0, 1, 1, 1, 0, 1]"
  "digit_code 8 = [0, 1, 1, 1, 1, 0]"
  "digit_code 9 = [0, 1, 1, 1, 1, 1]"
    by (simp_all add: digit_code_def HUFFMAN_DIGITS_def u drop_bit_eq_div del: upt_Suc)
qed

lemma huffman_step:
  "huffman_bits (bt # bits) acc code len =
     (let code = push_bit 1 code OR ucast bt; len = Suc len in
      case List.find (\<lambda>i. HUFFMAN_DIGITS ! i = (code, len)) [0..<10] of
        Some i \<Rightarrow> huffman_bits bits (acc @ [word_of_nat (48 + i)]) 0 0
      | None \<Rightarrow>
          if 7 < len then malformed ''The response status is not Huffman-coded digits''
          else huffman_bits bits acc code len)"
  by simp

lemma huffman_bits_digit:
  "d < 10 \<Longrightarrow> huffman_bits (digit_code d @ bits) acc 0 0 = huffman_bits bits (acc @ [word_of_nat (48 + d)]) 0 0"
  by (drule less_10_cases)
    (elim insertE emptyE; simp add: digit_codes digit_codes(2) [unfolded One_nat_def] huffman_step find_code Let_def push_bit_eq_mult del: huffman_bits.simps)

lemma huffman_bits_digits:
  "list_all (\<lambda>d. d < 10) ds \<Longrightarrow>
     huffman_bits (concat (map digit_code ds) @ bits) acc 0 0
       = huffman_bits bits (acc @ map (\<lambda>d. word_of_nat (48 + d)) ds) 0 0"
  by (induction ds arbitrary: acc) (simp_all add: huffman_bits_digit)

lemma huffman_bits_ones: "k < 8 \<Longrightarrow> huffman_bits (replicate k 1) acc 0 0 = Ok (acc, push_bit k 1 - 1, k)"
proof -
  assume "k < 8"
  then have k: "k \<in> {0, 1, 2, 3, 4, 5, 6, 7}" by auto
  have r: "replicate 2 b = [b, b]" "replicate 3 b = [b, b, b]" "replicate 4 b = [b, b, b, b]"
    "replicate 5 b = [b, b, b, b, b]" "replicate 6 b = [b, b, b, b, b, b]"
    "replicate 7 b = [b, b, b, b, b, b, b]" for b :: u8
    by (simp_all add: numeral_eq_Suc)
  from k show ?thesis
    by (elim insertE emptyE; simp add: r huffman_step find_code Let_def push_bit_eq_mult del: huffman_bits.simps(2))
qed

lemma huffman_digits_coded:
  assumes "huffman_coded raw text"
  shows "huffman_digits raw = Ok (bytes_of text)"
proof -
  from assms obtain k where
    k: "k < 8" "concat (map byte_bits raw) = concat (map digit_code (map digit_value text)) @ replicate k 1"
    and digits: "list_all is_ascii_digit text"
    by (auto simp: huffman_coded_def comp_def)
  have ten: "list_all (\<lambda>d. d < 10) (map digit_value text)"
    using digits by (auto simp: list_all_iff is_ascii_digit_def digit_value_def)
  have "map (\<lambda>d. word_of_nat (48 + d)) (map digit_value text) = bytes_of text"
    using digits by (auto simp: list_all_iff bytes_of_def byte_of_char_def is_ascii_digit_def digit_value_def)
  then have "huffman_bits (concat (map byte_bits raw)) [] 0 0 = Ok (bytes_of text, push_bit k 1 - 1, k)"
    unfolding k(2) huffman_bits_digits [OF ten] append_Nil by (simp only: huffman_bits_ones [OF k(1)])
  then show ?thesis by (simp add: huffman_digits_def)
qed


subsection \<open>Statuses\<close>

text \<open>A string as a server may write it: as it is, or in the Huffman code.\<close>

definition hpack_string :: "u8 list \<Rightarrow> string \<Rightarrow> bool" where
  "hpack_string s text \<longleftrightarrow>
     (s = integer (length text) 7 0 @ bytes_of text \<and> length text < 2 ^ 28)
     \<or> (\<exists>raw. s = integer (length raw) 7 0x80 @ raw \<and> length raw < 2 ^ 28 \<and> huffman_coded raw text)"

text \<open>
  A status as a server may write it (RFC 7541): an entry of the static table, or three digits
  under the name of any of the table's statuses, to be added to the dynamic table, not to be
  added, or never to be.
\<close>

inductive status_field :: "u8 list \<Rightarrow> u16 \<Rightarrow> bool" where
  indexed: "i < 7 \<Longrightarrow> status_field (integer (8 + i) 7 0x80) (STATIC_STATUSES ! i)"
| literal: "(p, h) \<in> {(6, 0x40), (4, 0x00), (4, 0x10)} \<Longrightarrow> i < 7 \<Longrightarrow> n < 1000 \<Longrightarrow>
    hpack_string s (dec_padded 3 n) \<Longrightarrow> status_field (integer (8 + i) p h @ s) (word_of_nat n)"

lemma read_hpack_string_written:
  assumes "hpack_string s text"
  shows "read_hpack_string (s @ rest) = Ok (bytes_of text)"
proof -
  have 80: "(0x80 :: u8) AND mask 7 = 0" by (simp add: mask_eq_exp_minus_1)
  have read: "read_integer (integer n 7 h @ v @ rest) 7 = Ok (n, length (integer n 7 h))"
    if "n < 2 ^ 28" "h = 0 \<or> h = 0x80" for n h v
    using that 80 by (intro read_integer_write) auto
  have slice: "Option.bind (slice_from (length a) (a @ v @ rest)) (slice_to (length v)) = Some v" for a v :: "u8 list"
    by (simp add: slice_from_def slice_to_def)
  have flag: "\<exists>b bs. integer n 7 h = b # bs \<and> b AND 0x80 = h AND 0x80" for n h
  proof -
    obtain v bs where "integer n 7 h = (h OR low_byte v) # bs" "v < 2 ^ 7" by (rule integer_Cons [of 7]) auto
    with first_byte_flags [OF 80, of v h] show ?thesis by blast
  qed
  from assms consider
    "s = integer (length text) 7 0 @ bytes_of text" "length text < 2 ^ 28"
    | raw where "s = integer (length raw) 7 0x80 @ raw" "length raw < 2 ^ 28" "huffman_coded raw text"
    by (auto simp: hpack_string_def)
  then show ?thesis
  proof cases
    case 1
    with read [of "length text" 0 "bytes_of text"] flag [of "length text" 0]
      slice [of "integer (length text) 7 0" "bytes_of text"]
    show ?thesis by (auto simp: read_hpack_string_def)
  next
    case 2
    with read [of "length raw" "0x80" raw] flag [of "length raw" "0x80"]
      slice [of "integer (length raw) 7 0x80" raw]
    show ?thesis by (auto simp: read_hpack_string_def huffman_digits_coded)
  qed
qed

lemma parse_status_digits: "n < 1000 \<Longrightarrow> parse_status (bytes_of (dec_padded 3 n)) = Ok (word_of_nat n)"
proof -
  assume n: "n < 1000"
  let ?t = "dec_padded 3 n"
  have digits: "list_all is_ascii_digit ?t" by (rule dec_padded_digits)
  then have "list_all (\<lambda>b. b < 0x80) (bytes_of ?t)"
    by (auto simp: bytes_of_def list_all_iff word_less_nat_alt is_ascii_digit_def)
  then have utf8: "from_utf8 (bytes_of ?t) = Some ?t" by (simp add: from_utf8_def is_utf8_ascii)
  have len: "length ?t = 3" using n by (simp add: length_dec_padded)
  then have "?t \<noteq> []" by auto
  moreover have "(case ?t of c # d # rest \<Rightarrow> if c = CHR ''+'' then d # rest else ?t | _ \<Rightarrow> ?t) = ?t"
    using digits by (auto simp: is_ascii_digit_def split: list.split)
  ultimately have "parse_unsigned 65536 ?t = Some n"
    using digits n by (simp add: parse_unsigned_def digits_value_dec_padded)
  with utf8 len digits show ?thesis by (simp add: parse_status_def parse_u16_def)
qed

lemma less_7_cases: "i < (7 :: nat) \<Longrightarrow> i \<in> {0, 1, 2, 3, 4, 5, 6}"
  by auto

lemma first_field_updates:
  assumes "list_all (\<lambda>s. s < 2 ^ 28) sizes" and "b AND 0xE0 \<noteq> 0x20"
  shows "first_field_from (length pre) (pre @ concat (map (\<lambda>s. integer s 5 0x20) sizes) @ b # bs)
    = Ok (length (pre @ concat (map (\<lambda>s. integer s 5 0x20) sizes)))"
  using assms(1)
proof (induction sizes arbitrary: pre)
  case Nil
  with assms(2) show ?case by (simp add: first_field_from.simps)
next
  case (Cons s sizes)
  let ?i = "integer s 5 0x20"
  let ?rest = "concat (map (\<lambda>s. integer s 5 0x20) sizes) @ b # bs"
  have 20: "(0x20 :: u8) AND mask 5 = 0" "(0xE0 :: u8) AND mask 5 = 0"
    by (simp_all add: mask_eq_exp_minus_1)
  obtain v cs where i: "?i = (0x20 OR low_byte v) # cs" "v < 2 ^ 5" by (rule integer_Cons [of 5]) auto
  then have "(0x20 OR low_byte v) AND 0xE0 = 0x20" by (simp add: first_byte_flags [OF 20(2)])
  moreover have "read_integer (?i @ ?rest) 5 = Ok (s, length ?i)"
    using Cons.prems 20(1) by (intro read_integer_write) auto
  ultimately have "first_field_from (length pre) (pre @ ?i @ ?rest)
      = first_field_from (length (pre @ ?i)) ((pre @ ?i) @ ?rest)"
    using i(1) by (subst first_field_from.simps) (simp add: nth_append)
  with Cons.IH [of "pre @ ?i"] Cons.prems show ?case by simp
qed

lemma status_of_field:
  assumes "status_field f n" and "list_all (\<lambda>s. s < 2 ^ 28) sizes"
  shows "status (concat (map (\<lambda>s. integer s 5 0x20) sizes) @ f @ rest) = Ok n"
proof -
  have field: "first_field (concat (map (\<lambda>s. integer s 5 0x20) sizes) @ b # bs) = Ok (b # bs)"
    if "b AND 0xE0 \<noteq> 0x20" for b bs
    using first_field_updates [OF assms(2) that, of "[]" bs]
    by (simp add: first_field_def slice_from_def)
  from assms(1) show ?thesis
  proof cases
    case (indexed i)
    then have f: "f = [0x88 + word_of_nat i]" "(0x88 + word_of_nat i :: u8) AND 0xE0 \<noteq> 0x20"
      "(0x88 + word_of_nat i :: u8) AND 0x80 \<noteq> 0"
      "read_integer ((0x88 + word_of_nat i) # rest) 7 = Ok (8 + i, 1)"
      by (auto simp: integer_def low_byte_def read_integer_def Let_def dest!: less_7_cases)
    then show ?thesis
      using indexed field [of "0x88 + word_of_nat i" rest]
      by (simp add: status_def static_status_def STATIC_STATUSES_def)
  next
    case (literal p h i k s)
    then obtain b where f: "integer (8 + i) p h = [b]" "b AND 0xE0 \<noteq> 0x20" "b AND 0x80 = 0"
      "p = (if b AND 0x40 \<noteq> 0 then 6 else 4)" "read_integer (b # s @ rest) p = Ok (8 + i, 1)"
      by (auto simp: integer_def low_byte_def read_integer_def Let_def dest!: less_7_cases)
    then show ?thesis
      using literal field [of b "s @ rest"] read_hpack_string_written [OF literal(6), of rest]
      by (simp add: status_def static_status_def STATIC_STATUSES_def parse_status_digits)
  qed
qed


lemma byte_bits_eq:
  "byte_bits b = [drop_bit 7 b AND 1, drop_bit 6 b AND 1, drop_bit 5 b AND 1, drop_bit 4 b AND 1,
                  drop_bit 3 b AND 1, drop_bit 2 b AND 1, drop_bit 1 b AND 1, drop_bit 0 b AND 1]"
proof -
  have u: "[0..<8] = [0, 1, 2, 3, 4, 5, 6, 7 :: nat]" by (simp add: upt_rec)
  show ?thesis unfolding byte_bits_def u by simp
qed


end
