(* ===== verification/H2_Frames.thy ===== *)
theory H2_Frames
  imports H2_Status
begin

text \<open>
  HTTP/2 frames (\<open>dns-transport/src/h2.rs\<close>): what dog sends is a request as RFC 9113 lays it out,
  and any response that the RFC allows, with the settings, pings and unknown frames that may come
  in the middle of it, is read as its body.
\<close>

subsection \<open>Frames as bytes\<close>

definition frame_bytes :: "Frame \<Rightarrow> u8 list" where
  "frame_bytes f =
     [word_of_nat (length (frame_payload f) div 65536), word_of_nat (length (frame_payload f) div 256),
      word_of_nat (length (frame_payload f)), frame_kind f, frame_flags f]
     @ be_bytes32 (frame_stream f) @ frame_payload f"

text \<open>A frame that fits: its payload is not too long, and its stream has 31 bits.\<close>

definition proper_frame :: "Frame \<Rightarrow> bool" where
  "proper_frame f \<longleftrightarrow> length (frame_payload f) \<le> MAX_FRAME \<and> frame_stream f AND 0x7FFFFFFF = frame_stream f"

lemma length_bits:
  assumes "n \<le> MAX_FRAME"
  shows "push_bit 16 (unat (word_of_nat (n div 65536) :: u8)) OR push_bit 8 (unat (word_of_nat (n div 256) :: u8))
    OR unat (word_of_nat n :: u8) = n"
proof -
  have a: "n div 65536 = 0" "n div 256 < 256" using assms by (simp_all add: MAX_FRAME_def)
  have no_bit: "\<not> bit (n mod 256) i" if "8 \<le> i" for i
  proof -
    have "(2 :: nat) ^ 8 \<le> 2 ^ i" using that by (rule power_increasing) simp
    moreover have "n mod 256 < 2 ^ 8" by simp
    ultimately have "n mod 256 < 2 ^ i" by (rule less_le_trans [rotated])
    then show ?thesis by (simp add: bit_nat_def)
  qed
  have "push_bit 8 (n div 256) + n mod 256 = push_bit 8 (n div 256) OR n mod 256"
    by (rule disjunctive_add) (auto simp: bit_push_bit_iff no_bit not_le intro: no_bit)
  then show ?thesis using a by (simp add: unat_of_nat push_bit_eq_mult)
qed

lemma frame_eq:
  "frame kind flags stream bytes =
     (if length bytes \<le> MAX_FRAME
      then Ok (frame_bytes \<lparr>frame_kind = kind, frame_flags = flags, frame_stream = stream, frame_payload = bytes\<rparr>)
      else malformed (''The request needs a frame of '' @ dec (length bytes) @ '' bytes, more than the ''
                      @ dec MAX_FRAME @ '' allowed''))"
proof (cases "length bytes \<le> MAX_FRAME")
  case True
  have "drop 1 (be_bytes32 (word_of_nat (length bytes))) =
      [word_of_nat (length bytes div 65536), word_of_nat (length bytes div 256), word_of_nat (length bytes)]"
    using True by (simp add: be_bytes32_def MAX_FRAME_def word_unat_eq_iff unat_of_nat)
  with True show ?thesis by (simp add: frame_def frame_bytes_def)
qed (simp add: frame_def)

lemma be32_be_bytes32_nth:
  "be32 (be_bytes32 w ! 0) (be_bytes32 w ! 1) (be_bytes32 w ! 2) (be_bytes32 w ! 3) = w"
  using be32_be_bytes32 [of w] by (simp add: be_bytes32_def)

text \<open>A frame that arrives is read.\<close>

lemma read_fully_steady:
  assumes "steady evs" and "incoming w = evs @ later" and "clock w + delays evs < dl_at dl"
    and "payload evs = bytes @ rest"
  obtains w' evs' where "read_fully dl (length bytes) w = (Ok bytes, w')" "payload evs' = rest"
    "reads_on w evs w' evs' later"
  using stream_read_exact_steady [OF assms(1-3), of "length bytes"] assms(4)
  by (auto simp: read_fully_def)

lemma read_frame_steady:
  assumes "proper_frame f"
    and "steady evs" and "incoming w = evs @ later" and "clock w + delays evs < dl_at dl"
    and "payload evs = frame_bytes f @ rest"
  obtains w' evs' where "read_frame dl w = (Ok f, w')" "payload evs' = rest" "reads_on w evs w' evs' later"
proof -
  let ?n = "length (frame_payload f)"
  let ?head = "[word_of_nat (?n div 65536), word_of_nat (?n div 256), word_of_nat ?n, frame_kind f, frame_flags f]
      @ be_bytes32 (frame_stream f)"
  have nine: "length ?head = 9" by (simp add: be_bytes32_def)
  have "payload evs = ?head @ frame_payload f @ rest" using assms(5) by (simp add: frame_bytes_def)
  from read_fully_steady [OF assms(2-4) this] obtain v es where
    head: "read_fully dl 9 w = (Ok ?head, v)" "payload es = frame_payload f @ rest" "reads_on w evs v es later"
    unfolding nine by metis
  from head(3) assms(4) have "steady es" "incoming v = es @ later" "clock v + delays es < dl_at dl"
    by (auto simp: reads_on_def)
  from read_fully_steady [OF this head(2)] obtain w' es' where
    body: "read_fully dl ?n v = (Ok (frame_payload f), w')" "payload es' = rest" "reads_on v es w' es' later"
    by metis
  have len: "?n \<le> MAX_FRAME" and stream: "frame_stream f AND 0x7FFFFFFF = frame_stream f"
    using assms(1) by (simp_all add: proper_frame_def)
  have "be32 (?head ! 5) (?head ! 6) (?head ! 7) (?head ! 8) = frame_stream f"
    using be32_be_bytes32_nth [of "frame_stream f"] by simp
  with len stream head(1) body(1) length_bits [OF len] have "read_frame dl w = (Ok f, w')"
    by (simp add: read_frame_def and_then_def just_def Let_def)
  with body reads_on_trans [OF head(3) body(3)] that show ?thesis by blast
qed


subsection \<open>The content of a frame\<close>

text \<open>
  The content of a HEADERS or DATA frame, as RFC 9113 has it: after the length of the padding,
  where the flag says there is padding, and the priority, where there is that; before the padding.
\<close>

definition carries :: "Frame \<Rightarrow> u8 list \<Rightarrow> bool" where
  "carries f chunk \<longleftrightarrow>
     (\<exists>priority padding. length padding < 256
        \<and> (frame_flags f AND PADDED = 0 \<longrightarrow> padding = [])
        \<and> length priority = (if frame_kind f = HEADERS \<and> frame_flags f AND PRIORITY \<noteq> 0 then 5 else 0)
        \<and> frame_payload f =
            (if frame_flags f AND PADDED \<noteq> 0 then [word_of_nat (length padding)] else [])
            @ priority @ chunk @ padding)"

lemma carries_content:
  assumes "carries f chunk"
  shows "content f = Ok chunk"
proof -
  from assms obtain priority padding where
    len: "length padding < 256" "frame_flags f AND PADDED = 0 \<longrightarrow> padding = []"
    "length priority = (if frame_kind f = HEADERS \<and> frame_flags f AND PRIORITY \<noteq> 0 then 5 else 0)"
    and bytes: "frame_payload f = (if frame_flags f AND PADDED \<noteq> 0 then [word_of_nat (length padding)] else [])
            @ priority @ chunk @ padding"
    unfolding carries_def by blast
  show ?thesis
  proof (cases "frame_kind f = HEADERS \<and> frame_flags f AND PRIORITY \<noteq> 0")
    case True
    then have "length priority = 5" using len(3) by simp
    with True len(1,2) bytes show ?thesis
      by (auto simp: content_def slice_from_def)
  next
    case False
    then have "priority = []" using len(3) by auto
    with False len(1,2) bytes show ?thesis
      by (auto simp: content_def)
  qed
qed


subsection \<open>Responses\<close>

text \<open>
  Frames that say nothing of the response, and what has to be sent in answer to them: the
  server's settings, and pings, are to be acknowledged; frames of other streams, and of types
  that are not known, are to be ignored.
\<close>

definition acknowledgement :: "u8 \<Rightarrow> u8 list \<Rightarrow> u8 list" where
  "acknowledgement kind bytes =
     frame_bytes \<lparr>frame_kind = kind, frame_flags = ACK, frame_stream = 0, frame_payload = bytes\<rparr>"

inductive bystander :: "Frame \<Rightarrow> u8 list option \<Rightarrow> bool" where
  settings: "frame_kind f = SETTINGS \<Longrightarrow> frame_flags f AND ACK = 0 \<Longrightarrow>
    bystander f (Some (acknowledgement SETTINGS []))"
| ping: "frame_kind f = PING \<Longrightarrow> frame_flags f AND ACK = 0 \<Longrightarrow>
    bystander f (Some (acknowledgement PING (frame_payload f)))"
| acknowledged: "frame_kind f \<in> {SETTINGS, PING} \<Longrightarrow> frame_flags f AND ACK \<noteq> 0 \<Longrightarrow> bystander f None"
| other_stream: "frame_kind f \<in> {DATA, HEADERS, RST_STREAM} \<Longrightarrow> frame_stream f \<noteq> STREAM \<Longrightarrow> bystander f None"
| unknown: "frame_kind f \<notin> {DATA, HEADERS, RST_STREAM, SETTINGS, PUSH_PROMISE, PING, GOAWAY} \<Longrightarrow>
    bystander f None"

text \<open>
  The frames of a response, from where its final headers have been seen or not: its body, and
  what is to be sent while it comes.
\<close>

definition ends :: "Frame \<Rightarrow> bool" where
  "ends f \<longleftrightarrow> frame_flags f AND END_STREAM \<noteq> 0"

definition ours :: "u8 \<Rightarrow> Frame \<Rightarrow> bool" where
  "ours kind f \<longleftrightarrow> frame_kind f = kind \<and> frame_stream f = STREAM"

definition head_of :: "Frame \<Rightarrow> u16 \<Rightarrow> bool" where
  "head_of f code \<longleftrightarrow> ours HEADERS f \<and> (\<exists>block. carries f block \<and> status block = Ok code)"

inductive response_frames :: "bool \<Rightarrow> Frame list \<Rightarrow> u8 list \<Rightarrow> u8 list \<Rightarrow> bool" where
  between: "bystander f reply \<Longrightarrow> response_frames h fs body replies \<Longrightarrow>
    response_frames h (f # fs) body ((case reply of None \<Rightarrow> [] | Some bytes \<Rightarrow> bytes) @ replies)"
| informational: "head_of f code \<Longrightarrow> 100 \<le> code \<Longrightarrow> code \<le> 199 \<Longrightarrow> response_frames False fs body replies \<Longrightarrow>
    response_frames False (f # fs) body replies"
| head: "head_of f 200 \<Longrightarrow> \<not> ends f \<Longrightarrow> response_frames True fs body replies \<Longrightarrow>
    response_frames False (f # fs) body replies"
| head_only: "head_of f 200 \<Longrightarrow> ends f \<Longrightarrow> response_frames False [f] [] []"
| chunk: "ours DATA f \<Longrightarrow> carries f bytes \<Longrightarrow> \<not> ends f \<Longrightarrow> response_frames True fs body replies \<Longrightarrow>
    response_frames True (f # fs) (bytes @ body) replies"
| last_chunk: "ours DATA f \<Longrightarrow> carries f bytes \<Longrightarrow> ends f \<Longrightarrow> response_frames True [f] bytes []"
| trailers: "ours HEADERS f \<Longrightarrow> \<not> ends f \<Longrightarrow> response_frames True fs body replies \<Longrightarrow>
    response_frames True (f # fs) body replies"
| last_trailers: "ours HEADERS f \<Longrightarrow> ends f \<Longrightarrow> response_frames True [f] [] []"

lemmas handle_defs = handle_def h2_headers_def h2_data_def Let_def frame_types frame_flags_defs STREAM_def

lemma handle_bystander:
  assumes "bystander f reply" and "proper_frame f"
  shows "handle inc f = Ok (reply, inc)"
  using assms
  by cases (auto simp: handle_def Let_def frame_eq acknowledgement_def proper_frame_def frame_types)

text \<open>One frame read, dealt with, and answered.\<close>

definition left_of :: "'w net_scheme \<Rightarrow> (nat \<times> read_event) list \<Rightarrow> Deadline \<Rightarrow> (nat \<times> read_event) list \<Rightarrow> bool" where
  "left_of w evs dl later \<longleftrightarrow> steady evs \<and> incoming w = evs @ later \<and> accepts w = []
     \<and> clock w + delays evs < dl_at dl"

lemma next_frame_steady:
  assumes "proper_frame f" and "left_of w evs dl later" and "payload evs = frame_bytes f @ rest"
    and "handle inc f = Ok (reply, inc')"
  obtains w' evs' where "next_frame dl inc w = (Ok inc', w')" "payload evs' = rest" "left_of w' evs' dl later"
    "outgoing w' = outgoing w @ (case reply of None \<Rightarrow> [] | Some bytes \<Rightarrow> bytes)"
proof -
  from assms(2) have "steady evs" "incoming w = evs @ later" "clock w + delays evs < dl_at dl" and acc: "accepts w = []"
    by (auto simp: left_of_def)
  from read_frame_steady [OF assms(1) this(1-3) assms(3)] obtain v es where
    read: "read_frame dl w = (Ok f, v)" "payload es = rest" "reads_on w evs v es later" by metis
  have left: "left_of v es dl later" "outgoing v = outgoing w"
    using read(3) assms(2) by (auto simp: left_of_def reads_on_def)
  show ?thesis
  proof (cases reply)
    case None
    with read assms(4) have "next_frame dl inc w = (Ok inc', v)"
      by (simp add: next_frame_def and_then_def just_def send_reply_def)
    with None read(2) left that show ?thesis by simp
  next
    case (Some bytes)
    let ?u = "v\<lparr>outgoing := outgoing v @ bytes\<rparr>"
    have "accepts v = []" "clock v < dl_at dl" using left(1) by (auto simp: left_of_def)
    from stream_write_all_free [OF this, of bytes]
    have "next_frame dl inc w = (Ok inc', ?u)"
      using Some read assms(4)
      by (simp add: next_frame_def and_then_def just_def send_reply_def write_fully_def)
    moreover have "left_of ?u es dl later" using left(1) by (simp add: left_of_def)
    ultimately show ?thesis using that [of ?u es] Some read(2) left(2) by simp
  qed
qed

lemma read_body_step:
  assumes "\<not> inc_ended inc" and "next_frame dl inc w = (Ok inc', w')"
  shows "read_body dl inc w = read_body dl inc' w'"
  using assms by (simp add: read_body.simps [of dl inc w])

lemma read_body_ended [simp]: "inc_ended inc \<Longrightarrow> read_body dl inc w = (Ok (inc_body inc), w)"
  by (simp add: read_body.simps)

lemma handle_head:
  assumes "head_of f code" and "\<not> inc_headers inc"
  shows "handle inc f =
    (if code = 200 then Ok (None, inc\<lparr>inc_headers := True, inc_ended := ends f\<rparr>)
     else if 100 \<le> code \<and> code \<le> 199 then Ok (None, inc) else Err (E_WrongHttpStatus code None))"
  using assms
  by (auto simp: head_of_def ours_def ends_def handle_def h2_headers_def Let_def frame_types dest!: carries_content)

lemma handle_chunk:
  assumes "ours DATA f" and "carries f bytes" and "inc_headers inc"
    and "length (inc_body inc @ bytes) \<le> MAX_BODY"
  shows "handle inc f = Ok (None, inc\<lparr>inc_body := inc_body inc @ bytes, inc_ended := ends f\<rparr>)"
  using assms carries_content [OF assms(2)]
  by (simp add: ours_def ends_def handle_def h2_data_def Let_def frame_types)

lemma handle_trailers:
  assumes "ours HEADERS f" and "inc_headers inc"
  shows "handle inc f = Ok (None, inc\<lparr>inc_ended := ends f\<rparr>)"
  using assms by (simp add: ours_def ends_def handle_def h2_headers_def Let_def frame_types)

text \<open>From this state, frames that arrive in time are read as this body, with these replies sent.\<close>

definition reads_as ::
  "'w net_scheme itself \<Rightarrow> Deadline \<Rightarrow> (nat \<times> read_event) list \<Rightarrow> u8 list \<Rightarrow> Incoming \<Rightarrow> Frame list \<Rightarrow>
     u8 list \<Rightarrow> u8 list \<Rightarrow> bool" where
  "reads_as _ dl later rest inc fs body replies \<longleftrightarrow>
     (\<forall>(w :: 'w net_scheme) evs. left_of w evs dl later \<longrightarrow> payload evs = concat (map frame_bytes fs) @ rest \<longrightarrow>
       (\<exists>w'. read_body dl inc w = (Ok body, w') \<and> outgoing w' = outgoing w @ replies))"

lemma reads_as_ended:
  "inc_ended inc \<Longrightarrow> inc_body inc = body \<Longrightarrow> reads_as n dl later rest inc [] body []"
  by (simp add: reads_as_def)

lemma reads_as_step:
  assumes "proper_frame f" and "\<not> inc_ended inc" and handled: "handle inc f = Ok (reply, inc')"
    and rest: "reads_as (n :: 'w net_scheme itself) dl later rest inc' fs body replies"
  shows "reads_as n dl later rest inc (f # fs) body
    ((case reply of None \<Rightarrow> [] | Some bytes \<Rightarrow> bytes) @ replies)"
  unfolding reads_as_def
proof (intro allI impI)
  fix w :: "'w net_scheme" and evs
  assume left: "left_of w evs dl later" and bytes: "payload evs = concat (map frame_bytes (f # fs)) @ rest"
  from bytes have "payload evs = frame_bytes f @ concat (map frame_bytes fs) @ rest" by simp
  from next_frame_steady [OF assms(1) left this handled] obtain v es where
    v: "next_frame dl inc w = (Ok inc', v)" "payload es = concat (map frame_bytes fs) @ rest"
    "left_of v es dl later" "outgoing v = outgoing w @ (case reply of None \<Rightarrow> [] | Some bytes \<Rightarrow> bytes)"
    by metis
  from rest v(2,3) obtain w' where "read_body dl inc' v = (Ok body, w')" "outgoing w' = outgoing v @ replies"
    unfolding reads_as_def by blast
  then show "\<exists>w'. read_body dl inc w = (Ok body, w')
      \<and> outgoing w' = outgoing w @ (case reply of None \<Rightarrow> [] | Some bytes \<Rightarrow> bytes) @ replies"
    using read_body_step [OF assms(2) v(1)] v(4) by simp
qed

lemmas reads_as_quiet = reads_as_step [where reply = None, unfolded option.case append_Nil]

lemma response_reads_as:
  assumes "response_frames h fs body replies" and "list_all proper_frame fs"
    and "inc_headers inc = h" and "\<not> inc_ended inc" and "length (inc_body inc @ body) \<le> MAX_BODY"
  shows "reads_as n dl later rest inc fs (inc_body inc @ body) replies"
  using assms
proof (induction arbitrary: inc rule: response_frames.induct)
  case (between f reply h fs body replies)
  then show ?case by (intro reads_as_step [OF _ _ handle_bystander]) auto
next
  case (informational f code fs body replies)
  then have handled: "handle inc f = Ok (None, inc)" by (auto simp: handle_head)
  with informational show ?case by (intro reads_as_quiet [OF _ _ handled]) auto
next
  case (head f fs body replies)
  then have handled: "handle inc f = Ok (None, inc\<lparr>inc_headers := True, inc_ended := False\<rparr>)"
    by (simp add: handle_head)
  with head.IH [of "inc\<lparr>inc_headers := True, inc_ended := False\<rparr>"] head.prems show ?case
    by (intro reads_as_quiet [OF _ _ handled]) auto
next
  case (head_only f)
  then have handled: "handle inc f = Ok (None, inc\<lparr>inc_headers := True, inc_ended := True\<rparr>)"
    by (simp add: handle_head)
  with head_only.prems show ?case by (intro reads_as_quiet [OF _ _ handled reads_as_ended]) auto
next
  case (chunk f bytes fs body replies)
  then have handled: "handle inc f = Ok (None, inc\<lparr>inc_body := inc_body inc @ bytes, inc_ended := False\<rparr>)"
    by (simp add: handle_chunk)
  with chunk.IH [of "inc\<lparr>inc_body := inc_body inc @ bytes, inc_ended := False\<rparr>"] chunk.prems show ?case
    by (intro reads_as_quiet [OF _ _ handled]) auto
next
  case (last_chunk f bytes)
  then have handled: "handle inc f = Ok (None, inc\<lparr>inc_body := inc_body inc @ bytes, inc_ended := True\<rparr>)"
    by (simp add: handle_chunk)
  with last_chunk.prems show ?case by (intro reads_as_quiet [OF _ _ handled reads_as_ended]) auto
next
  case (trailers f fs body replies)
  then have handled: "handle inc f = Ok (None, inc\<lparr>inc_ended := False\<rparr>)" by (simp add: handle_trailers)
  with trailers.IH [of "inc\<lparr>inc_ended := False\<rparr>"] trailers.prems show ?case
    by (intro reads_as_quiet [OF _ _ handled]) auto
next
  case (last_trailers f)
  then have handled: "handle inc f = Ok (None, inc\<lparr>inc_ended := True\<rparr>)" by (simp add: handle_trailers)
  with last_trailers.prems show ?case by (intro reads_as_quiet [OF _ _ handled reads_as_ended]) auto
qed

lemma response_body_read:
  assumes "response_frames False fs body replies" and "list_all proper_frame fs" and "length body \<le> MAX_BODY"
    and "steady evs" and "payload evs = concat (map frame_bytes fs) @ rest"
    and "incoming w = evs @ later" and "accepts w = []" and "clock w + delays evs < dl_at dl"
  shows "\<exists>w'. read_body dl incoming_default w = (Ok body, w') \<and> outgoing w' = outgoing w @ replies"
proof -
  have "reads_as TYPE('a net_scheme) dl later rest incoming_default fs (inc_body incoming_default @ body) replies"
    by (rule response_reads_as [OF assms(1,2)]) (use assms(3) in \<open>simp_all add: incoming_default_def\<close>)
  moreover have "left_of w evs dl later" using assms by (simp add: left_of_def)
  ultimately show ?thesis using assms(5) unfolding reads_as_def by (simp add: incoming_default_def)
qed


lemma status_200: "status [0x88] = Ok 200"
  by (simp add: status_def first_field_def first_field_from.simps slice_from_def read_integer_def
      static_status_def STATIC_STATUSES_def)


end
