(* ===== verification/H2_Request.thy ===== *)
theory H2_Request
  imports H2_Frames
begin

text \<open>
  The request that dog sends over HTTP/2 (\<open>dns-transport/src/h2.rs\<close>), as the server takes it
  apart: frames, and the header fields in them, by a decoder written from RFC 7541.
\<close>

subsection \<open>A decoder of header blocks\<close>

text \<open>Integers, from the pseudocode of RFC 7541, section 5.1.\<close>

fun hpack_rest :: "u8 list \<Rightarrow> (nat \<times> u8 list) option" where
  "hpack_rest [] = None"
| "hpack_rest (b # bs) =
     (if unat b < 128 then Some (unat b, bs)
      else map_option (\<lambda>(m, rest). (unat b mod 128 + 128 * m, rest)) (hpack_rest bs))"

fun hpack_integer :: "nat \<Rightarrow> u8 list \<Rightarrow> (nat \<times> u8 list) option" where
  "hpack_integer p [] = None"
| "hpack_integer p (b # bs) =
     (if unat b mod 2 ^ p < 2 ^ p - 1 then Some (unat b mod 2 ^ p, bs)
      else map_option (\<lambda>(m, rest). (2 ^ p - 1 + m, rest)) (hpack_rest bs))"

text \<open>A field is in the static table, or has only its name there and its value written out.\<close>

datatype hpack_field = Indexed nat | Literal nat "u8 list"

definition hpack_plain :: "u8 list \<Rightarrow> (u8 list \<times> u8 list) option" where
  "hpack_plain bytes =
     (case hpack_integer 7 bytes of
        Some (n, rest) \<Rightarrow>
          if unat (hd bytes) < 128 \<and> n \<le> length rest then Some (take n rest, drop n rest) else None
      | None \<Rightarrow> None)"

lemma hpack_rest_shorter: "hpack_rest bs = Some (n, rest) \<Longrightarrow> length rest < length bs"
  by (induction bs arbitrary: n rest) (fastforce split: if_splits)+

lemma hpack_integer_shorter: "hpack_integer p bs = Some (n, rest) \<Longrightarrow> length rest < length bs"
  by (cases bs) (auto split: if_splits dest: hpack_rest_shorter)

lemma hpack_plain_shorter: "hpack_plain bs = Some (s, rest) \<Longrightarrow> length rest < length bs"
  by (auto simp: hpack_plain_def split: option.splits if_splits dest!: hpack_integer_shorter)

function hpack_fields :: "u8 list \<Rightarrow> hpack_field list option" where
  "hpack_fields bytes =
     (if bytes = [] then Some []
      else if 128 \<le> unat (hd bytes) then
        (case hpack_integer 7 bytes of
           Some (i, rest) \<Rightarrow> map_option ((#) (Indexed i)) (hpack_fields rest)
         | None \<Rightarrow> None)
      else if unat (hd bytes) < 16 then
        (case hpack_integer 4 bytes of
           Some (i, val) \<Rightarrow>
             (case hpack_plain val of
                Some (s, rest) \<Rightarrow> map_option ((#) (Literal i s)) (hpack_fields rest)
              | None \<Rightarrow> None)
         | None \<Rightarrow> None)
      else None)"
  by pat_completeness auto
termination
  by (relation "measure length") (auto dest!: hpack_integer_shorter hpack_plain_shorter)

declare hpack_fields.simps [simp del]


subsection \<open>What is written is decoded\<close>

lemma unat_and_127: "unat (b AND 0x7F :: u8) = unat b mod 128"
  by (simp add: unsigned_and_eq nat_and_127)

lemma low_bits_flag: "unat (b :: u8) < 128 \<Longrightarrow> b AND 0x80 = 0"
proof -
  assume "unat b < 128"
  then have "\<not> bit (unat b) 7" by (simp add: bit_nat_def)
  then have "\<not> bit b 7" by (simp add: bit_unsigned_iff)
  then have "b AND 2 ^ 7 = 0" by (simp only: and_exp_eq_0_iff_not_bit not_False_eq_True)
  then show "b AND 0x80 = 0" by simp
qed

lemma hpack_rest_write: "hpack_rest (integer_rest n @ rest) = Some (n, rest)"
proof (induction n rule: integer_rest.induct)
  case (1 n)
  show ?case
  proof (cases "128 \<le> n")
    case True
    have "128 \<le> unat (low_byte n OR 0x80)"
      using group_flag(1) low_bits_flag not_le_imp_less by blast
    moreover have "unat (low_byte n OR 0x80) mod 128 = n mod 128"
      using group_value(1) [of n] by (simp only: unat_and_127)
    ultimately show ?thesis
      using 1 True by (simp add: integer_rest.simps [of n] drop_bit_eq_div mult.commute)
  next
    case False
    then show ?thesis by (simp add: integer_rest.simps [of n] low_byte_def unat_of_nat)
  qed
qed

lemma integer_first:
  assumes "p \<le> 8" and "v < 2 ^ p"
  shows "unat (low_byte v) = v"
proof -
  have "(2 :: nat) ^ p \<le> 2 ^ 8" using assms(1) by (rule power_increasing) simp
  with assms(2) show ?thesis by (simp add: low_byte_def unat_of_nat)
qed

lemma hpack_integer_write:
  assumes "0 < p" "p \<le> 8"
  shows "hpack_integer p (integer n p 0 @ rest) = Some (n, rest)"
    and "integer n p 0 \<noteq> []" "unat (hd (integer n p 0)) < 2 ^ p"
proof -
  have l: "(2 :: nat) ^ p - 1 < 2 ^ p" by simp
  with assms integer_first [OF assms(2) l] integer_first [OF assms(2), of n]
  show "hpack_integer p (integer n p 0 @ rest) = Some (n, rest)"
    and "integer n p 0 \<noteq> []" "unat (hd (integer n p 0)) < 2 ^ p"
    by (auto simp: integer_def Let_def hpack_rest_write)
qed

lemma hpack_plain_write:
  "hpack_plain (integer (length s) 7 0 @ s @ rest) = Some (s, rest)"
  using hpack_integer_write [of 7 "length s"] by (simp add: hpack_plain_def hd_append)

definition written_field :: "nat \<times> string \<Rightarrow> u8 list" where
  "written_field = (\<lambda>(i, s). integer i 4 0 @ integer (length s) 7 0 @ bytes_of s)"

lemma hpack_fields_Literal:
  "hpack_fields (written_field (i, s) @ rest) = map_option ((#) (Literal i (bytes_of s))) (hpack_fields rest)"
  using hpack_integer_write [of 4 i] hpack_plain_write [of "bytes_of s" rest]
  unfolding written_field_def prod.case append.assoc
  by (subst hpack_fields.simps) (simp add: hd_append)

lemma hpack_fields_Indexed:
  assumes "i < 127"
  shows "hpack_fields ((0x80 + word_of_nat i) # rest) = map_option ((#) (Indexed i)) (hpack_fields rest)"
proof -
  have "unat (0x80 + word_of_nat i :: u8) = 128 + i" using assms by (simp add: unat_word_ariths unat_of_nat)
  with assms show ?thesis by (simp add: hpack_fields.simps [of "_ # rest"])
qed

lemma hpack_fields_written:
  "hpack_fields (concat (map written_field fs)) = Some (map (\<lambda>(i, s). Literal i (bytes_of s)) fs)"
proof (induction fs)
  case Nil
  show ?case by (simp add: hpack_fields.simps)
next
  case (Cons f fs)
  then show ?case by (cases f) (simp add: hpack_fields_Literal)
qed

lemma header_block_fields:
  "hpack_fields (header_block url n)
    = Some (Indexed 3 # Indexed 7 # map (\<lambda>(i, s). Literal i (bytes_of s)) (header_fields url n))"
proof -
  have "header_block url n = 0x83 # 0x87 # concat (map written_field (header_fields url n))"
    by (simp add: header_block_def written_field_def)
  with hpack_fields_Indexed [of 3] hpack_fields_Indexed [of 7] hpack_fields_written show ?thesis
    by simp
qed


subsection \<open>The frames of a request\<close>

definition sent_frame :: "u8 \<Rightarrow> u8 \<Rightarrow> u32 \<Rightarrow> u8 list \<Rightarrow> Frame" where
  "sent_frame kind flags stream bytes =
     \<lparr>frame_kind = kind, frame_flags = flags, frame_stream = stream, frame_payload = bytes\<rparr>"

fun body_frames :: "u8 list list \<Rightarrow> Frame list" where
  "body_frames [] = []"
| "body_frames [part] = [sent_frame DATA END_STREAM STREAM part]"
| "body_frames (part # parts) = sent_frame DATA 0 STREAM part # body_frames parts"

lemma data_frames_parts:
  "\<forall>part \<in> set parts. length part \<le> MAX_FRAME \<Longrightarrow>
     data_frames parts = Ok (concat (map frame_bytes (body_frames parts)))"
  by (induction parts rule: body_frames.induct) (auto simp: frame_eq sent_frame_def)

lemma concat_chunks: "0 < n \<Longrightarrow> concat (chunks n xs) = xs"
  by (induction n xs rule: chunks.induct) (simp add: chunks.simps [of n xs for n xs])

lemma chunks_length: "\<forall>part \<in> set (chunks n xs). length part \<le> n"
proof (induction n xs rule: chunks.induct)
  case (1 n xs)
  then show ?case by (cases "xs = [] \<or> n = 0") (auto simp: chunks.simps [of n xs])
qed

lemma h2_request_frames:
  "\<exists>parts. h2_request_bytes url body =
      (if length (header_block url (length body)) \<le> MAX_FRAME then
         Ok (PREFACE @ concat (map frame_bytes
           (sent_frame SETTINGS 0 0 NO_PUSH
            # sent_frame HEADERS END_HEADERS STREAM (header_block url (length body))
            # body_frames parts)))
       else malformed (''The request needs a frame of '' @ dec (length (header_block url (length body)))
              @ '' bytes, more than the '' @ dec MAX_FRAME @ '' allowed''))
    \<and> concat parts = body \<and> parts \<noteq> [] \<and> list_all (\<lambda>part. length part \<le> MAX_FRAME) parts
    \<and> hpack_fields (header_block url (length body)) = Some
        (Indexed 3 # Indexed 7 # map (\<lambda>(i, s). Literal i (bytes_of s))
          [(1, host_header url), (4, url_path url), (31, ''application/dns-message''),
           (19, ''application/dns-message''), (58, USER_AGENT), (28, dec (length body))])"
proof -
  let ?parts = "if body = [] then [body] else chunks MAX_FRAME body"
  have positive: "0 < MAX_FRAME" by (simp add: MAX_FRAME_def)
  have parts: "concat ?parts = body" "\<forall>part \<in> set ?parts. length part \<le> MAX_FRAME"
    using concat_chunks [OF positive, of body] chunks_length [of MAX_FRAME body] by auto
  have "?parts \<noteq> []" using positive by (auto simp: chunks.simps [of MAX_FRAME body])
  moreover have "length NO_PUSH \<le> MAX_FRAME" by (simp add: NO_PUSH_def MAX_FRAME_def)
  ultimately show ?thesis
    using parts data_frames_parts [OF parts(2)] header_block_fields [of url "length body"]
    by (intro exI [of _ ?parts]) (simp add: h2_request_bytes_def frame_eq sent_frame_def header_fields_def list_all_iff)
qed

text \<open>
  C19: A request whose headers fit in a frame is sent as the connection's preface, dog's
  settings, the header fields, and the message in frames none of which is too long, with the
  end of the stream on the last of them and nowhere before. Its header block, taken apart by a
  decoder of HPACK, has the method POST, the scheme https, the authority and path of the URL, the
  two media types, the user agent and the length of the message. Headers that do not fit are an
  error.
\<close>

theorem h2_request_sent:
  "\<exists>parts. h2_request_bytes url body =
      (if length (header_block url (length body)) \<le> MAX_FRAME then
         Ok (PREFACE @ concat (map frame_bytes
           (sent_frame SETTINGS 0 0 NO_PUSH
            # sent_frame HEADERS END_HEADERS STREAM (header_block url (length body))
            # body_frames parts)))
       else malformed (''The request needs a frame of '' @ dec (length (header_block url (length body)))
              @ '' bytes, more than the '' @ dec MAX_FRAME @ '' allowed''))
    \<and> concat parts = body \<and> parts \<noteq> [] \<and> list_all (\<lambda>part. length part \<le> MAX_FRAME) parts
    \<and> hpack_fields (header_block url (length body)) = Some
        (Indexed 3 # Indexed 7 # map (\<lambda>(i, s). Literal i (bytes_of s))
          [(1, host_header url), (4, url_path url), (31, ''application/dns-message''),
           (19, ''application/dns-message''), (58, USER_AGENT), (28, dec (length body))])"
  by (rule h2_request_frames)


subsection \<open>What has arrived of a response\<close>

text \<open>
  The state while a response is read: there is a body only after the headers, it is never longer
  than a message can be, and no frame makes reading panic.
\<close>

definition incoming_ok :: "Incoming \<Rightarrow> bool" where
  "incoming_ok inc \<longleftrightarrow>
     length (inc_body inc) \<le> MAX_BODY \<and> (\<not> inc_headers inc \<longrightarrow> inc_body inc = [] \<and> \<not> inc_ended inc)"

lemma read_integer_no_panic [simp]: "read_integer bytes p \<noteq> Panic"
proof -
  have "integer_groups k used v bs \<noteq> Panic" for k used v bs
    by (induction k used v bs rule: integer_groups.induct) (simp_all add: Let_def)
  then show ?thesis by (simp add: read_integer_def Let_def split: list.split)
qed

lemma huffman_digits_no_panic [simp]: "huffman_digits coded \<noteq> Panic"
proof -
  have "huffman_bits bits ds code len \<noteq> Panic" for bits ds code len
    by (induction bits ds code len rule: huffman_bits.induct) (simp add: Let_def split: option.split)+
  then show ?thesis by (auto simp: huffman_digits_def bind_outcome_Panic_iff)
qed

lemma first_field_ok: "first_field block \<noteq> Panic" "first_field block = Ok field \<Longrightarrow> field \<noteq> []"
proof -
  have "first_field_from at block \<noteq> Panic" for at
    by (induction at block rule: first_field_from.induct)
      (subst first_field_from.simps, auto split: outcome.split)
  then show "first_field block \<noteq> Panic"
    by (auto simp: first_field_def bind_outcome_Panic_iff split: option.splits list.splits)
  assume "first_field block = Ok field"
  then obtain at where "(case slice_from at block of Some (b # field) \<Rightarrow> Ok (b # field)
      | _ \<Rightarrow> malformed ''The response has no status'') = Ok field"
    by (auto simp: first_field_def bind_outcome_Ok_iff)
  then show "field \<noteq> []"
    by (cases "slice_from at block"; cases "the (slice_from at block)") auto
qed

lemma read_hpack_string_no_panic [simp]: "read_hpack_string bytes \<noteq> Panic"
  using read_integer_no_panic [of bytes 7]
  by (cases bytes) (auto simp: read_hpack_string_def bind_outcome_Panic_iff read_integer_def [of "[]"]
      simp del: read_integer_no_panic split: option.splits)

lemma status_no_panic [simp]: "status block \<noteq> Panic"
proof
  assume panic: "status block = Panic"
  then obtain field where field: "first_field block = Ok field"
    using first_field_ok(1) [of block] by (auto simp: status_def bind_outcome_Panic_iff)
  with first_field_ok(2) obtain b bs where "field = b # bs" by (cases field) auto
  moreover have "static_status i \<noteq> Panic" for i by (simp add: static_status_def)
  moreover have "parse_status s \<noteq> Panic" for s by (simp add: parse_status_def split: option.split)
  ultimately show False
    using panic field
    by (auto simp: status_def Let_def bind_outcome_Panic_iff dest: read_integer_used split: if_splits)
qed

lemma content_no_panic [simp]: "content f \<noteq> Panic"
  by (auto simp: content_def bind_outcome_Panic_iff split: list.splits if_splits option.splits)

lemma h2_headers_ok:
  "h2_headers inc f \<noteq> Panic"
  "incoming_ok inc \<Longrightarrow> h2_headers inc f = Ok inc' \<Longrightarrow> incoming_ok inc'"
  by (auto simp: h2_headers_def Let_def bind_outcome_Panic_iff bind_outcome_Ok_iff incoming_ok_def split: if_splits)

lemma h2_data_ok:
  "h2_data inc f \<noteq> Panic"
  "incoming_ok inc \<Longrightarrow> h2_data inc f = Ok inc' \<Longrightarrow> incoming_ok inc'"
  by (auto simp: h2_data_def Let_def bind_outcome_Panic_iff bind_outcome_Ok_iff incoming_ok_def split: if_splits)

lemma frame_no_panic [simp]: "frame kind flags stream bytes \<noteq> Panic"
  by (simp add: frame_def)

lemma handle_no_panic [simp]: "handle inc f \<noteq> Panic"
  by (simp add: handle_def Let_def bind_outcome_Panic_iff h2_headers_ok(1) h2_data_ok(1))

lemma handle_ok:
  assumes "incoming_ok inc" and "handle inc f = Ok (reply, inc')"
  shows "incoming_ok inc'"
proof -
  from assms(2) have "inc' = inc \<or> h2_headers inc f = Ok inc' \<or> h2_data inc f = Ok inc'"
    by (auto simp: handle_def Let_def bind_outcome_Ok_iff split: if_splits)
  with assms(1) h2_headers_ok(2) h2_data_ok(2) show ?thesis by blast
qed

text \<open>The streams do not panic either.\<close>

lemma deadline_read_no_panic: "fst (deadline_read dl n w) \<noteq> Panic"
proof (induction dl n w rule: deadline_read.induct)
  case (1 dl n w)
  show ?case
  proof (cases rule: io_left_cases [of dl "clock w"])
    case 1
    then show ?thesis by (simp add: deadline_read.simps [of dl n w])
  next
    case 2
    obtain r v where r: "socket_read (dl_at dl - clock w) n w = (r, v)" by fastforce
    then have "r \<noteq> Panic" by (auto simp: socket_read_def split: list.splits if_splits read_event.splits)
    with "1.IH" [OF 2(2) r [symmetric]] r 2 show ?thesis
      by (cases r) (simp_all add: deadline_read.simps [of dl n w])
  qed
qed

lemma deadline_write_no_panic: "fst (deadline_write dl bs w) \<noteq> Panic"
proof (induction dl bs w rule: deadline_write.induct)
  case (1 dl bs w)
  show ?case
  proof (cases rule: io_left_cases [of dl "clock w"])
    case 1
    then show ?thesis by (simp add: deadline_write.simps [of dl bs w])
  next
    case 2
    obtain r v where r: "socket_write (dl_at dl - clock w) bs w = (r, v)" by fastforce
    then have "r \<noteq> Panic" by (auto simp: socket_write_def split: list.splits if_splits write_event.splits)
    with "1.IH" [OF 2(2) r [symmetric]] r 2 show ?thesis
      by (cases r) (simp_all add: deadline_write.simps [of dl bs w])
  qed
qed

lemma read_fully_no_panic: "fst (read_fully dl n w) \<noteq> Panic"
proof -
  have "fst (stream_read_exact dl n w) \<noteq> Panic"
  proof (induction dl n w rule: stream_read_exact.induct)
    case (1 dl n w)
    obtain r v where r: "deadline_read dl n w = (r, v)" by fastforce
    with deadline_read_no_panic [of dl n w] have "r \<noteq> Panic" by simp
    show ?case
    proof (cases "n = 0 \<or> r = Ok []")
      case True
      with r show ?thesis by (auto simp: stream_read_exact.simps [of dl n w])
    next
      case False
      with r \<open>r \<noteq> Panic\<close> "1.IH" [OF _ r [symmetric]] show ?thesis
        by (cases r) (auto simp: stream_read_exact.simps [of dl n w] split: prod.splits outcome.splits)
    qed
  qed
  then show ?thesis
    by (cases "stream_read_exact dl n w"; cases "fst (stream_read_exact dl n w)") (auto simp: read_fully_def)
qed

lemma write_fully_no_panic: "fst (write_fully dl bs w) \<noteq> Panic"
proof -
  have "fst (stream_write_all dl bs w) \<noteq> Panic"
  proof (induction dl bs w rule: stream_write_all.induct)
    case (1 dl bs w)
    obtain r v where r: "deadline_write dl bs w = (r, v)" by fastforce
    with deadline_write_no_panic [of dl bs w] have "r \<noteq> Panic" by simp
    with r "1.IH" [OF _ r [symmetric]] show ?case
      by (cases r) (auto simp: stream_write_all.simps [of dl bs w])
  qed
  then show ?thesis
    by (cases "stream_write_all dl bs w"; cases "fst (stream_write_all dl bs w)") (auto simp: write_fully_def)
qed

lemma and_then_Panic:
  "fst (and_then m f w) = Panic \<longleftrightarrow>
     fst (m w) = Panic \<or> (\<exists>x v. m w = (Ok x, v) \<and> fst (f x v) = Panic)"
  by (auto simp: and_then_def split: prod.splits outcome.splits)

lemma fst_just [simp]: "fst (just r w) = r"
  by (simp add: just_def)

lemma next_frame_no_panic: "fst (next_frame dl inc w) \<noteq> Panic"
proof -
  have "fst (read_frame dl v) \<noteq> Panic" for v
    by (auto simp: read_frame_def Let_def and_then_Panic read_fully_no_panic split: if_splits)
  moreover have "fst (send_reply dl reply v) \<noteq> Panic" for reply v
    by (simp add: send_reply_def write_fully_no_panic split: option.split)
  ultimately show ?thesis
    by (auto simp: next_frame_def and_then_Panic)
qed

lemma next_frame_ok:
  assumes "incoming_ok inc" and "next_frame dl inc w = (Ok inc', w')"
  shows "incoming_ok inc'"
  using assms by (auto simp: next_frame_def and_then_Ok dest: handle_ok)

text \<open>
  C21: However the frames of a response come, and whatever is in them, the client's state of an
  HTTP/2 response keeps its invariant from frame to frame: no body before its headers, and never
  more of it than a DNS message can have.
\<close>

theorem next_frame_invariant:
  assumes "incoming_ok inc" and "next_frame dl inc w = (Ok inc', w')"
  shows "incoming_ok inc'"
  using assms by (rule next_frame_ok)

lemma incoming_ok_default: "incoming_ok incoming_default"
  by (simp add: incoming_ok_def incoming_default_def)

lemma next_frame_invariant_witness:
  "\<exists>inc' w'. incoming_ok inc' \<and> next_frame \<lparr>dl_at = 100, dl_timeout = 100\<rparr> incoming_default
      \<lparr>clock = 0, incoming = [(10, Arrives [0, 0, 0, 8, 0, 0, 0, 0, 0])], accepts = [], outgoing = []\<rparr>
      = (Ok inc', w')"
proof -
  let ?dl = "\<lparr>dl_at = 100, dl_timeout = 100\<rparr>"
  let ?f = "\<lparr>frame_kind = 8, frame_flags = 0, frame_stream = 0, frame_payload = []\<rparr>"
  let ?w = "\<lparr>clock = 0, incoming = [(10, Arrives [0, 0, 0, 8, 0, 0, 0, 0, 0])], accepts = [], outgoing = []\<rparr>"
  have "handle incoming_default ?f = Ok (None, incoming_default)"
    by (simp add: handle_def Let_def frame_types)
  from next_frame_steady [of ?f ?w "[(10, Arrives [0, 0, 0, 8, 0, 0, 0, 0, 0])]" ?dl "[]" "[]", OF _ _ _ this]
  obtain w' where w': "next_frame ?dl incoming_default ?w = (Ok incoming_default, w')"
    by (auto simp: proper_frame_def MAX_FRAME_def left_of_def frame_bytes_def be_bytes32_def)
  with next_frame_invariant [OF incoming_ok_default w'] show ?thesis by blast
qed

text \<open>
  C22: Reading a response over HTTP/2 never panics, and ends: whatever the server sends, and
  however the connection fails, there is a body of at most 65535 bytes, or an error.
\<close>

theorem read_body_ends:
  "(\<exists>body. fst (read_body dl incoming_default w) = Ok body \<and> length body \<le> MAX_BODY)
    \<or> (\<exists>e. fst (read_body dl incoming_default w) = Err e)"
proof -
  have "(\<exists>body. fst (read_body dl inc w) = Ok body \<and> length body \<le> MAX_BODY)
      \<or> (\<exists>e. fst (read_body dl inc w) = Err e)" if "incoming_ok inc" for inc
    using that
  proof (induction dl inc w rule: read_body.induct)
    case (1 dl inc w)
    obtain r v where r: "next_frame dl inc w = (r, v)" by fastforce
    with next_frame_no_panic [of dl inc w] have calm: "r \<noteq> Panic" by simp
    show ?case
    proof (cases "inc_ended inc")
      case True
      with 1 show ?thesis by (simp add: incoming_ok_def)
    next
      case False
      with r calm "1.IH" [OF False r [symmetric]] next_frame_ok [OF "1.prems", of dl w] show ?thesis
        by (cases r) (auto simp: read_body.simps [of dl inc w])
    qed
  qed
  then show ?thesis using incoming_ok_default by blast
qed

end
