(* ===== verification/Secure.thy ===== *)
theory Secure
  imports H2_Request
begin

text \<open>
  The encrypted transports: opening a TLS connection (\<open>dns-transport/src/tls_stream.rs\<close>), DNS over
  TLS (\<open>tls.rs\<close>) and DNS over HTTPS (the transport of \<open>https.rs\<close>). The TLS library is not part of
  the repository: what it does in each handshake is a script, as what the sockets do is, and the
  data that it decrypts afterwards is the data of the stream.
\<close>

subsection \<open>TLS connections\<close>

text \<open>
  A handshake makes a stream, with the protocol that the server chose (\<open>None\<close> when the library
  cannot tell, \<open>Some None\<close> when the server chose nothing), or it fails.
\<close>

datatype handshake_event =
    Secured "u8 list option option" "(nat \<times> read_event) list" "(nat \<times> write_event) list"
  | Handshake_Fails tls_error

datatype handshake_failure = Handshake_WouldBlock | Handshake_Failure tls_error

text \<open>
  \<open>connector_fails\<close> is the error of the library when it cannot be set up. \<open>handshook\<close> records the
  host name each handshake was for, and the protocols it offered.
\<close>

record secure_world = world +
  connector_fails :: "tls_error option"
  handshakes :: "(nat \<times> handshake_event) list"
  handshook :: "(string \<times> string list) list"

definition handshake_error :: "nat \<Rightarrow> handshake_failure \<Rightarrow> Error" where
  "handshake_error timeout e =
     (case e of
        Handshake_WouldBlock \<Rightarrow> E_Timeout timeout
      | Handshake_Failure e \<Rightarrow> E_TlsHandshakeError e)"

definition connector_build :: "'w secure_world_scheme \<Rightarrow> (Error, unit) outcome \<times> 'w secure_world_scheme" where
  "connector_build w = (case connector_fails w of Some e \<Rightarrow> (Err (E_TlsError e), w) | None \<Rightarrow> (Ok (), w))"

text \<open>
  The handshake reads and writes on the stream with the deadline, so that it would block when it
  is not over by then.
\<close>

definition handshake ::
  "string \<Rightarrow> string list \<Rightarrow> Deadline \<Rightarrow> 'w secure_world_scheme
     \<Rightarrow> (handshake_failure, u8 list option option) outcome \<times> 'w secure_world_scheme" where
  "handshake host protocols dl w =
     (let left = dl_at dl - clock w; w = w\<lparr>handshook := handshook w @ [(host, protocols)]\<rparr> in
      case handshakes w of
        [] \<Rightarrow> (Err Handshake_WouldBlock, w\<lparr>clock := clock w + left\<rparr>)
      | (delay, ev) # rest \<Rightarrow>
          if left \<le> delay then (Err Handshake_WouldBlock, w\<lparr>clock := clock w + left, handshakes := rest\<rparr>)
          else
            (case ev of
               Handshake_Fails e \<Rightarrow>
                 (Err (Handshake_Failure e), w\<lparr>clock := clock w + delay, handshakes := rest\<rparr>)
             | Secured chosen evs takes \<Rightarrow>
                 (Ok chosen, w\<lparr>clock := clock w + delay, handshakes := rest, incoming := evs,
                               accepts := takes, outgoing := []\<rparr>)))"

definition tls_connect ::
  "string \<Rightarrow> u16 \<Rightarrow> Deadline \<Rightarrow> string list \<Rightarrow> 'w secure_world_scheme
     \<Rightarrow> (Error, u8 list option option) outcome \<times> 'w secure_world_scheme" where
  "tls_connect host port dl protocols =
     and_then connector_build (\<lambda>_.
     and_then (connect_tcp host port dl) (\<lambda>_ w.
     case handshake host protocols dl w of (r, w') \<Rightarrow> (map_err (handshake_error (dl_timeout dl)) r, w')))"


subsection \<open>DNS over TLS\<close>

definition tls_send :: "string \<Rightarrow> nat \<Rightarrow> 'w secure_world_scheme transport" where
  "tls_send addr timeout request w =
     (let dl = deadline_after (clock w) timeout in
      and_then (just (nameserver addr 853)) (\<lambda>(host, port).
      and_then (tls_connect host port dl []) (\<lambda>_.
      exchange dl request)) w)"


subsection \<open>DNS over HTTPS\<close>

definition https_url :: "string \<Rightarrow> (Error, HttpsUrl) outcome" where
  "https_url url = map_err (\<lambda>e. E_InvalidNameserver (Inl e)) (parse_https_url url)"

definition speaks_http2 :: "u8 list option option \<Rightarrow> bool" where
  "speaks_http2 chosen = (chosen = Some (Some (bytes_of ''h2'')))"

definition https_send :: "head_parser \<Rightarrow> string \<Rightarrow> nat \<Rightarrow> 'w secure_world_scheme transport" where
  "https_send parse url timeout request w =
     (let dl = deadline_after (clock w) timeout in
      and_then (just (https_url url)) (\<lambda>u.
      and_then (tls_connect (url_host u) (url_port u) dl [''h2'', ''http/1.1'']) (\<lambda>chosen.
      if speaks_http2 chosen then h2_exchange dl u request
      else exchange_https parse dl u request)) w)"


subsection \<open>Honest, and in time\<close>

lemma send_reply_in_time: "in_time dl w (snd (send_reply dl reply w))"
  by (simp add: send_reply_def write_fully_in_time split: option.split)

lemma read_frame_in_time: "in_time dl w (snd (read_frame dl w))"
  unfolding read_frame_def Let_def
  by (intro and_then_in_time read_fully_in_time) (auto intro!: and_then_in_time read_fully_in_time)

lemma next_frame_in_time: "in_time dl w (snd (next_frame dl inc w))"
  unfolding next_frame_def
  by (intro and_then_in_time read_frame_in_time just_in_time)
    (auto intro!: and_then_in_time send_reply_in_time)

lemma read_body_in_time: "in_time dl w (snd (read_body dl inc w))"
proof (induction dl inc w rule: read_body.induct)
  case (1 dl inc w)
  obtain r v where r: "next_frame dl inc w = (r, v)" by fastforce
  with next_frame_in_time [of dl w inc] have "in_time dl w v" by simp
  with r "1.IH" [OF _ r [symmetric]] show ?case
    by (cases r) (auto simp: read_body.simps [of dl inc w] intro: in_time_trans)
qed

lemma h2_exchange_in_time: "in_time dl w (snd (h2_exchange dl url request w))"
  unfolding h2_exchange_def
  by (intro and_then_in_time just_in_time write_fully_in_time read_body_in_time)

lemma h2_exchange_honest:
  "h2_exchange dl url request w = (Ok response, w') \<Longrightarrow> genuine request response"
  by (auto simp: h2_exchange_def and_then_Ok checked_response_Ok genuine_def)

lemma handshake_in_time: "in_time dl w (snd (handshake host protocols dl w))"
  by (auto simp: handshake_def Let_def in_time_def split: list.split handshake_event.split)

lemma tls_connect_in_time: "in_time dl w (snd (tls_connect host port dl protocols w))"
proof -
  have "in_time dl w (snd (connector_build w))" by (simp add: connector_build_def split: option.split)
  then show ?thesis
    unfolding tls_connect_def
    by (intro and_then_in_time connect_tcp_in_time) (simp_all add: case_prod_unfold handshake_in_time)
qed

interpretation tls: transport "tls_send addr timeout" clock timeout for addr timeout
proof
  show "genuine request response"
    if "tls_send addr timeout request w = (Ok response, w')"
    for request and w w' :: "'w secure_world_scheme" and response
    using that by (auto simp: tls_send_def Let_def and_then_Ok dest: exchange_honest)
  show "clock w \<le> clock w' \<and> clock w' \<le> clock w + timeout"
    if "tls_send addr timeout request w = (r, w')" for request and w w' :: "'w secure_world_scheme" and r
  proof (rule in_time_limit)
    have "in_time (deadline_after (clock w) timeout) w (snd (tls_send addr timeout request w))"
      unfolding tls_send_def Let_def
      by (intro and_then_in_time just_in_time) (auto intro!: and_then_in_time tls_connect_in_time exchange_in_time)
    with that show "in_time (deadline_after (clock w) timeout) w w'" by simp
  qed
qed

interpretation https: transport "https_send parse url timeout" clock timeout for parse url timeout
proof
  show "genuine request response"
    if "https_send parse url timeout request w = (Ok response, w')"
    for request and w w' :: "'w secure_world_scheme" and response
    using that
    by (auto simp: https_send_def Let_def and_then_Ok dest: h2_exchange_honest exchange_https_honest split: if_splits)
  show "clock w \<le> clock w' \<and> clock w' \<le> clock w + timeout"
    if "https_send parse url timeout request w = (r, w')" for request and w w' :: "'w secure_world_scheme" and r
  proof (rule in_time_limit)
    have "in_time (deadline_after (clock w) timeout) w (snd (https_send parse url timeout request w))"
      unfolding https_send_def Let_def
      by (intro and_then_in_time just_in_time)
        (auto intro!: and_then_in_time tls_connect_in_time simp: h2_exchange_in_time exchange_https_in_time)
    with that show "in_time (deadline_after (clock w) timeout) w w'" by simp
  qed
qed

end
