(* ===== verification/Connect.thy ===== *)
theory Connect
  imports Secure
begin

text \<open>
  From the protocol and nameservers the user asked for to a transport (\<open>src/connect.rs\<close>), and the
  check of a nameserver before anything is sent.
\<close>

subsection \<open>The code\<close>

datatype TransportType = Automatic | UDP | TCP | TLS | HTTPS

fun make_transport :: "head_parser \<Rightarrow> TransportType \<Rightarrow> string \<Rightarrow> nat \<Rightarrow> 'w secure_world_scheme transport" where
  "make_transport parse Automatic param timeout = auto_transport param timeout"
| "make_transport parse UDP param timeout = udp_send param timeout"
| "make_transport parse TCP param timeout = tcp_send param timeout"
| "make_transport parse TLS param timeout = tls_send param timeout"
| "make_transport parse HTTPS param timeout = https_send parse param timeout"

definition make_transport_to ::
  "head_parser \<Rightarrow> TransportType \<Rightarrow> string list \<Rightarrow> nat \<Rightarrow> 'w secure_world_scheme transport" where
  "make_transport_to parse ty nameservers timeout =
     (case nameservers of
        [ns] \<Rightarrow> make_transport parse ty ns timeout
      | _ \<Rightarrow> failover_send (map (\<lambda>ns. make_transport parse ty ns timeout) nameservers))"

fun check_nameserver :: "TransportType \<Rightarrow> string \<Rightarrow> (InvalidAddress, unit) outcome" where
  "check_nameserver TLS ns = bind_outcome (parse_host_port ns 853) (\<lambda>_. Ok ())"
| "check_nameserver HTTPS ns = bind_outcome (parse_https_url ns) (\<lambda>_. Ok ())"
| "check_nameserver _ ns = bind_outcome (parse_host_port ns 53) (\<lambda>_. Ok ())"


subsection \<open>Every transport keeps the promise\<close>

lemma transport_weaken:
  assumes "transport send time l" and "l \<le> l'"
  shows "transport send time l'"
proof
  show "genuine request response" if "send request w = (Ok response, w')" for request w w' response
    using transport.honest [OF assms(1) that] .
  show "time w \<le> time w' \<and> time w' \<le> time w + l'" if "send request w = (r, w')" for request w w' r
    using transport.timely [OF assms(1) that] assms(2) by simp
qed

lemma transport_made: "transport (make_transport parse ty ns timeout) clock (2 * timeout)"
  by (cases ty)
    (auto intro: transport_weaken [OF udp.transport_axioms] transport_weaken [OF tcp.transport_axioms]
      transport_weaken [OF tls.transport_axioms] transport_weaken [OF https.transport_axioms]
      transport_weaken [OF auto.transport_axioms])

interpretation made: transport "make_transport_to parse ty nameservers timeout" clock
    "2 * timeout * length nameservers" for parse ty nameservers timeout
proof -
  have many: "transport (failover_send (map (\<lambda>ns. make_transport parse ty ns timeout) nss)) clock
      (2 * timeout * length nss)" for nss
  proof -
    have "transport (failover_send (map (\<lambda>ns. make_transport parse ty ns timeout) nss)) clock
        (sum_list (map (\<lambda>_. 2 * timeout) nss))"
      by (rule transport_failover) (simp add: list_all2_conv_all_nth transport_made)
    moreover have "sum_list (map (\<lambda>_. 2 * timeout) nss) = 2 * timeout * length nss"
      by (simp add: sum_list_triv)
    ultimately show ?thesis by simp
  qed
  show "transport (make_transport_to parse ty nameservers timeout) clock (2 * timeout * length nameservers)"
    using many [of nameservers] transport_made [of parse ty "hd nameservers" timeout]
    by (auto simp: make_transport_to_def split: list.split)
qed

text \<open>
  C16: dog's transports keep their promise whatever arrives and whenever: over any of the five
  protocols, to any nameservers, what is returned was read from a message that answers the
  request, and it comes no later than twice the time limit for each nameserver, with looking up its addresses, connecting to
  them and the TLS handshake counted in.
\<close>

theorem make_transport_to_honest_and_timely:
  assumes "make_transport_to parse ty nameservers timeout request w = (r, w')"
  shows "(case r of Ok response \<Rightarrow> genuine request response | _ \<Rightarrow> True)
    \<and> clock w \<le> clock w' \<and> clock w' \<le> clock w + 2 * timeout * length nameservers"
  using made.timely [OF assms] made.honest [of parse ty nameservers timeout request w _ w'] assms
  by (auto split: outcome.split)

lemma make_transport_to_honest_and_timely_witness:
  "\<forall>parse. \<exists>r w'. make_transport_to parse Automatic [''1.1.1.1'', ''dns.example''] 5
      \<lparr>req_transaction_id = 0, req_flags = flags_query,
       req_query = \<lparr>query_qname = root, query_qclass = IN, query_qtype = T_NS\<rparr>, req_additional = None\<rparr>
      \<lparr>clock = 100, incoming = [], accepts = [], outgoing = [], lookups = [], connects = [], opens = [],
       datagrams = [], send_fails = None, nodelay_fails = None, dialled = [], connector_fails = None, handshakes = [],
       handshook = []\<rparr> = (r, w')
    \<and> clock w' \<le> 120"
proof (rule allI)
  fix parse
  let ?r = "\<lparr>req_transaction_id = 0, req_flags = flags_query,
       req_query = \<lparr>query_qname = root, query_qclass = IN, query_qtype = T_NS\<rparr>, req_additional = None\<rparr>"
  let ?w = "\<lparr>clock = 100, incoming = [], accepts = [], outgoing = [], lookups = [], connects = [], opens = [],
       datagrams = [], send_fails = None, nodelay_fails = None, dialled = [], connector_fails = None, handshakes = [], handshook = []\<rparr>"
  obtain r w' where "make_transport_to parse Automatic [''1.1.1.1'', ''dns.example''] 5 ?r ?w = (r, w')"
    by fastforce
  with make_transport_to_honest_and_timely [OF this]
  show "\<exists>r w'. make_transport_to parse Automatic [''1.1.1.1'', ''dns.example''] 5 ?r ?w = (r, w') \<and> clock w' \<le> 120"
    by auto
qed


subsection \<open>A nameserver that passes the check is never refused\<close>

text \<open>Steps that do not complain about the nameserver.\<close>

definition accepts_address :: "(Error, 'a) outcome \<Rightarrow> bool" where
  "accepts_address r \<longleftrightarrow> (\<forall>why. r \<noteq> Err (E_InvalidNameserver why))"

lemma accepts_address_simps [simp]:
  "accepts_address (Ok x)" "accepts_address Panic" "accepts_address (Err (E_NetworkError k))"
  "accepts_address (Err (E_Timeout t))" "accepts_address (Err (io_error k t))"
  "accepts_address (Err E_TruncatedResponse)" "accepts_address (Err (E_MalformedHttp fault))"
  "accepts_address (Err (E_WireError we))" "accepts_address (Err (E_MismatchedResponse mm))"
  "accepts_address (Err (E_TlsError te))" "accepts_address (Err (E_TlsHandshakeError te))"
  "accepts_address (Err (E_HttpError he))" "accepts_address (Err (E_WrongHttpStatus code reason))"
  by (auto simp: accepts_address_def io_error_def split: io_kind.splits)

lemma map_err_accepts: "(\<And>e. accepts_address (Err (g e) :: (Error, 'a) outcome)) \<Longrightarrow>
    accepts_address (map_err g r :: (Error, 'a) outcome)"
  by (cases r) simp_all

lemma and_then_accepts:
  "accepts_address (fst (m w)) \<Longrightarrow> (\<And>x v. m w = (Ok x, v) \<Longrightarrow> accepts_address (fst (f x v))) \<Longrightarrow>
     accepts_address (fst (and_then m f w))"
  by (auto simp: and_then_def accepts_address_def split: prod.split outcome.split)

lemma bind_accepts:
  "accepts_address r \<Longrightarrow> (\<And>x. accepts_address (f x)) \<Longrightarrow> accepts_address (bind_outcome r f)"
  by (cases r) (auto simp: accepts_address_def)

named_theorems accepting "steps that do not complain about the nameserver"

declare and_then_accepts [accepting] bind_accepts [accepting]

lemma just_accepts [accepting]: "accepts_address r \<Longrightarrow> accepts_address (fst (just r w))"
  by (simp add: just_def)

lemma request_bytes_accepts [accepting, simp]: "accepts_address (request_bytes request)"
  by (auto simp: request_bytes_def intro: map_err_accepts)

lemma prefix_with_length_accepts [accepting]: "accepts_address (prefix_with_length message)"
  by (simp add: prefix_with_length_def)

lemma checked_response_accepts [accepting]: "accepts_address (checked_response request bytes)"
  unfolding checked_response_def by (intro bind_accepts map_err_accepts) simp_all

lemma write_fully_accepts [accepting]: "accepts_address (fst (write_fully dl bs w))"
  by (auto simp: write_fully_def case_prod_unfold intro: map_err_accepts)

lemma read_fully_accepts [accepting]: "accepts_address (fst (read_fully dl n w))"
  by (auto simp: read_fully_def case_prod_unfold intro: map_err_accepts)

lemma exchange_accepts [accepting]: "accepts_address (fst (exchange dl request w))"
  unfolding exchange_def length_prefixed_read_def by (intro accepting)

lemma deadline_left_accepts [accepting]: "accepts_address (deadline_left dl now)"
  by (auto simp: deadline_left_def intro: map_err_accepts)

lemma deadline_left_error: "deadline_left dl now = Err e \<Longrightarrow> accepts_address (Err e :: (Error, 'a) outcome)"
  using deadline_left_accepts [of dl now] by (auto simp: accepts_address_def)

lemma addresses_accepts [accepting]: "accepts_address (fst (addresses host port dl w))"
proof -
  have "accepts_address (fst (lookup_before dl v))" for v :: "'a world_scheme"
    by (auto simp: lookup_before_def intro: deadline_left_error
        split: outcome.splits list.splits lookup_event.splits)
  then show ?thesis
    by (auto simp: addresses_def split: option.split intro!: accepting)
qed

lemma connect_loop_accepts [accepting]: "accepts_address (fst (connect_loop dl e addrs w))"
  by (induction addrs arbitrary: e w)
    (auto simp: configure_stream_def intro: deadline_left_error split: outcome.split prod.split option.split)

lemma open_loop_accepts [accepting]: "accepts_address (fst (open_loop dl e addrs w))"
  by (induction addrs arbitrary: e w) (auto split: outcome.split prod.split)

lemma receive_accepts: "accepts_address (fst (receive request dl evs now))"
  by (induction request dl evs now rule: receive.induct)
    (auto simp: accept_def intro: deadline_left_error
      split: outcome.split datagram_event.split outcome.splits if_splits option.split)

lemma udp_receive_accepts [accepting]: "accepts_address (fst (udp_receive dl request w))"
  by (simp add: udp_receive_def case_prod_unfold receive_accepts)

lemma socket_send_accepts [accepting]: "accepts_address (fst (socket_send timeout bs w))"
  by (simp add: socket_send_def split: option.split)

lemma tls_connect_accepts [accepting]: "accepts_address (fst (tls_connect host port dl protocols w))"
proof -
  have "accepts_address (fst (connector_build w))" by (simp add: connector_build_def split: option.split)
  moreover have "accepts_address (Err (handshake_error t e))" for t e
    by (simp add: handshake_error_def split: handshake_failure.split)
  ultimately show ?thesis
    unfolding tls_connect_def connect_tcp_def
    by (intro and_then_accepts accepting) (auto simp: case_prod_unfold intro: map_err_accepts)
qed

lemma status_accepts [accepting]: "accepts_address (status block)"
proof -
  have groups: "accepts_address (integer_groups k used v bs)" for k used v bs
    by (induction k used v bs rule: integer_groups.induct) (simp_all add: Let_def)
  have int: "accepts_address (read_integer bs p)" for bs p
    by (simp add: read_integer_def Let_def groups split: list.split)
  have "accepts_address (first_field_from at bs)" for at bs
    using int by (induction at bs rule: first_field_from.induct)
      (subst first_field_from.simps, auto simp: accepts_address_def split: outcome.split)
  then have field: "accepts_address (first_field bs)" for bs
    by (auto simp: first_field_def intro!: bind_accepts split: option.split list.split)
  have "accepts_address (huffman_bits bits ds code len)" for bits ds code len
    by (induction bits ds code len rule: huffman_bits.induct) (simp add: Let_def split: option.split)+
  then have "accepts_address (read_hpack_string bs)" for bs
    by (auto simp: read_hpack_string_def huffman_digits_def intro!: bind_accepts int split: option.split list.split)
  then show ?thesis
    by (auto simp: status_def static_status_def parse_status_def Let_def intro!: bind_accepts field int
        split: list.split option.split)
qed

lemma read_body_accepts [accepting]: "accepts_address (fst (read_body dl inc w))"
proof -
  have content: "accepts_address (content f)" for f
    by (auto simp: content_def too_short_def intro!: bind_accepts split: list.split option.split)
  have frame: "accepts_address (frame kind flags stream bs)" for kind flags stream bs
    by (simp add: frame_def)
  have handle: "accepts_address (handle inc f)" for inc f
    by (auto simp: handle_def h2_headers_def h2_data_def stopped_def Let_def
        intro!: bind_accepts content frame status_accepts)
  have reply: "accepts_address (fst (send_reply dl reply w))" for dl reply and w :: "'a net_scheme"
    by (auto simp: send_reply_def intro: accepting split: option.split)
  have next_frame: "accepts_address (fst (next_frame dl inc w))" for dl inc and w :: "'a net_scheme"
    unfolding next_frame_def read_frame_def Let_def
    by (intro and_then_accepts read_fully_accepts)
      (auto intro!: and_then_accepts accepting handle reply split: if_splits)
  show ?thesis
  proof (induction dl inc w rule: read_body.induct)
    case (1 dl inc w)
    obtain r v where r: "next_frame dl inc w = (r, v)" by fastforce
    with next_frame [of dl inc w] have "accepts_address r" by simp
    with r "1.IH" [OF _ r [symmetric]] show ?case
      by (cases r) (auto simp: read_body.simps [of dl inc w] accepts_address_def)
  qed
qed

lemma read_http_body_accepts [accepting]: "accepts_address (fst (read_http_body parse dl w))"
proof -
  have more: "accepts_address (fst (read_more dl data w))" for dl data and w :: "'a net_scheme"
    by (auto simp: read_more_eq split: prod.split outcome.split)
  have head: "accepts_address (fst (read_head dl data w))" for dl data and w :: "'a net_scheme"
  proof (induction dl data w rule: read_head.induct)
    case (1 dl data w)
    obtain r v where r: "read_more dl data w = (r, v)" by fastforce
    with more [of dl data w] have "accepts_address r" by simp
    with r "1.IH" [OF _ _ r [symmetric]] show ?case
      by (cases r) (auto simp: read_head.simps [of dl data w] accepts_address_def split: option.split)
  qed
  have rest: "accepts_address (fst (read_rest dl n data w))" for dl n data and w :: "'a net_scheme"
  proof (induction dl n data w rule: read_rest.induct)
    case (1 dl n data w)
    obtain r v where r: "read_more dl data w = (r, v)" by fastforce
    with more [of dl data w] have "accepts_address r" by simp
    with r "1.IH" [OF _ r [symmetric]] show ?case
      by (cases r) (auto simp: read_rest.simps [of dl n data w] accepts_address_def)
  qed
  have "accepts_address (parse_head parse bs)" for bs
    unfolding parse_head_def
    by (intro bind_accepts map_err_accepts)
      (auto simp: content_length_def split: option.split)
  then show ?thesis
    unfolding read_http_body_def Let_def case_prod_unfold
    by (intro and_then_accepts head rest just_accepts) simp_all
qed

lemma h2_exchange_accepts [accepting]: "accepts_address (fst (h2_exchange dl url request w))"
proof -
  have frame: "accepts_address (frame kind flags stream bs)" for kind flags stream bs
    by (simp add: frame_def)
  then have "accepts_address (data_frames parts)" for parts
    by (induction parts) (simp_all add: bind_accepts)
  with frame have "accepts_address (h2_request_bytes url bs)" for bs
    by (simp add: h2_request_bytes_def bind_accepts)
  then show ?thesis
    unfolding h2_exchange_def by (intro accepting) simp_all
qed

lemma exchange_https_accepts [accepting]: "accepts_address (fst (exchange_https parse dl url request w))"
  unfolding exchange_https_def by (intro accepting)

lemma and_then_address:
  "(\<And>x v. r = Ok x \<Longrightarrow> accepts_address (fst (f x v))) \<Longrightarrow> r = Ok x \<Longrightarrow>
     accepts_address (fst (and_then (just r) f w))"
  by (simp add: and_then_def just_def)

lemma udp_send_accepts:
  "nameserver ns 53 = Ok hp \<Longrightarrow> accepts_address (fst (udp_send ns timeout request w))"
  unfolding udp_send_def Let_def connect_udp_def case_prod_unfold
  by (erule and_then_address [rotated]) (intro accepting)

lemma tcp_send_accepts:
  "nameserver ns 53 = Ok hp \<Longrightarrow> accepts_address (fst (tcp_send ns timeout request w))"
  unfolding tcp_send_def Let_def connect_tcp_def case_prod_unfold
  by (erule and_then_address [rotated]) (intro accepting)

lemma tls_send_accepts:
  "nameserver ns 853 = Ok hp \<Longrightarrow> accepts_address (fst (tls_send ns timeout request w))"
  unfolding tls_send_def Let_def case_prod_unfold
  by (erule and_then_address [rotated]) (intro accepting)

lemma https_send_accepts:
  "https_url url = Ok u \<Longrightarrow> accepts_address (fst (https_send parse url timeout request w))"
  unfolding https_send_def Let_def
  by (erule and_then_address [rotated]) (auto intro!: and_then_accepts accepting)

lemma auto_send_accepts:
  "nameserver ns 53 = Ok hp \<Longrightarrow> accepts_address (fst (auto_transport ns timeout request w))"
  unfolding auto_transport_def auto_send_def
  by (intro and_then_accepts udp_send_accepts) (auto intro: tcp_send_accepts)

lemma check_nameserver_nameserver:
  "check_nameserver ty ns = Ok () \<longleftrightarrow>
     (case ty of TLS \<Rightarrow> \<exists>hp. nameserver ns 853 = Ok hp | HTTPS \<Rightarrow> \<exists>u. https_url ns = Ok u
      | _ \<Rightarrow> \<exists>hp. nameserver ns 53 = Ok hp)"
  by (cases ty) (auto simp: nameserver_def https_url_def map_err_Ok_iff bind_outcome_Ok_iff)

text \<open>
  C17: The check of a nameserver agrees with the transports: a nameserver that is refused before
  anything is sent would have been refused by the transport, with the same reason and nothing
  sent, and one that passes is not refused later, whatever happens on the network.
\<close>

theorem check_nameserver_agrees:
  "(case check_nameserver ty ns of
      Err why \<Rightarrow> make_transport parse ty ns timeout request w = (Err (E_InvalidNameserver (Inl why)), w)
    | Ok _ \<Rightarrow> fst (make_transport parse ty ns timeout request w) \<notin> range (\<lambda>why. Err (E_InvalidNameserver why))
    | Panic \<Rightarrow> make_transport parse ty ns timeout request w = (Panic, w))"
proof (cases "check_nameserver ty ns")
  case (Ok x)
  then have "accepts_address (fst (make_transport parse ty ns timeout request w))"
    using check_nameserver_nameserver [of ty ns]
    by (cases ty) (auto intro: udp_send_accepts tcp_send_accepts tls_send_accepts https_send_accepts auto_send_accepts)
  with Ok show ?thesis by (auto simp: accepts_address_def)
next
  case (Err why)
  then show ?thesis
    by (cases ty)
      (auto simp: bind_outcome_Err_iff auto_transport_def auto_send_def udp_send_def tcp_send_def tls_send_def
        https_send_def https_url_def nameserver_def and_then_def just_def)
next
  case Panic
  then show ?thesis
    by (cases ty)
      (auto simp: bind_outcome_Panic_iff auto_transport_def auto_send_def udp_send_def tcp_send_def tls_send_def
        https_send_def https_url_def nameserver_def and_then_def just_def)
qed

end
