(* ===== verification/Files.thy ===== *)
theory Files
  imports Utf8 Net
begin

text \<open>
  Reading text files line by line, as Rust's standard library does: \<open>BufRead::lines\<close>, and the
  splitting and trimming of strings. What is in the files of the system is a function from their
  names, which fails for a file that cannot be opened.
\<close>

text \<open>The bytes of a file that can be read, and the error that comes after them, if there is one.\<close>

type_synonym text_file = "u8 list \<times> io_kind option"
type_synonym files = "string \<Rightarrow> (io_kind, text_file) outcome"

definition text_line :: "u8 list \<Rightarrow> (io_kind, string) outcome" where
  "text_line bytes = (case from_utf8 bytes of Some s \<Rightarrow> Ok s | None \<Rightarrow> Err K_InvalidData)"

text \<open>
  Every line is without its line feed, and the carriage return in front of one. What comes after
  the last line feed is a line if it is not empty, and if nothing went wrong in it.
\<close>

definition without_return :: "u8 list \<Rightarrow> u8 list" where
  "without_return bytes = (case strip_suffix_char 13 bytes of Some rest \<Rightarrow> rest | None \<Rightarrow> bytes)"

definition lines :: "text_file \<Rightarrow> (io_kind, string) outcome list" where
  "lines f =
     (let pieces = split_char 10 (fst f) in
      map (\<lambda>piece. text_line (without_return piece)) (butlast pieces)
      @ (case snd f of
           Some k \<Rightarrow> [Err k]
         | None \<Rightarrow> if last pieces = [] then [] else [text_line (last pieces)]))"

definition is_ascii_whitespace :: "char \<Rightarrow> bool" where
  "is_ascii_whitespace c = ((of_char c :: nat) \<in> {0x20, 0x09, 0x0A, 0x0C, 0x0D})"

fun split_where :: "('a \<Rightarrow> bool) \<Rightarrow> 'a list \<Rightarrow> 'a list list" where
  "split_where P [] = [[]]"
| "split_where P (x # xs) =
     (if P x then [] # split_where P xs
      else case split_where P xs of [] \<Rightarrow> [[x]] | y # ys \<Rightarrow> (x # y) # ys)"

definition split_ascii_whitespace :: "string \<Rightarrow> string list" where
  "split_ascii_whitespace s = List.filter (\<lambda>piece. piece \<noteq> []) (split_where is_ascii_whitespace s)"

text \<open>\<open>trim\<close>, when what is left is ASCII, as every address is.\<close>

definition trim_to_ascii :: "string \<Rightarrow> string option" where
  "trim_to_ascii s =
     (let cs = trim (chars s) in if list_all (\<lambda>c. c < 0x80) cs then Some (map char_of cs) else None)"

lemma text_line_no_panic [simp]: "text_line bytes \<noteq> Panic"
  by (simp add: text_line_def split: option.split)

lemma lines_no_panic: "Panic \<notin> set (lines f)"
proof -
  have "\<forall>line \<in> set (lines f). line \<noteq> Panic"
    by (auto simp: lines_def Let_def split: option.split)
  then show ?thesis by blast
qed

lemma split_where_not_Nil [simp]: "split_where P xs \<noteq> []"
  by (cases xs) (auto split: list.split)

lemma split_where_pieces: "piece \<in> set (split_where P xs) \<Longrightarrow> list_all (\<lambda>x. \<not> P x \<and> x \<in> set xs) piece"
proof (induction xs arbitrary: piece)
  case (Cons x xs)
  show ?case
  proof (cases "P x")
    case True
    with Cons show ?thesis by (auto simp: list_all_iff)
  next
    case False
    obtain y ys where ys: "split_where P xs = y # ys" by (cases "split_where P xs") auto
    with False Cons.prems have "piece = x # y \<or> piece \<in> set ys" by auto
    with Cons.IH [of piece] Cons.IH [of y] ys False show ?thesis by (auto simp: list_all_iff)
  qed
qed simp

lemma split_ascii_whitespace_words:
  "word \<in> set (split_ascii_whitespace s) \<Longrightarrow> word \<noteq> [] \<and> list_all (\<lambda>c. \<not> is_ascii_whitespace c) word"
  by (auto simp: split_ascii_whitespace_def list_all_iff dest!: split_where_pieces)

end
