(* ===== verification/Resolve.thy ===== *)
theory Resolve
  imports Files Connect
begin

text \<open>
  Where the nameservers come from (\<open>src/resolve.rs\<close>, on Unix): the one the user gave, or those of
  \<open>resolv.conf\<close>, with its search list; and the names that the local hosts file lists
  (\<open>src/hints.rs\<close>). \<open>label_to_ascii\<close> is the UTS 46 processing that \<open>encode\<close> takes.
\<close>

subsection \<open>The code\<close>

record SystemPaths =
  hosts_path :: string
  resolv_conf_path :: string

definition system_paths :: SystemPaths where
  "system_paths = \<lparr>hosts_path = ''/etc/hosts'', resolv_conf_path = ''/etc/resolv.conf''\<rparr>"

datatype ResolverType = SystemDefault | Specific string

record Resolver =
  nameservers :: "string list"
  search_list :: "string list"

datatype ResolverLookupError = NoNameserver | Lookup_IO io_kind

definition MAX_NAMESERVERS :: nat where "MAX_NAMESERVERS = 3"

definition resolv_line :: "string \<Rightarrow> string list \<times> string list \<Rightarrow> string list \<times> string list" where
  "resolv_line line st =
     (let (servers, search) = st;
          servers =
            (case strip_prefix ''nameserver '' line of
               None \<Rightarrow> servers
             | Some s \<Rightarrow>
                 (case trim_to_ascii s of
                    None \<Rightarrow> servers
                  | Some nameserver_str \<Rightarrow>
                      if parse_ip nameserver_str \<noteq> None then servers @ [nameserver_str] else servers));
          search =
            (case strip_prefix ''search '' line of
               None \<Rightarrow> search
             | Some search_str \<Rightarrow> split_ascii_whitespace search_str)
      in (servers, search))"

fun resolv_lines ::
  "(io_kind, string) outcome list \<Rightarrow> string list \<times> string list
     \<Rightarrow> (ResolverLookupError, string list \<times> string list) outcome" where
  "resolv_lines [] st = Ok st"
| "resolv_lines (Ok line # ls) st = resolv_lines ls (resolv_line line st)"
| "resolv_lines (Err k # ls) st = Err (Lookup_IO k)"
| "resolv_lines (Panic # ls) st = Panic"

definition parse_resolv_conf :: "text_file \<Rightarrow> (ResolverLookupError, Resolver) outcome" where
  "parse_resolv_conf f =
     bind_outcome (resolv_lines (lines f) ([], [])) (\<lambda>(servers, search).
     if servers = [] then Err NoNameserver
     else Ok \<lparr>nameservers = take MAX_NAMESERVERS servers, search_list = search\<rparr>)"

definition system_nameservers :: "files \<Rightarrow> SystemPaths \<Rightarrow> (ResolverLookupError, Resolver) outcome" where
  "system_nameservers fs paths =
     bind_outcome (map_err Lookup_IO (fs (resolv_conf_path paths))) parse_resolv_conf"

fun obtain_resolver :: "files \<Rightarrow> SystemPaths \<Rightarrow> ResolverType \<Rightarrow> (ResolverLookupError, Resolver) outcome" where
  "obtain_resolver fs paths SystemDefault = system_nameservers fs paths"
| "obtain_resolver fs paths (Specific ns) = Ok \<lparr>nameservers = [ns], search_list = []\<rparr>"

definition name_list :: "(string \<Rightarrow> string option) \<Rightarrow> Resolver \<Rightarrow> labels \<Rightarrow> labels list" where
  "name_list label_to_ascii resolver name =
     (if 1 < labels_len name then [name]
      else
        concat (map (\<lambda>search.
          case encode label_to_ascii search of Ok suffix \<Rightarrow> [Labels.extend name suffix] | _ \<Rightarrow> [])
          (search_list resolver)) @ [name])"

text \<open>The hosts file.\<close>

fun hosts_lines ::
  "(string \<Rightarrow> string option) \<Rightarrow> (io_kind, string) outcome list \<Rightarrow> labels set \<Rightarrow> (io_kind, labels set) outcome" where
  "hosts_lines label_to_ascii [] hostnames = Ok hostnames"
| "hosts_lines label_to_ascii (Ok line # ls) hostnames =
     (let line = takeWhile (\<lambda>c. c \<noteq> CHR ''#'') line;
          names = concat (map (\<lambda>hostname.
            case encode label_to_ascii hostname of Ok hn \<Rightarrow> [hn] | _ \<Rightarrow> [])
            (drop 1 (split_ascii_whitespace line)))
      in hosts_lines label_to_ascii ls (hostnames \<union> set names))"
| "hosts_lines label_to_ascii (Err k # ls) hostnames = Err k"
| "hosts_lines label_to_ascii (Panic # ls) hostnames = Panic"

definition load_from_reader :: "(string \<Rightarrow> string option) \<Rightarrow> text_file \<Rightarrow> (io_kind, labels set) outcome" where
  "load_from_reader label_to_ascii f = hosts_lines label_to_ascii (lines f) {}"

definition load_hosts :: "(string \<Rightarrow> string option) \<Rightarrow> files \<Rightarrow> string \<Rightarrow> (io_kind, labels set) outcome" where
  "load_hosts label_to_ascii fs path = bind_outcome (fs path) (load_from_reader label_to_ascii)"


subsection \<open>Nameservers of the system can be used\<close>

text \<open>What is collected from the lines: addresses, and words for the search list.\<close>

definition usable_lists :: "string list \<times> string list \<Rightarrow> bool" where
  "usable_lists st \<longleftrightarrow>
     list_all (\<lambda>s. parse_ip s \<noteq> None) (fst st)
     \<and> list_all (\<lambda>word. word \<noteq> [] \<and> list_all (\<lambda>c. \<not> is_ascii_whitespace c) word) (snd st)"

lemma resolv_line_usable: "usable_lists st \<Longrightarrow> usable_lists (resolv_line line st)"
  using split_ascii_whitespace_words
  by (fastforce simp: resolv_line_def usable_lists_def list_all_iff Let_def split: option.split prod.split)

lemma resolv_lines_usable: "resolv_lines ls st = Ok st' \<Longrightarrow> usable_lists st \<Longrightarrow> usable_lists st'"
  by (induction ls st rule: resolv_lines.induct) (auto intro: resolv_line_usable)

text \<open>
  The nameservers that are found in \<open>resolv.conf\<close> can be used as they are: there is at least
  one and at most three, each is an IP address, so that no transport but HTTPS refuses it, and
  the connection made for it needs no name to be looked up.
\<close>

theorem resolv_conf_usable:
  assumes "parse_resolv_conf f = Ok r"
  shows "1 \<le> length (nameservers r) \<and> length (nameservers r) \<le> 3
    \<and> list_all (\<lambda>ns. \<exists>ip. parse_ip ns = Some ip \<and> check_nameserver Automatic ns = Ok ()
        \<and> check_nameserver TLS ns = Ok () \<and> nameserver_address {} ns (ip, 53)) (nameservers r)
    \<and> list_all (\<lambda>word. word \<noteq> [] \<and> list_all (\<lambda>c. \<not> is_ascii_whitespace c) word) (search_list r)"
proof -
  from assms obtain servers search where
    st: "resolv_lines (lines f) ([], []) = Ok (servers, search)" "servers \<noteq> []"
    and r: "r = \<lparr>nameservers = take 3 servers, search_list = search\<rparr>"
    by (auto simp: parse_resolv_conf_def bind_outcome_Ok_iff MAX_NAMESERVERS_def split: if_splits)
  from resolv_lines_usable [OF st(1)] have usable: "usable_lists (servers, search)"
    by (simp add: usable_lists_def)
  have ok: "\<exists>ip. parse_ip ns = Some ip \<and> check_nameserver Automatic ns = Ok ()
      \<and> check_nameserver TLS ns = Ok () \<and> nameserver_address {} ns (ip, 53)" if "ns \<in> set servers" for ns
  proof -
    from usable that obtain ip where "parse_ip ns = Some ip"
      by (auto simp: usable_lists_def list_all_iff)
    with parse_ip_host_port [OF this] show ?thesis
      by (simp add: nameserver_address_def host_address_def)
  qed
  have "1 \<le> length (take 3 servers)" using st(2) by (cases servers) auto
  with usable ok show ?thesis
    unfolding r by (auto simp: usable_lists_def list_all_iff dest: in_set_takeD)
qed

lemma resolv_conf_usable_witness:
  "\<exists>r. parse_resolv_conf (bytes_of (''search a b'' @ [CHR 0x0A] @ ''nameserver  1.1.1.1'' @ [CHR 0x0D, CHR 0x0A]), None)
       = Ok r \<and> 1 \<le> length (nameservers r)"
proof -
  let ?f = "(bytes_of (''search a b'' @ [CHR 0x0A] @ ''nameserver  1.1.1.1'' @ [CHR 0x0D, CHR 0x0A]), None) :: text_file"
  have ls: "lines ?f = [Ok ''search a b'', Ok ''nameserver  1.1.1.1'']"
    by (simp add: lines_def bytes_of_def byte_of_char_def text_line_def without_return_def from_utf8_def
        strip_suffix_char_def string_of_def char_of_byte_def Let_def char_of_eq_iff)
  note ip = parse_ip_1111
  have trim: "trim_to_ascii '' 1.1.1.1'' = Some ''1.1.1.1''"
    by (simp add: trim_to_ascii_def trim_def is_whitespace_def Let_def char_of_eq_iff)
  have "parse_resolv_conf ?f = Ok \<lparr>nameservers = [''1.1.1.1''], search_list = [''a'', ''b'']\<rparr>"
    unfolding parse_resolv_conf_def ls
    by (simp add: resolv_line_def trim ip MAX_NAMESERVERS_def split_ascii_whitespace_def is_ascii_whitespace_def)
  with resolv_conf_usable [OF this] show ?thesis by blast
qed


subsection \<open>The names that are asked for\<close>

definition long_label :: string where "long_label = replicate 63 CHR ''a''"

text \<open>
  A search list can make a name that is too long to be one: with a label of 63 bytes and a
  suffix of three, each accepted by \<open>encode\<close>, the first name asked for would take 257 bytes, where
  a name has at most 255. It is written into the request all the same.
\<close>

theorem search_name_too_long:
  "\<exists>name n. encode Some long_label = Ok name
    \<and> hd (name_list Some \<lparr>nameservers = servers, search_list = [join ''.'' [long_label, long_label, long_label]]\<rparr> name) = n
    \<and> wire_length n = 257 \<and> (\<exists>bytes. write_labels n = Ok bytes)"
proof -
  let ?name = "\<lparr>segments = [bytes_of long_label]\<rparr>"
  let ?suffix = "\<lparr>segments = [bytes_of long_label, bytes_of long_label, bytes_of long_label]\<rparr>"
  have len: "length long_label = 63" by (simp add: long_label_def)
  then have dot: "CHR ''.'' \<notin> set long_label" "long_label \<noteq> []" by (auto simp: long_label_def)
  have label: "encode_label Some long_label = Ok (bytes_of long_label)"
  proof -
    have "chars long_label = map of_char long_label"
      by (rule chars_ascii) (simp add: long_label_def list_all_iff)
    then show ?thesis
      using len dot by (auto simp: encode_label_def list_ex_iff is_whitespace_def is_control_def MAX_LABEL_def
          long_label_def)
  qed
  have ne: "long_label \<noteq> ''.''" using dot(1) by (metis list.set_intros(1))
  have lst: "last long_label \<noteq> CHR ''.''" using dot last_in_set [of long_label] by metis
  have last: "strip_suffix_char CHR ''.'' long_label = None"
    using dot lst by (auto simp: strip_suffix_char_def)
  have one: "encode Some long_label = Ok ?name"
    unfolding encode_Ok_iff using len dot ne last label
    by (auto simp: without_final_dot_def split_char_id wire_length_def MAX_NAME_def)
  let ?search = "join ''.'' [long_label, long_label, long_label]"
  have "strip_suffix_char CHR ''.'' ?search = None"
    using dot lst by (auto simp: strip_suffix_char_def)
  then have "encode Some ?search = Ok ?suffix"
    unfolding encode_Ok_iff using len dot label
    by (auto simp: without_final_dot_def split_char_id split_char_append wire_length_def MAX_NAME_def)
  then have "hd (name_list Some \<lparr>nameservers = servers, search_list = [?search]\<rparr> ?name) = Labels.extend ?name ?suffix"
    by (simp add: name_list_def labels_len_def)
  moreover have "wire_length (Labels.extend ?name ?suffix) = 257"
    using len by (simp add: Labels.extend_def wire_length_def)
  moreover have "\<exists>bytes. write_labels (Labels.extend ?name ?suffix) = Ok bytes"
    using len by (simp add: Labels.extend_def write_labels_def write_label_def)
  ultimately show ?thesis using one by blast
qed

text \<open>
  The names that are asked for, for a name of one label or none: the name with each entry of
  the search list after it that can be encoded, in order, and then the name itself. The root is
  extended like any other name, so with a search list it is not the first that is asked for.
\<close>

theorem name_list_searched:
  assumes "labels_len name \<le> 1"
    and "list_all2 (\<lambda>search suffix. encode to_ascii search = Ok suffix) good suffixes"
    and "List.filter (\<lambda>search. \<exists>suffix. encode to_ascii search = Ok suffix) (search_list r) = good"
  shows "name_list to_ascii r name = map (\<lambda>suffix. \<lparr>segments = segments name @ segments suffix\<rparr>) suffixes @ [name]
    \<and> (name = root \<longrightarrow> name_list to_ascii r name = suffixes @ [root])"
proof -
  have all: "concat (map (\<lambda>search. case encode to_ascii search of Ok suffix \<Rightarrow> [Labels.extend name suffix] | _ \<Rightarrow> []) ss)
      = map (\<lambda>suffix. \<lparr>segments = segments name @ segments suffix\<rparr>) sfs"
    if "list_all2 (\<lambda>search suffix. encode to_ascii search = Ok suffix)
      (List.filter (\<lambda>search. \<exists>suffix. encode to_ascii search = Ok suffix) ss) sfs" for ss sfs
    using that
  proof (induction ss arbitrary: sfs)
    case (Cons s ss)
    then show ?case
      by (cases "encode to_ascii s") (auto simp: Labels.extend_def list_all2_Cons1)
  qed simp
  have "map (\<lambda>suffix. \<lparr>segments = segments root @ segments suffix\<rparr>) suffixes = suffixes"
    by (rule map_idI) (simp add: root_def)
  moreover note all [of "search_list r" suffixes]
  ultimately show ?thesis using assms by (auto simp: name_list_def)
qed

lemma name_list_searched_witness:
  "name_list Some \<lparr>nameservers = [], search_list = [''dog'', ''a b'']\<rparr> root = [\<lparr>segments = [[0x64, 0x6F, 0x67]]\<rparr>, root]"
proof -
  have "encode Some ''dog'' = Ok \<lparr>segments = [[0x64, 0x6F, 0x67]]\<rparr>"
    "\<not> (\<exists>suffix. encode Some ''a b'' = Ok suffix)"
    by (simp_all add: encode_eval)
  with name_list_searched [of root Some "[''dog'']" "[\<lparr>segments = [[0x64, 0x6F, 0x67]]\<rparr>]"
      "\<lparr>nameservers = [], search_list = [''dog'', ''a b'']\<rparr>"]
  show ?thesis by (simp add: labels_len_def root_def)
qed


subsection \<open>The hosts file\<close>

lemma hosts_lines_contains:
  "hosts_lines to_ascii ls known = Ok hs \<Longrightarrow>
     hn \<in> hs \<longleftrightarrow> hn \<in> known \<or>
       (\<exists>line hostname. Ok line \<in> set ls
          \<and> hostname \<in> set (drop 1 (split_ascii_whitespace (takeWhile (\<lambda>c. c \<noteq> CHR ''#'') line)))
          \<and> encode to_ascii hostname = Ok hn)"
proof (induction to_ascii ls known arbitrary: hs rule: hosts_lines.induct)
  case (2 to_ascii line ls known)
  from "2.prems" have run: "hosts_lines to_ascii ls
      (known \<union> set (concat (map (\<lambda>hostname. case encode to_ascii hostname of Ok hn \<Rightarrow> [hn] | _ \<Rightarrow> [])
         (drop 1 (split_ascii_whitespace (takeWhile (\<lambda>c. c \<noteq> CHR ''#'') line)))))) = Ok hs"
    by (simp add: Let_def)
  have names: "hn \<in> set (concat (map (\<lambda>hostname. case encode to_ascii hostname of Ok hn \<Rightarrow> [hn] | _ \<Rightarrow> []) ws))
      \<longleftrightarrow> (\<exists>w \<in> set ws. encode to_ascii w = Ok hn)" for ws
    by (auto split: outcome.splits) (metis list.set_intros(1) outcome.simps(10))
  from "2.IH" [OF refl refl run] show ?case
    unfolding Un_iff names by auto
qed auto

text \<open>
  The local host names are those of the hosts file: a name is among them exactly when it is,
  on some line, a word after the first and before any comment, in the form that \<open>encode\<close> gives it.
\<close>

theorem local_hosts_contain:
  assumes "load_from_reader to_ascii f = Ok hosts"
  shows "hn \<in> hosts \<longleftrightarrow>
    (\<exists>line hostname. Ok line \<in> set (lines f)
       \<and> hostname \<in> set (drop 1 (split_ascii_whitespace (takeWhile (\<lambda>c. c \<noteq> CHR ''#'') line)))
       \<and> encode to_ascii hostname = Ok hn)"
  using hosts_lines_contains [OF assms [unfolded load_from_reader_def]] by simp

lemma local_hosts_contain_witness:
  "\<exists>hosts. load_from_reader Some (bytes_of (''1 dog#b'' @ [CHR 0x0A]), None) = Ok hosts
     \<and> \<lparr>segments = [[0x64, 0x6F, 0x67]]\<rparr> \<in> hosts"
proof -
  let ?f = "(bytes_of (''1 dog#b'' @ [CHR 0x0A]), None) :: text_file"
  have ls: "lines ?f = [Ok ''1 dog#b'']"
    by (simp add: lines_def bytes_of_def byte_of_char_def text_line_def without_return_def from_utf8_def
        strip_suffix_char_def string_of_def char_of_byte_def Let_def char_of_eq_iff)
  have word: "''dog'' \<in> set (drop 1 (split_ascii_whitespace (takeWhile (\<lambda>c. c \<noteq> CHR ''#'') ''1 dog#b'')))"
    by (simp add: split_ascii_whitespace_def is_ascii_whitespace_def)
  have name: "encode Some ''dog'' = Ok \<lparr>segments = [[0x64, 0x6F, 0x67]]\<rparr>"
    by (simp add: encode_eval)
  obtain hosts where hosts: "load_from_reader Some ?f = Ok hosts"
    unfolding load_from_reader_def ls by (simp add: Let_def)
  with local_hosts_contain [OF hosts, of "\<lparr>segments = [[0x64, 0x6F, 0x67]]\<rparr>"] ls word name show ?thesis by auto
qed

end
