(* ===== verification/Rdata.thy ===== *)
theory Rdata
  imports Message
begin

text \<open>
  The specification of record data: which bytes stand for which record, written from the RFCs
  and not from the parser. A name is written without compression, because what a pointer
  means depends on the rest of the packet (that is the subject of the theory \<open>Labels\<close>).
  The parser is shown to read every record this relation describes, and with it every message
  made of them.
\<close>

subsection \<open>The format\<close>

text \<open>The type a record is of.\<close>

fun record_kind :: "Record \<Rightarrow> RecordType" where
  "record_kind (R_A _) = T_A"
| "record_kind (R_AAAA _) = T_AAAA"
| "record_kind (R_CAA _) = T_CAA"
| "record_kind (R_CNAME _) = T_CNAME"
| "record_kind (R_DNSKEY _) = T_DNSKEY"
| "record_kind (R_DS _) = T_DS"
| "record_kind (R_EUI48 _) = T_EUI48"
| "record_kind (R_EUI64 _) = T_EUI64"
| "record_kind (R_HINFO _) = T_HINFO"
| "record_kind (R_LOC _) = T_LOC"
| "record_kind (R_MX _) = T_MX"
| "record_kind (R_NAPTR _) = T_NAPTR"
| "record_kind (R_NS _) = T_NS"
| "record_kind (R_NSEC _) = T_NSEC"
| "record_kind (R_OPENPGPKEY _) = T_OPENPGPKEY"
| "record_kind (R_PTR _) = T_PTR"
| "record_kind (R_RRSIG _) = T_RRSIG"
| "record_kind (R_SSHFP _) = T_SSHFP"
| "record_kind (R_SOA _) = T_SOA"
| "record_kind (R_SRV _) = T_SRV"
| "record_kind (R_TLSA _) = T_TLSA"
| "record_kind (R_TXT _) = T_TXT"
| "record_kind (R_URI _) = T_URI"
| "record_kind (R_Other tn _) = T_Other tn"

inductive rdata :: "Record \<Rightarrow> u8 list \<Rightarrow> bool" where
  rdata_A: "length a = 4 \<Longrightarrow> rdata (R_A \<lparr>a_address = a\<rparr>) a"
| rdata_AAAA: "length a = 16 \<Longrightarrow> rdata (R_AAAA \<lparr>aaaa_address = a\<rparr>) a"
| rdata_EUI48: "length a = 6 \<Longrightarrow> rdata (R_EUI48 \<lparr>eui48_octets = a\<rparr>) a"
| rdata_EUI64: "length a = 8 \<Longrightarrow> rdata (R_EUI64 \<lparr>eui64_octets = a\<rparr>) a"
| rdata_OPENPGPKEY: "key \<noteq> [] \<Longrightarrow> rdata (R_OPENPGPKEY \<lparr>openpgpkey_key = key\<rparr>) key"
| rdata_CAA: "length tag < 256 \<Longrightarrow>
    rdata (R_CAA \<lparr>caa_critical = bit fs 7, caa_tag = tag, caa_value = val\<rparr>)
      ([fs] @ [word_of_nat (length tag)] @ tag @ val)"
| rdata_SSHFP: "fp \<noteq> [] \<Longrightarrow>
    rdata (R_SSHFP \<lparr>sshfp_algorithm = alg, sshfp_fingerprint_type = ty, sshfp_fingerprint = fp\<rparr>)
      ([alg] @ [ty] @ fp)"
| rdata_TLSA: "data \<noteq> [] \<Longrightarrow>
    rdata (R_TLSA \<lparr>tlsa_certificate_usage = u, tlsa_selector = s, tlsa_matching_type = m,
                   tlsa_certificate_data = data\<rparr>)
      ([u] @ [s] @ [m] @ data)"
| rdata_DNSKEY:
   "rdata (R_DNSKEY \<lparr>dnskey_flags = fl, dnskey_protocol = proto, dnskey_algorithm = alg,
                     dnskey_public_key = key\<rparr>)
      (be_bytes16 fl @ [proto] @ [alg] @ key)"
| rdata_DS: "digest \<noteq> [] \<Longrightarrow>
    rdata (R_DS \<lparr>ds_key_tag = tag, ds_algorithm = alg, ds_digest_type = ty, ds_digest = digest\<rparr>)
      (be_bytes16 tag @ [alg] @ [ty] @ digest)"
| rdata_URI: "target \<noteq> [] \<Longrightarrow>
    rdata (R_URI \<lparr>uri_priority = pr, uri_weight = w, uri_target = target\<rparr>)
      (be_bytes16 pr @ be_bytes16 w @ target)"
| rdata_HINFO: "length cpu < 256 \<Longrightarrow> length os < 256 \<Longrightarrow>
    rdata (R_HINFO \<lparr>hinfo_cpu = cpu, hinfo_os = os\<rparr>)
      ([word_of_nat (length cpu)] @ cpu @ [word_of_nat (length os)] @ os)"
| rdata_CNAME: "readable_name n \<Longrightarrow> rdata (R_CNAME \<lparr>cname_domain = n\<rparr>) (name_bytes n)"
| rdata_NS: "readable_name n \<Longrightarrow> rdata (R_NS \<lparr>ns_nameserver = n\<rparr>) (name_bytes n)"
| rdata_PTR: "readable_name n \<Longrightarrow> rdata (R_PTR \<lparr>ptr_cname = n\<rparr>) (name_bytes n)"
| rdata_MX: "readable_name n \<Longrightarrow>
    rdata (R_MX \<lparr>mx_preference = pr, mx_exchange = n\<rparr>) (be_bytes16 pr @ name_bytes n)"
| rdata_SRV: "readable_name n \<Longrightarrow>
    rdata (R_SRV \<lparr>srv_priority = pr, srv_weight = w, srv_port = port, srv_target = n\<rparr>)
      (be_bytes16 pr @ be_bytes16 w @ be_bytes16 port @ name_bytes n)"
| rdata_SOA: "readable_name m \<Longrightarrow> readable_name r \<Longrightarrow>
    rdata (R_SOA \<lparr>soa_mname = m, soa_rname = r, soa_serial = a, soa_refresh_interval = b,
                  soa_retry_interval = c, soa_expire_limit = d, soa_minimum_ttl = e\<rparr>)
      (name_bytes m @ name_bytes r @ be_bytes32 a @ be_bytes32 b @ be_bytes32 c @ be_bytes32 d
        @ be_bytes32 e)"
| rdata_NAPTR: "length fl < 256 \<Longrightarrow> length sv < 256 \<Longrightarrow> length re < 256 \<Longrightarrow> readable_name n \<Longrightarrow>
    rdata (R_NAPTR \<lparr>naptr_order = o', naptr_preference = pr, naptr_flags = fl, naptr_service = sv,
                    naptr_regex = re, naptr_replacement = n\<rparr>)
      (be_bytes16 o' @ be_bytes16 pr @ character_string fl @ character_string sv
        @ character_string re @ name_bytes n)"
| rdata_RRSIG: "readable_name n \<Longrightarrow>
    rdata (R_RRSIG \<lparr>rrsig_type_covered = ty, rrsig_algorithm = alg, rrsig_labels = ls,
                    rrsig_original_ttl = ttl, rrsig_signature_expiration = exp,
                    rrsig_signature_inception = inc, rrsig_key_tag = tag,
                    rrsig_signer_name = n, rrsig_signature = sig\<rparr>)
      ((be_bytes16 ty @ [alg] @ [ls] @ be_bytes32 ttl @ be_bytes32 exp @ be_bytes32 inc @ be_bytes16 tag)
        @ name_bytes n @ sig)"
| rdata_NSEC: "readable_name n \<Longrightarrow> list_all valid_block blocks \<Longrightarrow> blocks \<noteq> [] \<Longrightarrow>
    rdata (R_NSEC \<lparr>nsec_next_domain = n,
                   nsec_types = map word_of_nat (concat (map block_numbers blocks))\<rparr>)
      (name_bytes n @ concat (map block_bytes blocks))"
| rdata_TXT: "ss \<noteq> [] \<Longrightarrow> \<forall>s \<in> set ss. length s < 256 \<Longrightarrow>
    rdata (R_TXT \<lparr>txt_messages = merge_strings ss\<rparr>) (strings_bytes ss)"
| rdata_LOC: "position_from_u32 lat True = Ok latitude \<Longrightarrow> position_from_u32 long False = Ok longitude \<Longrightarrow>
    rdata (R_LOC \<lparr>loc_size = size_from_u8 s, loc_horizontal_precision = size_from_u8 h,
                  loc_vertical_precision = size_from_u8 v, loc_latitude = latitude,
                  loc_longitude = longitude, loc_altitude = altitude_from_u32 alt\<rparr>)
      ([0] @ [s] @ [h] @ [v] @ be_bytes32 lat @ be_bytes32 long @ be_bytes32 alt)"
| rdata_Other: "rdata (R_Other tn bytes) bytes"


subsection \<open>The parser reads it\<close>

lemma parses_map_reader: "parses m bs x \<Longrightarrow> parses (map_reader f m) bs (f x)"
  unfolding map_reader_def by (rule parses_bind_last, assumption, rule parses_ret)

lemma parses_exact: "n = length bs \<Longrightarrow> parses (read_exact n) bs bs"
  by (simp add: parses_read_exact)

lemma parses_if_False: "parses m2 bs x \<Longrightarrow> \<not> b \<Longrightarrow> parses (if b then m1 else m2) bs x"
  by simp

lemma parses_if_True: "parses m1 bs x \<Longrightarrow> b \<Longrightarrow> parses (if b then m1 else m2) bs x"
  by simp

lemma parses_case_prod: "parses (g a b) cs y \<Longrightarrow> parses (case (a, b) of (x, z) \<Rightarrow> g x z) cs y"
  by simp

lemma parses_bind_minus:
  "parses (f (a - b)) cs y \<Longrightarrow> b \<le> a \<Longrightarrow> parses (bind (checked_minus a b) f) cs y"
  by (rule parses_bind_Nil [OF parses_checked_minus])

lemma parses_bind_add:
  assumes "\<And>c. unat c = unat a + unat b \<Longrightarrow> parses (f c) cs y"
    and "unat a + unat b < 65536"
  shows "parses (bind (checked_add a b) f) cs y"
  by (rule parses_bind_Nil [OF parses_checked_add [OF assms(2)]], rule assms(1))
    (use assms(2) in \<open>simp add: unat_add_no_overflow\<close>)

lemma parses_bind_exact:
  "parses (f bs) cs y \<Longrightarrow> n = length bs \<Longrightarrow> parses (bind (read_exact n) f) (bs @ cs) y"
  by (rule parses_bind [OF parses_exact])

lemma parses_bind_exact_last:
  "parses (f bs) [] y \<Longrightarrow> n = length bs \<Longrightarrow> parses (bind (read_exact n) f) bs y"
  by (rule parses_bind_last [OF parses_exact])

lemma parses_bind_name:
  "parses (f (ls, word_of_nat (length (name_bytes ls)))) cs y \<Longrightarrow> readable_name ls \<Longrightarrow>
     parses (bind read_labels f) (name_bytes ls @ cs) y"
  by (rule parses_bind [OF parses_name_bytes])

lemma parses_bind_name_last:
  "parses (f (ls, word_of_nat (length (name_bytes ls)))) [] y \<Longrightarrow> readable_name ls \<Longrightarrow>
     parses (bind read_labels f) (name_bytes ls) y"
  by (rule parses_bind_last [OF parses_name_bytes])

lemma parses_bind_string:
  "parses (f (bs, word_of_nat (1 + length bs))) cs y \<Longrightarrow> length bs < 256 \<Longrightarrow>
     parses (bind read_character_string f) (character_string bs @ cs) y"
  unfolding character_string_def by (rule parses_bind [OF parses_read_character_string])

lemma parses_check_length': "unat n = unat k \<Longrightarrow> parses (check_length n k x) [] x"
  by (simp add: word_unat_eq_iff [symmetric] parses_check_length)

text \<open>The steps of a reader, in the order in which they are to be tried.\<close>

lemmas parses_steps = parses_case_prod parses_if_False parses_bind_minus parses_bind_add
  parses_bind_exact parses_bind_exact_last parses_bind_name parses_bind_name_last parses_bind_string
  parses_check_length' parses_ret' parses_bind [OF parses_read_u8] parses_bind [OF parses_read_u16]
  parses_bind [OF parses_read_u32] parses_bind_last [OF parses_read_u16]
  parses_bind_last [OF parses_read_u32]

lemmas lengths = word_le_nat_alt word_less_nat_alt unat_sub_le not_le not_less

lemma length_name_less:
  "unat (len :: u16) = length (name_bytes n) + k \<Longrightarrow>
     unat (word_of_nat (length (name_bytes n)) :: u16) = length (name_bytes n)"
  using unat_u16_less [of len] by (intro unat_of_nat_u16) linarith

lemma parses_SSHFP:
  "fp \<noteq> [] \<Longrightarrow> unat len = length ([alg] @ [ty] @ fp) \<Longrightarrow>
     parses (SSHFP_read len) ([alg] @ [ty] @ fp)
       \<lparr>sshfp_algorithm = alg, sshfp_fingerprint_type = ty, sshfp_fingerprint = fp\<rparr>"
  unfolding SSHFP_read_def
  by ((rule parses_steps)+, auto simp: lengths neq_Nil_conv)

lemma parses_TLSA:
  "data \<noteq> [] \<Longrightarrow> unat len = length ([u] @ [s] @ [m] @ data) \<Longrightarrow>
     parses (TLSA_read len) ([u] @ [s] @ [m] @ data)
       \<lparr>tlsa_certificate_usage = u, tlsa_selector = s, tlsa_matching_type = m, tlsa_certificate_data = data\<rparr>"
  unfolding TLSA_read_def
  by ((rule parses_steps)+, auto simp: lengths neq_Nil_conv)

lemma parses_DNSKEY:
  "unat len = length (be_bytes16 fl @ [proto] @ [alg] @ key) \<Longrightarrow>
     parses (DNSKEY_read len) (be_bytes16 fl @ [proto] @ [alg] @ key)
       \<lparr>dnskey_flags = fl, dnskey_protocol = proto, dnskey_algorithm = alg, dnskey_public_key = key\<rparr>"
  unfolding DNSKEY_read_def
  by ((rule parses_steps)+, auto simp: lengths neq_Nil_conv)

lemma parses_DS:
  "digest \<noteq> [] \<Longrightarrow> unat len = length (be_bytes16 tag @ [alg] @ [ty] @ digest) \<Longrightarrow>
     parses (DS_read len) (be_bytes16 tag @ [alg] @ [ty] @ digest)
       \<lparr>ds_key_tag = tag, ds_algorithm = alg, ds_digest_type = ty, ds_digest = digest\<rparr>"
  unfolding DS_read_def
  by ((rule parses_steps)+, auto simp: lengths neq_Nil_conv)

lemma parses_URI:
  "target \<noteq> [] \<Longrightarrow> unat len = length (be_bytes16 pr @ be_bytes16 w @ target) \<Longrightarrow>
     parses (URI_read len) (be_bytes16 pr @ be_bytes16 w @ target)
       \<lparr>uri_priority = pr, uri_weight = w, uri_target = target\<rparr>"
  unfolding URI_read_def
  by ((rule parses_steps)+, auto simp: lengths neq_Nil_conv)

lemma parses_addresses:
  "unat len = 4 \<Longrightarrow> length a = 4 \<Longrightarrow> parses (A_read len) a \<lparr>a_address = a\<rparr>"
  "unat len = 16 \<Longrightarrow> length b = 16 \<Longrightarrow> parses (AAAA_read len) b \<lparr>aaaa_address = b\<rparr>"
  "unat len = 6 \<Longrightarrow> length c = 6 \<Longrightarrow> parses (EUI48_read len) c \<lparr>eui48_octets = c\<rparr>"
  "unat len = 8 \<Longrightarrow> length d = 8 \<Longrightarrow> parses (EUI64_read len) d \<lparr>eui64_octets = d\<rparr>"
  unfolding A_read_def AAAA_read_def EUI48_read_def EUI64_read_def
  by ((rule parses_steps)+, simp_all add: word_unat_eq_iff)+

lemma parses_OPENPGPKEY:
  "key \<noteq> [] \<Longrightarrow> unat len = length key \<Longrightarrow> parses (OPENPGPKEY_read len) key \<lparr>openpgpkey_key = key\<rparr>"
  unfolding OPENPGPKEY_read_def by ((rule parses_steps)+, auto)

lemma parses_HINFO:
  "length cpu < 256 \<Longrightarrow> length os < 256 \<Longrightarrow>
     unat len = length ([word_of_nat (length cpu)] @ cpu @ [word_of_nat (length os) :: u8] @ os) \<Longrightarrow>
     parses (HINFO_read len) ([word_of_nat (length cpu)] @ cpu @ [word_of_nat (length os)] @ os)
       \<lparr>hinfo_cpu = cpu, hinfo_os = os\<rparr>"
  unfolding HINFO_read_def by ((rule parses_steps)+, auto)

lemma and_power_u8: "n < 8 \<Longrightarrow> (fs :: u8) AND 2 ^ n = 2 ^ n \<longleftrightarrow> bit fs n"
proof
  assume "n < 8" "fs AND 2 ^ n = 2 ^ n"
  then have "bit (fs AND 2 ^ n) n = bit (2 ^ n :: u8) n" by simp
  with \<open>n < 8\<close> show "bit fs n" by (simp add: bit_and_iff bit_exp_iff)
next
  assume "bit fs n"
  then show "fs AND 2 ^ n = 2 ^ n" by (intro bit_word_eqI) (auto simp: bit_simps)
qed

lemma critical_bit: "(fs :: u8) AND 0x80 = 0x80 \<longleftrightarrow> bit fs 7"
  using and_power_u8 [of 7 fs] by simp

lemma parses_CAA:
  "length tag < 256 \<Longrightarrow> unat len = length ([fs :: u8] @ [word_of_nat (length tag)] @ tag @ val) \<Longrightarrow>
     parses (CAA_read len) ([fs] @ [word_of_nat (length tag)] @ tag @ val)
       \<lparr>caa_critical = bit fs 7, caa_tag = tag, caa_value = val\<rparr>"
  unfolding CAA_read_def Let_def by ((rule parses_steps)+, auto simp: unat_saturating_sub critical_bit)

lemma parses_CNAME:
  "readable_name n \<Longrightarrow> unat len = length (name_bytes n) \<Longrightarrow>
     parses (CNAME_read len) (name_bytes n) \<lparr>cname_domain = n\<rparr>"
  unfolding CNAME_read_def
  by ((rule parses_if_True parses_steps)+, auto simp: word_unat_eq_iff length_name_less [of len n 0])

lemma parses_NS:
  "readable_name n \<Longrightarrow> unat len = length (name_bytes n) \<Longrightarrow>
     parses (NS_read len) (name_bytes n) \<lparr>ns_nameserver = n\<rparr>"
  unfolding NS_read_def
  by ((rule parses_if_True parses_steps)+, auto simp: word_unat_eq_iff length_name_less [of len n 0])

lemma parses_PTR:
  "readable_name n \<Longrightarrow> unat len = length (name_bytes n) \<Longrightarrow>
     parses (PTR_read len) (name_bytes n) \<lparr>ptr_cname = n\<rparr>"
  unfolding PTR_read_def
  by ((rule parses_if_True parses_steps)+, auto simp: word_unat_eq_iff length_name_less [of len n 0])

lemma parses_MX:
  "readable_name n \<Longrightarrow> unat len = length (be_bytes16 pr @ name_bytes n) \<Longrightarrow>
     parses (MX_read len) (be_bytes16 pr @ name_bytes n) \<lparr>mx_preference = pr, mx_exchange = n\<rparr>"
  unfolding MX_read_def
  by ((rule parses_steps)+, insert unat_u16_less [of len], auto simp: length_name_less [of len n 2])

lemma parses_SRV:
  "readable_name n \<Longrightarrow> unat len = length (be_bytes16 pr @ be_bytes16 w @ be_bytes16 port @ name_bytes n) \<Longrightarrow>
     parses (SRV_read len) (be_bytes16 pr @ be_bytes16 w @ be_bytes16 port @ name_bytes n)
       \<lparr>srv_priority = pr, srv_weight = w, srv_port = port, srv_target = n\<rparr>"
  unfolding SRV_read_def
  by ((rule parses_steps)+, insert unat_u16_less [of len], auto simp: length_name_less [of len n 6])

lemma parses_SOA:
  assumes "readable_name m" and "readable_name r"
    and len: "unat len = length (name_bytes m @ name_bytes r @ be_bytes32 a @ be_bytes32 b @ be_bytes32 c
      @ be_bytes32 d @ be_bytes32 e)"
  shows "parses (SOA_read len) (name_bytes m @ name_bytes r @ be_bytes32 a @ be_bytes32 b @ be_bytes32 c
      @ be_bytes32 d @ be_bytes32 e)
    \<lparr>soa_mname = m, soa_rname = r, soa_serial = a, soa_refresh_interval = b, soa_retry_interval = c,
     soa_expire_limit = d, soa_minimum_ttl = e\<rparr>"
proof -
  note small = length_name_less [of len m "length (name_bytes r) + 20"]
    length_name_less [of len r "length (name_bytes m) + 20"]
  show ?thesis
    unfolding SOA_read_def
    by ((rule parses_steps)+) (use assms unat_u16_less [of len] small in auto)
qed

lemma parses_NAPTR:
  assumes "length fl < 256" and "length sv < 256" and "length re < 256" and "readable_name n"
    and len: "unat len = length (be_bytes16 od @ be_bytes16 pr @ character_string fl @ character_string sv
      @ character_string re @ name_bytes n)"
  shows "parses (NAPTR_read len) (be_bytes16 od @ be_bytes16 pr @ character_string fl @ character_string sv
      @ character_string re @ name_bytes n)
    \<lparr>naptr_order = od, naptr_preference = pr, naptr_flags = fl, naptr_service = sv, naptr_regex = re,
     naptr_replacement = n\<rparr>"
proof -
  have string: "unat (word_of_nat (1 + length s) :: u16) = 1 + length s" if "length s < 256" for s :: "u8 list"
    by (rule unat_of_nat_u16) (use that in simp)
  note small = string [OF assms(1)] string [OF assms(2)] string [OF assms(3)]
    length_name_less [of len n "length fl + length sv + length re + 7"]
  show ?thesis
    unfolding NAPTR_read_def Let_def
    by ((rule parses_if_True parses_steps)+)
      (use assms unat_u16_less [of len] small in
        \<open>auto simp: word_unat_eq_iff unat_saturating_add_fits simp del: of_nat_add of_nat_Suc\<close>)
qed

lemma parses_FixedFields:
  "parses FixedFields_read
     (be_bytes16 ty @ [alg] @ [ls] @ be_bytes32 ttl @ be_bytes32 exp @ be_bytes32 inc @ be_bytes16 tag)
     \<lparr>fixed_type_covered = ty, fixed_algorithm = alg, fixed_labels = ls, fixed_original_ttl = ttl,
      fixed_signature_expiration = exp, fixed_signature_inception = inc, fixed_key_tag = tag\<rparr>"
  unfolding FixedFields_read_def by ((rule parses_steps)+, simp_all)

lemma parses_case_Some:
  "parses (g k) cs y \<Longrightarrow> z = Some k \<Longrightarrow> parses (case z of None \<Rightarrow> m | Some x \<Rightarrow> g x) cs y"
  by simp

lemma name_bytes_not_Nil [simp]: "name_bytes n \<noteq> []"
  by (simp add: name_bytes_def)

lemma parses_RRSIG:
  fixes ty tag :: u16 and alg ls :: u8
  assumes "readable_name n"
    and len: "unat len = length ((be_bytes16 ty @ [alg] @ [ls] @ be_bytes32 ttl @ be_bytes32 exp @ be_bytes32 inc
      @ be_bytes16 tag) @ name_bytes n @ sig)"
  shows "parses (RRSIG_read len)
    ((be_bytes16 ty @ [alg] @ [ls] @ be_bytes32 ttl @ be_bytes32 exp @ be_bytes32 inc @ be_bytes16 tag)
       @ name_bytes n @ sig)
    \<lparr>rrsig_type_covered = ty, rrsig_algorithm = alg, rrsig_labels = ls, rrsig_original_ttl = ttl,
     rrsig_signature_expiration = exp, rrsig_signature_inception = inc, rrsig_key_tag = tag,
     rrsig_signer_name = n, rrsig_signature = sig\<rparr>"
proof -
  have total: "unat len = 18 + length (name_bytes n) + length sig" using len by simp
  have name: "unat (word_of_nat (length (name_bytes n)) :: u16) = length (name_bytes n)"
    and sig: "unat (word_of_nat (length sig) :: u16) = length sig"
    using total unat_u16_less [of len] by (auto intro!: unat_of_nat_u16)
  have rest: "checked_sub len (saturating_add (word_of_nat (length (name_bytes n))) 18)
      = Some (word_of_nat (length sig))"
    using total unat_u16_less [of len]
    by (simp add: checked_sub_Some_iff unat_saturating_add_fits name sig)
  have "1 \<le> length (name_bytes n)" by (simp add: Suc_le_eq)
  with total have long: "\<not> len < 19" by (simp add: word_less_nat_alt)
  show ?thesis
    unfolding RRSIG_read_def Let_def
    by (rule parses_if_False [OF _ long], rule parses_bind [OF parses_FixedFields],
        rule parses_bind_name, rule parses_case_prod, rule parses_case_Some [OF _ rest],
        rule parses_bind_exact_last)
      (simp_all add: parses_ret sig assms(1))
qed

lemma parses_NSEC:
  assumes "readable_name n" and "list_all valid_block blocks" and "blocks \<noteq> []"
    and len: "unat len = length (name_bytes n @ concat (map block_bytes blocks))"
  shows "parses (NSEC_read len) (name_bytes n @ concat (map block_bytes blocks))
    \<lparr>nsec_next_domain = n, nsec_types = map word_of_nat (concat (map block_numbers blocks))\<rparr>"
proof -
  let ?bs = "concat (map block_bytes blocks)"
  have name: "unat (word_of_nat (length (name_bytes n)) :: u16) = length (name_bytes n)"
    and bs: "unat (word_of_nat (length ?bs) :: u16) = length ?bs"
    using len unat_u16_less [of len] by (auto intro!: unat_of_nat_u16)
  have rest: "checked_sub len (word_of_nat (length (name_bytes n))) = Some (word_of_nat (length ?bs))"
    using len by (simp add: checked_sub_Some_iff name bs)
  have types: "parse_type_bitmaps ?bs = Ok (map word_of_nat (concat (map block_numbers blocks)))"
    using parse_windows_blocks [OF assms(2), of "[]" "[]"] by (simp add: parse_type_bitmaps_def)
  have "1 \<le> length (name_bytes n)" "1 \<le> length ?bs"
    using assms(2,3) by (auto simp: Suc_le_eq block_bytes_def neq_Nil_conv)
  with len have long: "\<not> len < 2" by (simp only: word_less_nat_alt length_append) simp
  show ?thesis
    unfolding NSEC_read_def
    by (rule parses_if_False [OF _ long], rule parses_bind_name, rule parses_case_prod,
        rule parses_case_Some [OF _ rest], rule parses_bind_exact_last,
        rule parses_bind_Nil [OF parses_lift_outcome [OF types]])
      (simp_all add: parses_ret bs assms(1))
qed

lemma parses_LOC:
  assumes "position_from_u32 lat True = Ok latitude" and "position_from_u32 long False = Ok longitude"
    and len: "unat len = 16"
  shows "parses (LOC_read len) ([0] @ [s] @ [h] @ [v] @ be_bytes32 lat @ be_bytes32 long @ be_bytes32 alt)
    \<lparr>loc_size = size_from_u8 s, loc_horizontal_precision = size_from_u8 h,
     loc_vertical_precision = size_from_u8 v, loc_latitude = latitude, loc_longitude = longitude,
     loc_altitude = altitude_from_u32 alt\<rparr>"
proof -
  from len have len_16: "len = 16" by (simp add: word_unat_eq_iff)
  show ?thesis
    unfolding LOC_read_def
    by ((rule parses_steps parses_bind_Nil [OF parses_lift_outcome [OF assms(1)]]
          parses_bind_Nil [OF parses_lift_outcome [OF assms(2)]])+, simp_all add: len_16)
qed

lemma parses_Other:
  "unat len = length bs \<Longrightarrow>
     parses (bind (read_bytes len) (\<lambda>bytes. ret (R_Other tn bytes))) bs (R_Other tn bs)"
  unfolding read_bytes_def by (rule parses_bind_exact_last) (simp_all add: parses_ret)

lemma rdata_parses:
  assumes "rdata r bs" and "unat len = length bs"
  shows "parses (record_from_bytes (record_kind r) len) bs r"
  using assms
proof (cases rule: rdata.cases)
  case (rdata_NSEC n blocks)
  show ?thesis
    unfolding rdata_NSEC(1,2) record_kind.simps record_from_bytes.simps
    by (rule parses_map_reader [OF parses_NSEC]) (use rdata_NSEC assms(2) in simp_all)
next
  case (rdata_RRSIG n ty alg ls ttl exp inc tag sig)
  show ?thesis
    unfolding rdata_RRSIG(1,2) record_kind.simps record_from_bytes.simps
    by (rule parses_map_reader [OF parses_RRSIG]) (use rdata_RRSIG assms(2) in simp_all)
next
  case (rdata_TXT ss)
  then have "length (strings_bytes ss) < 65536" using assms(2) unat_u16_less [of len] by simp
  moreover have "len = word_of_nat (unat len)" by simp
  then have "len = word_of_nat (length (strings_bytes ss))"
    using rdata_TXT assms(2) by (simp only:)
  ultimately show ?thesis
    using rdata_TXT by (simp only: record_kind.simps record_from_bytes.simps)
      (rule parses_map_reader [OF parses_TXT])
qed (simp_all only: record_kind.simps record_from_bytes.simps,
     (rule parses_map_reader [OF parses_addresses(1)] parses_map_reader [OF parses_addresses(2)]
        parses_map_reader [OF parses_addresses(3)] parses_map_reader [OF parses_addresses(4)]
        parses_map_reader [OF parses_OPENPGPKEY] parses_map_reader [OF parses_CAA]
        parses_map_reader [OF parses_SSHFP] parses_map_reader [OF parses_TLSA]
        parses_map_reader [OF parses_DNSKEY] parses_map_reader [OF parses_DS]
        parses_map_reader [OF parses_URI] parses_map_reader [OF parses_HINFO]
        parses_map_reader [OF parses_CNAME] parses_map_reader [OF parses_NS]
        parses_map_reader [OF parses_PTR] parses_map_reader [OF parses_MX]
        parses_map_reader [OF parses_SRV] parses_map_reader [OF parses_SOA]
        parses_map_reader [OF parses_NAPTR] parses_map_reader [OF parses_LOC] parses_Other;
      simp)+)

text \<open>
  The parser reads every record of every type: the bytes that stand for a record, given
  their length and the record's type, are read as that record, wherever they are in a packet.
\<close>

theorem record_from_bytes_rdata:
  assumes "rdata r bs" and "length bs < 65536"
  shows "parses (record_from_bytes (record_kind r) (word_of_nat (length bs))) bs r"
  by (rule rdata_parses [OF assms(1)]) (use assms(2) in simp)

lemma record_from_bytes_rdata_witness:
  "parses (record_from_bytes T_MX 7) [0, 10, 3, 0x6D, 0x78, 0x31, 0]
     (R_MX \<lparr>mx_preference = 10, mx_exchange = \<lparr>segments = [[0x6D, 0x78, 0x31]]\<rparr>\<rparr>)"
proof -
  have "rdata (R_MX \<lparr>mx_preference = 10, mx_exchange = \<lparr>segments = [[0x6D, 0x78, 0x31]]\<rparr>\<rparr>)
      (be_bytes16 10 @ name_bytes \<lparr>segments = [[0x6D, 0x78, 0x31]]\<rparr>)"
    by (rule rdata_MX) (simp add: readable_name_def readable_segment_def)
  from record_from_bytes_rdata [OF this] show ?thesis
    by (simp add: be_bytes16_def name_bytes_def)
qed


subsection \<open>Whole messages\<close>

definition query_bytes :: "Query \<Rightarrow> u8 list" where
  "query_bytes q =
     name_bytes (query_qname q) @ be_bytes16 (type_number (query_qtype q))
       @ be_bytes16 (qclass_to_u16 (query_qclass q))"

text \<open>A class or type that its number is read as: not a second spelling of a known one.\<close>

definition canonical_type :: "RecordType \<Rightarrow> bool" where
  "canonical_type rt \<longleftrightarrow> record_type_from (type_number rt) = rt"

definition valid_query :: "Query \<Rightarrow> bool" where
  "valid_query q \<longleftrightarrow> readable_name (query_qname q) \<and> canonical_type (query_qtype q)
     \<and> canonical_class (query_qclass q)"

inductive answer_bytes :: "Answer \<Rightarrow> u8 list \<Rightarrow> bool" where
  standard_bytes:
    "readable_name n \<Longrightarrow> canonical_class c \<Longrightarrow> canonical_type (record_kind r) \<Longrightarrow>
     type_number (record_kind r) \<noteq> OPT_RR_TYPE \<Longrightarrow> rdata r data \<Longrightarrow> length data < 65536 \<Longrightarrow>
     answer_bytes (Standard n c ttl r)
       (name_bytes n @ be_bytes16 (type_number (record_kind r)) @ be_bytes16 (qclass_to_u16 c)
          @ be_bytes32 ttl @ be_bytes16 (word_of_nat (length data)) @ data)"
| pseudo_bytes:
    "readable_name n \<Longrightarrow> OPT_to_bytes opt = Ok data \<Longrightarrow>
     answer_bytes (Pseudo n opt) (name_bytes n @ be_bytes16 OPT_RR_TYPE @ data)"

inductive_cases answer_bytesE: "answer_bytes a bs"

text \<open>What is left of an entry's bytes after its name, read by the entry's reader.\<close>

definition entry_parses :: "(labels \<Rightarrow> 'a reader) \<Rightarrow> 'a \<Rightarrow> u8 list \<Rightarrow> bool" where
  "entry_parses read_entry x bs \<longleftrightarrow>
     (\<exists>n rest. bs = name_bytes n @ rest \<and> readable_name n \<and> parses (read_entry n) rest x)"

lemma query_entry_parses:
  assumes "valid_query q"
  shows "entry_parses query_from_bytes q (query_bytes q)"
proof -
  have "parses (query_from_bytes (query_qname q))
      (be_bytes16 (type_number (query_qtype q)) @ be_bytes16 (qclass_to_u16 (query_qclass q))) q"
    unfolding query_from_bytes_def Let_def
    by ((rule parses_steps)+)
      (use assms in \<open>simp_all add: valid_query_def canonical_type_def canonical_class_def\<close>)
  then show ?thesis
    using assms by (auto simp: entry_parses_def query_bytes_def valid_query_def)
qed

lemma answer_entry_parses:
  assumes "answer_bytes a bs"
  shows "entry_parses answer_from_bytes a bs"
  using assms
proof cases
  case (standard_bytes n c r data ttl)
  let ?rt = "record_kind r"
  have type: "record_type_from (type_number ?rt) = ?rt" and qc: "qclass_from_u16 (qclass_to_u16 c) = c"
    using standard_bytes by (simp_all add: canonical_type_def canonical_class_def)
  have rec: "parses (record_from_bytes ?rt (word_of_nat (length data))) data r"
    by (rule rdata_parses) (use standard_bytes in simp_all)
  have "parses (answer_from_bytes n)
      (be_bytes16 (type_number ?rt) @ be_bytes16 (qclass_to_u16 c) @ be_bytes32 ttl
        @ be_bytes16 (word_of_nat (length data)) @ data) a"
    unfolding answer_from_bytes_def Let_def
    by (rule parses_bind [OF parses_read_u16], rule parses_if_False, unfold type,
        rule parses_bind [OF parses_read_u16], rule parses_bind [OF parses_read_u32],
        rule parses_bind [OF parses_read_u16], rule parses_bind_last [OF rec])
      (use standard_bytes qc in \<open>simp_all add: parses_ret\<close>)
  with standard_bytes show ?thesis by (auto simp: entry_parses_def)
next
  case (pseudo_bytes n opt data)
  have opt: "parses OPT_read data opt"
    using OPT_to_bytes_parses [of opt] pseudo_bytes by (auto simp: OPT_to_bytes_Ok_iff)
  have "parses (answer_from_bytes n) (be_bytes16 OPT_RR_TYPE @ data) a"
    unfolding answer_from_bytes_def Let_def
    by (rule parses_bind [OF parses_read_u16], rule parses_if_True, rule parses_bind_last [OF opt])
      (simp_all add: pseudo_bytes parses_ret)
  with pseudo_bytes show ?thesis by (auto simp: entry_parses_def)
qed

lemma parses_entries:
  "list_all2 (entry_parses read_entry) xs bss \<Longrightarrow>
     parses (read_entries read_entry (length xs) acc) (concat bss) (acc @ xs)"
proof (induction xs bss arbitrary: acc rule: list_all2_induct)
  case Nil
  show ?case by (simp add: parses_ret)
next
  case (Cons x xs bs bss)
  then obtain n rest where e: "bs = name_bytes n @ rest" "readable_name n" "parses (read_entry n) rest x"
    by (auto simp: entry_parses_def)
  have rest: "parses (bind (read_entry n) (\<lambda>entry. read_entries read_entry (length xs) (acc @ [entry])))
      (rest @ concat bss) (acc @ x # xs)"
    using Cons.IH [of "acc @ [x]"] by (intro parses_bind [OF e(3)]) simp
  show ?case
    unfolding length_Cons read_entries.simps concat.simps e(1) append_assoc
    by (rule parses_bind_name, rule parses_case_prod) (use rest e(2) in simp_all)
qed

lemma parses_section:
  assumes "list_all2 (entry_parses read_entry) xs bss" and "length xs < 65536"
  shows "parses (read_section (word_of_nat (length xs)) read_entry) (concat bss) xs"
  unfolding read_section_def using parses_entries [OF assms(1), of "[]"] assms(2) by simp

text \<open>The bytes of a message: the header, and the entries of its sections.\<close>

definition message_bytes ::
  "u16 \<Rightarrow> u16 \<Rightarrow> u8 list list \<Rightarrow> u8 list list \<Rightarrow> u8 list list \<Rightarrow> u8 list list \<Rightarrow> u8 list" where
  "message_bytes txid flag_bits qs as us xs =
     be_bytes16 txid @ be_bytes16 flag_bits
       @ be_bytes16 (word_of_nat (length qs)) @ be_bytes16 (word_of_nat (length as))
       @ be_bytes16 (word_of_nat (length us)) @ be_bytes16 (word_of_nat (length xs))
       @ concat qs @ concat as @ concat us @ concat xs"

lemma parses_counts:
  "parses read_counts (be_bytes16 a @ be_bytes16 b @ be_bytes16 c @ be_bytes16 d) (a, b, c, d)"
  unfolding read_counts_def by ((rule parses_steps)+, simp_all)

lemma parses_response:
  assumes "list_all2 (entry_parses query_from_bytes) qs qbs"
    and "list_all2 (entry_parses answer_from_bytes) as abss"
    and "list_all2 (entry_parses answer_from_bytes) us ubs"
    and "list_all2 (entry_parses answer_from_bytes) xs xbs"
    and "length qs < 65536" "length as < 65536" "length us < 65536" "length xs < 65536"
  shows "parses read_response (message_bytes txid bits qbs abss ubs xbs)
    \<lparr>resp_transaction_id = txid,
     resp_flags = (flags_from_u16 bits)
       \<lparr>flag_error_code := error_code_from_bits (word_of_nat (full_rcode bits xs))\<rparr>,
     resp_queries = qs, resp_answers = as, resp_authorities = us, resp_additionals = xs\<rparr>"
proof -
  have lengths: "length qbs = length qs" "length abss = length as" "length ubs = length us" "length xbs = length xs"
    using assms(1-4) by (auto dest: list_all2_lengthD)
  have eq: "message_bytes txid bits qbs abss ubs xbs =
      be_bytes16 txid @ be_bytes16 bits
        @ (be_bytes16 (word_of_nat (length qs)) @ be_bytes16 (word_of_nat (length as))
           @ be_bytes16 (word_of_nat (length us)) @ be_bytes16 (word_of_nat (length xs)))
        @ concat qbs @ concat abss @ concat ubs @ concat xbs"
    by (simp add: message_bytes_def lengths)
  show ?thesis
    unfolding eq read_response_def Let_def
    by (rule parses_bind [OF parses_read_u16], rule parses_bind [OF parses_read_u16],
        rule parses_bind [OF parses_counts], (rule parses_case_prod)+,
        rule parses_bind [OF parses_section [OF assms(1,5)]],
        rule parses_bind [OF parses_section [OF assms(2,6)]],
        rule parses_bind [OF parses_section [OF assms(3,7)]],
        rule parses_bind_last [OF parses_section [OF assms(4,8)]],
        unfold extended_rcode_cases, rule parses_ret)
qed

lemma response_from_message_bytes:
  assumes "parses read_response bs r" and "length bs < 65536"
  shows "response_from_bytes bs = Ok r"
  using parses_whole [OF assms] by (simp add: response_from_bytes_def)

lemma message_parses:
  assumes "list_all valid_query qs"
    and "list_all2 answer_bytes as abss" and "list_all2 answer_bytes us ubs"
    and "list_all2 answer_bytes xs xbs"
    and "length (message_bytes txid bits (map query_bytes qs) abss ubs xbs) < 65536"
    and "length qs < 65536" "length as < 65536" "length us < 65536" "length xs < 65536"
  shows "response_from_bytes (message_bytes txid bits (map query_bytes qs) abss ubs xbs) =
    Ok \<lparr>resp_transaction_id = txid,
        resp_flags = (flags_from_u16 bits)
          \<lparr>flag_error_code := error_code_from_bits (word_of_nat (full_rcode bits xs))\<rparr>,
        resp_queries = qs, resp_answers = as, resp_authorities = us, resp_additionals = xs\<rparr>"
proof (rule response_from_message_bytes [OF parses_response])
  show "list_all2 (entry_parses query_from_bytes) qs (map query_bytes qs)"
    using assms(1) by (auto simp: list_all2_conv_all_nth list_all_length query_entry_parses)
qed (use assms in \<open>auto elim: list_all2_mono intro: answer_entry_parses\<close>)




subsection \<open>Requests\<close>

definition request_message :: "Request \<Rightarrow> u8 list" where
  "request_message r =
     message_bytes (req_transaction_id r) (flags_to_u16 (req_flags r)) [query_bytes (req_query r)] [] []
       (case req_additional r of
          None \<Rightarrow> []
        | Some opt \<Rightarrow>
            [[0] @ be_bytes16 OPT_RR_TYPE @ (case OPT_to_bytes opt of Ok d \<Rightarrow> d | _ \<Rightarrow> [])])"

definition valid_request :: "Request \<Rightarrow> bool" where
  "valid_request r \<longleftrightarrow> valid_query (req_query r)
     \<and> opcode_from_bits (opcode_to_bits (flag_opcode (req_flags r))) = flag_opcode (req_flags r)
     \<and> (\<forall>opt. req_additional r = Some opt \<longrightarrow> length (opt_data opt) < 65536)"

lemma request_to_bytes_message:
  assumes "valid_request r"
  shows "request_to_bytes r = Ok (request_message r)"
proof -
  have name: "write_labels (query_qname (req_query r)) = Ok (name_bytes (query_qname (req_query r)))"
    using assms by (intro write_readable_name) (simp add: valid_request_def valid_query_def)
  show ?thesis
  proof (cases "req_additional r")
    case None
    then show ?thesis
      by (simp add: request_to_bytes_def name request_message_def message_bytes_def query_bytes_def)
  next
    case (Some opt)
    then obtain d where "OPT_to_bytes opt = Ok d"
      using assms OPT_to_bytes_parses [of opt] by (auto simp: valid_request_def)
    with Some show ?thesis
      by (simp add: request_to_bytes_def name request_message_def message_bytes_def query_bytes_def)
  qed
qed

lemma root_name: "name_bytes root = [0]" "readable_name root"
  by (simp_all add: name_bytes_def root_def readable_name_def)

lemma request_seen:
  assumes "valid_request r" and "length (request_message r) < 65536"
  shows "request_to_bytes r = Ok (request_message r) \<and>
    response_from_bytes (request_message r) =
      Ok \<lparr>resp_transaction_id = req_transaction_id r,
          resp_flags = (req_flags r)\<lparr>flag_error_code :=
             (case req_additional r of None \<Rightarrow> None
              | Some opt \<Rightarrow> error_code_from_bits (word_of_nat (unat (opt_higher_bits opt) * 16)))\<rparr>,
          resp_queries = [req_query r], resp_answers = [], resp_authorities = [],
          resp_additionals = (case req_additional r of None \<Rightarrow> [] | Some opt \<Rightarrow> [Pseudo root opt])\<rparr>"
proof -
  let ?xs = "case req_additional r of None \<Rightarrow> [] | Some opt \<Rightarrow> [Pseudo root opt]"
  let ?xbs = "case req_additional r of None \<Rightarrow> [] | Some opt \<Rightarrow>
      [[0] @ be_bytes16 OPT_RR_TYPE @ (case OPT_to_bytes opt of Ok d \<Rightarrow> d | _ \<Rightarrow> [])]"
  let ?bits = "flags_to_u16 (req_flags r)"
  have q: "list_all2 (entry_parses query_from_bytes) [req_query r] [query_bytes (req_query r)]"
    using assms(1) by (simp add: valid_request_def query_entry_parses)
  have x: "list_all2 (entry_parses answer_from_bytes) ?xs ?xbs"
  proof (cases "req_additional r")
    case (Some opt)
    then obtain d where d: "OPT_to_bytes opt = Ok d"
      using assms(1) OPT_to_bytes_parses [of opt] by (auto simp: valid_request_def)
    from answer_entry_parses [OF pseudo_bytes [OF root_name(2) d]] Some d show ?thesis
      by (simp add: root_name)
  qed simp
  have flags: "flags_from_u16 ?bits = (req_flags r)\<lparr>flag_error_code := None\<rparr>"
    by (rule flags_from_to) (use assms(1) in \<open>simp add: valid_request_def\<close>)
  have low: "unat ?bits mod 16 = 0"
    using flags_to_u16_no_rcode [of "req_flags r"] low_nibble_take_bit [of ?bits]
    by (simp add: take_bit_eq_mod word_unat_eq_iff unat_mod_distrib)
  have "parses read_response (request_message r)
    \<lparr>resp_transaction_id = req_transaction_id r,
     resp_flags = (flags_from_u16 ?bits)
       \<lparr>flag_error_code := error_code_from_bits (word_of_nat (full_rcode ?bits ?xs))\<rparr>,
     resp_queries = [req_query r], resp_answers = [], resp_authorities = [], resp_additionals = ?xs\<rparr>"
    unfolding request_message_def
    by (rule parses_response [OF q _ _ x]) (simp_all split: option.split)
  from response_from_message_bytes [OF this assms(2)] request_to_bytes_message [OF assms(1)]
  show ?thesis
    by (simp add: flags full_rcode_def low error_code_None_iff split: option.split)
qed

text \<open>
  C4: A request is sent as it was made: it is written without an error, and what a server that
  parses it sees is its transaction ID, its flags, its one question, and its OPT record if it
  has one.
\<close>

theorem request_round_trip:
  assumes "valid_request r" and "length (request_message r) < 65536"
  shows "request_to_bytes r = Ok (request_message r) \<and>
    response_from_bytes (request_message r) =
      Ok \<lparr>resp_transaction_id = req_transaction_id r,
          resp_flags = (req_flags r)\<lparr>flag_error_code :=
             (case req_additional r of None \<Rightarrow> None
              | Some opt \<Rightarrow> error_code_from_bits (word_of_nat (unat (opt_higher_bits opt) * 16)))\<rparr>,
          resp_queries = [req_query r], resp_answers = [], resp_authorities = [],
          resp_additionals = (case req_additional r of None \<Rightarrow> [] | Some opt \<Rightarrow> [Pseudo root opt])\<rparr>"
  using assms by (rule request_seen)

lemma request_round_trip_witness:
  "request_to_bytes \<lparr>req_transaction_id = 0xBEEF, req_flags = flags_query,
       req_query = \<lparr>query_qname = \<lparr>segments = [[0x61]]\<rparr>, query_qclass = IN, query_qtype = T_A\<rparr>,
       req_additional = Some additional_record\<rparr>
   = Ok [0xBE, 0xEF, 1, 0, 0, 1, 0, 0, 0, 0, 0, 1, 1, 0x61, 0, 0, 1, 0, 1,
         0, 0, 41, 2, 0, 0, 0, 0, 0, 0, 0]"
proof -
  let ?r = "\<lparr>req_transaction_id = 0xBEEF, req_flags = flags_query,
       req_query = \<lparr>query_qname = \<lparr>segments = [[0x61]]\<rparr>, query_qclass = IN, query_qtype = T_A\<rparr>,
       req_additional = Some additional_record\<rparr>"
  have t: "canonical_type T_A"
    by (simp add: canonical_type_def record_type_from_def known_types_def)
  have v: "valid_request ?r"
    using t by (simp add: valid_request_def valid_query_def readable_name_def readable_segment_def
        canonical_class_def qclass_from_u16_def flags_query_def flags_from_u16_def be_bytes16_def
        opcode_from_bits_def additional_record_def)
  have bits: "flags_to_u16 flags_query = 0x100"
    by (simp add: flags_query_def flags_to_u16_def flags_from_u16_def be_bytes16_def opcode_from_bits_def
        bit_numeral_rec)
  have m: "request_message ?r =
      [0xBE, 0xEF, 1, 0, 0, 1, 0, 0, 0, 0, 0, 1, 1, 0x61, 0, 0, 1, 0, 1,
         0, 0, 41, 2, 0, 0, 0, 0, 0, 0, 0]"
    by (simp add: request_message_def bits message_bytes_def query_bytes_def name_bytes_def be_bytes16_def
        additional_record_def OPT_to_bytes_def OPT_RR_TYPE_def)
  with request_round_trip [OF v] show ?thesis by simp
qed

end
