(* ===== verification/Requests.thy ===== *)
theory Requests
  imports Resolve Rdata
begin

text \<open>
  From what the user asked for to the requests and the transports to send them with
  (\<open>src/requests.rs\<close>, \<open>src/txid.rs\<close>): a set of requests for every combination of a domain, a
  type, a class, a resolver and a protocol.
\<close>

subsection \<open>The code\<close>

text \<open>Random numbers come from outside: \<open>rnd n\<close> is the one that is drawn as number \<open>n\<close>.\<close>

datatype TxidGenerator = Random | Sequence u16

fun txid_generate :: "(nat \<Rightarrow> u16) \<Rightarrow> TxidGenerator \<Rightarrow> nat \<Rightarrow> u16 \<times> nat" where
  "txid_generate rnd Random n = (rnd n, n + 1)"
| "txid_generate rnd (Sequence start) n = (start, n)"

record Inputs =
  in_domains :: "labels list"
  in_record_types :: "RecordType list"
  in_classes :: "QClass list"
  in_resolver_types :: "ResolverType list"
  in_transport_types :: "TransportType list"

definition inputs_default :: Inputs where
  "inputs_default = \<lparr>in_domains = [], in_record_types = [], in_classes = [], in_resolver_types = [],
     in_transport_types = []\<rparr>"

record ProtocolTweaks =
  set_authoritative_flag :: bool
  set_authentic_flag :: bool
  set_checking_disabled_flag :: bool
  set_dnssec_ok_flag :: bool
  udp_payload_size :: "u16 option"

definition tweaks_default :: ProtocolTweaks where
  "tweaks_default = \<lparr>set_authoritative_flag = False, set_authentic_flag = False,
     set_checking_disabled_flag = False, set_dnssec_ok_flag = False, udp_payload_size = None\<rparr>"

datatype UseEDNS = Disable | SendAndHide | SendAndShow

definition should_send :: "UseEDNS \<Rightarrow> bool" where "should_send edns = (edns \<noteq> Disable)"
definition should_show :: "UseEDNS \<Rightarrow> bool" where "should_show edns = (edns = SendAndShow)"

record RequestGenerator =
  gen_inputs :: Inputs
  gen_txids :: TxidGenerator
  gen_edns :: UseEDNS
  gen_tweaks :: ProtocolTweaks
  gen_timeout :: nat

definition set_request_flags :: "ProtocolTweaks \<Rightarrow> Flags \<Rightarrow> Flags" where
  "set_request_flags tweaks flags =
     (let flags = (if set_authoritative_flag tweaks then flags\<lparr>flag_authoritative := True\<rparr> else flags);
          flags = (if set_authentic_flag tweaks then flags\<lparr>flag_authentic_data := True\<rparr> else flags)
      in if set_checking_disabled_flag tweaks then flags\<lparr>flag_checking_disabled := True\<rparr> else flags)"

definition set_request_opt_fields :: "ProtocolTweaks \<Rightarrow> OPT \<Rightarrow> OPT" where
  "set_request_opt_fields tweaks opt =
     (let opt = (if set_dnssec_ok_flag tweaks then opt\<lparr>opt_flags := opt_flags opt OR 0x8000\<rparr> else opt)
      in case udp_payload_size tweaks of
           Some bufsize \<Rightarrow> opt\<lparr>opt_udp_payload_size := bufsize\<rparr>
         | None \<Rightarrow> opt)"

text \<open>The nested loops, from the outside in, and what each turn of them makes.\<close>

type_synonym turn = "labels \<times> RecordType \<times> QClass \<times> Resolver \<times> TransportType"

definition turns :: "Inputs \<Rightarrow> Resolver list \<Rightarrow> turn list" where
  "turns inputs resolvers =
     concat (map (\<lambda>domain.
     concat (map (\<lambda>qtype.
     concat (map (\<lambda>qclass.
     concat (map (\<lambda>resolver.
     map (\<lambda>transport_type. (domain, qtype, qclass, resolver, transport_type))
       (in_transport_types inputs)) resolvers)) (in_classes inputs))) (in_record_types inputs)))
       (in_domains inputs))"

fun request_list ::
  "(nat \<Rightarrow> u16) \<Rightarrow> RequestGenerator \<Rightarrow> RecordType \<Rightarrow> QClass \<Rightarrow> labels list \<Rightarrow> nat \<Rightarrow> Request list \<times> nat" where
  "request_list rnd g qtype qclass [] n = ([], n)"
| "request_list rnd g qtype qclass (qname # qnames) n =
     (let (txid, n) = txid_generate rnd (gen_txids g) n;
          request = \<lparr>req_transaction_id = txid, req_flags = set_request_flags (gen_tweaks g) flags_query,
                     req_query = \<lparr>query_qname = qname, query_qclass = qclass, query_qtype = qtype\<rparr>,
                     req_additional =
                       (if should_send (gen_edns g)
                        then Some (set_request_opt_fields (gen_tweaks g) additional_record) else None)\<rparr>;
          (requests, n) = request_list rnd g qtype qclass qnames n
      in (request # requests, n))"

type_synonym 'w request_set = "'w transport \<times> Request list"

fun request_sets ::
  "head_parser \<Rightarrow> (string \<Rightarrow> string option) \<Rightarrow> (nat \<Rightarrow> u16) \<Rightarrow> RequestGenerator \<Rightarrow> turn list \<Rightarrow> nat
     \<Rightarrow> 'w secure_world_scheme request_set list" where
  "request_sets parse label_to_ascii rnd g [] n = []"
| "request_sets parse label_to_ascii rnd g ((domain, qtype, qclass, resolver, transport_type) # ts) n =
     (let transport = make_transport_to parse transport_type (nameservers resolver) (gen_timeout g);
          (requests, n) = request_list rnd g qtype qclass (name_list label_to_ascii resolver domain) n
      in (transport, requests) # request_sets parse label_to_ascii rnd g ts n)"

definition generate ::
  "head_parser \<Rightarrow> (string \<Rightarrow> string option) \<Rightarrow> (nat \<Rightarrow> u16) \<Rightarrow> files \<Rightarrow> SystemPaths \<Rightarrow> RequestGenerator
     \<Rightarrow> (ResolverLookupError, 'w secure_world_scheme request_set list) outcome" where
  "generate parse label_to_ascii rnd fs paths g =
     bind_outcome (collect_outcome (obtain_resolver fs paths) (in_resolver_types (gen_inputs g))) (\<lambda>resolvers.
     Ok (request_sets parse label_to_ascii rnd g (turns (gen_inputs g) resolvers) 0))"


subsection \<open>Every request is what was asked for\<close>

text \<open>A request as the options of the user would have it, whatever its transaction id.\<close>

definition asks :: "RequestGenerator \<Rightarrow> RecordType \<Rightarrow> QClass \<Rightarrow> labels \<Rightarrow> Request \<Rightarrow> bool" where
  "asks g qtype qclass name r \<longleftrightarrow>
     req_query r = \<lparr>query_qname = name, query_qclass = qclass, query_qtype = qtype\<rparr>
     \<and> req_flags r = flags_query
         \<lparr>flag_authoritative := set_authoritative_flag (gen_tweaks g),
          flag_authentic_data := set_authentic_flag (gen_tweaks g),
          flag_checking_disabled := set_checking_disabled_flag (gen_tweaks g)\<rparr>
     \<and> req_additional r =
         (if gen_edns g = Disable then None
          else Some \<lparr>opt_udp_payload_size =
                       (case udp_payload_size (gen_tweaks g) of Some n \<Rightarrow> n | None \<Rightarrow> 512),
                     opt_higher_bits = 0, opt_edns0_version = 0,
                     opt_flags = (if set_dnssec_ok_flag (gen_tweaks g) then 0x8000 else 0), opt_data = []\<rparr>)
     \<and> (case gen_txids g of Sequence start \<Rightarrow> req_transaction_id r = start | Random \<Rightarrow> True)"

lemma request_list_asks:
  "list_all2 (asks g qtype qclass) names (fst (request_list rnd g qtype qclass names n))"
proof (induction names arbitrary: n)
  case (Cons name names)
  have "asks g qtype qclass name
      (hd (fst (request_list rnd g qtype qclass (name # names) n)))"
    by (simp add: asks_def Let_def case_prod_unfold set_request_flags_def set_request_opt_fields_def
        flags_query_def flags_from_u16_def additional_record_def should_send_def
        split: TxidGenerator.split option.split)
  with Cons.IH [of "snd (txid_generate rnd (gen_txids g) n)"] show ?case
    by (simp add: Let_def case_prod_unfold)
qed simp

definition turn_asks ::
  "head_parser \<Rightarrow> (string \<Rightarrow> string option) \<Rightarrow> RequestGenerator \<Rightarrow> turn \<Rightarrow> 'w secure_world_scheme request_set \<Rightarrow> bool"
where
  "turn_asks parse to_ascii g = (\<lambda>(domain, qtype, qclass, resolver, ty) (transport, requests).
     transport = make_transport_to parse ty (nameservers resolver) (gen_timeout g)
     \<and> list_all2 (asks g qtype qclass) (name_list to_ascii resolver domain) requests)"

lemma request_sets_ask:
  "list_all2 (turn_asks parse to_ascii g) ts (request_sets parse to_ascii rnd g ts n)"
proof (induction ts arbitrary: n)
  case (Cons t ts)
  obtain domain qtype qclass resolver ty where t: "t = (domain, qtype, qclass, resolver, ty)"
    by (cases t) auto
  obtain rs m where rs: "request_list rnd g qtype qclass (name_list to_ascii resolver domain) n = (rs, m)"
    by fastforce
  with Cons.IH [of m] request_list_asks [of g qtype qclass "name_list to_ascii resolver domain" rnd n]
  show ?case by (simp add: t turn_asks_def Let_def)
qed simp

lemma generate_ask:
  assumes "generate parse to_ascii rnd fs paths g = Ok sets"
  obtains resolvers where
    "list_all2 (\<lambda>ty r. obtain_resolver fs paths ty = Ok r) (in_resolver_types (gen_inputs g)) resolvers"
    "list_all2 (turn_asks parse to_ascii g) (turns (gen_inputs g) resolvers) sets"
proof -
  from assms obtain resolvers where
    "list_all2 (\<lambda>ty r. obtain_resolver fs paths ty = Ok r) (in_resolver_types (gen_inputs g)) resolvers"
    and "sets = request_sets parse to_ascii rnd g (turns (gen_inputs g) resolvers) 0"
    by (auto simp: generate_def bind_outcome_Ok_iff collect_outcome_Ok_iff)
  with that request_sets_ask show ?thesis by blast
qed


text \<open>
  A generator whose requests can be sent: what \<open>encode\<close> and the option parser make.
\<close>

definition proper_inputs :: "Inputs \<Rightarrow> bool" where
  "proper_inputs inputs \<longleftrightarrow>
     list_all (\<lambda>d. readable_name d \<and> wire_length d \<le> 255) (in_domains inputs)
     \<and> list_all canonical_type (in_record_types inputs) \<and> list_all canonical_class (in_classes inputs)"

lemma name_list_readable:
  assumes "n \<in> set (name_list to_ascii r name)" and "readable_name name" and "wire_length name \<le> 255"
    and "\<And>label ascii. label \<noteq> [] \<Longrightarrow> to_ascii label = Some ascii \<Longrightarrow> ascii \<noteq> []"
  shows "readable_name n" "wire_length n \<le> 509"
proof -
  have ext: "readable_name (Labels.extend name suffix) \<and> wire_length (Labels.extend name suffix) \<le> 509"
    if suffix: "encode to_ascii search = Ok suffix" for search suffix
    using encode_readable [OF suffix assms(4)] encode_Ok_valid [OF suffix] assms(2,3)
    by (auto simp: Labels.extend_def readable_name_def wire_length_def)
  from assms(1) have "n = name \<or> (\<exists>search. n \<in> set (case encode to_ascii search of
      Ok suffix \<Rightarrow> [Labels.extend name suffix] | _ \<Rightarrow> []))"
    by (auto simp: name_list_def split: if_splits)
  moreover have "\<exists>suffix. encode to_ascii search = Ok suffix \<and> n = Labels.extend name suffix"
    if "n \<in> set (case encode to_ascii search of Ok suffix \<Rightarrow> [Labels.extend name suffix] | _ \<Rightarrow> [])" for search
    using that by (cases "encode to_ascii search") auto
  ultimately have "n = name \<or> (\<exists>search suffix. encode to_ascii search = Ok suffix \<and> n = Labels.extend name suffix)"
    by blast
  with ext assms(2,3) show "readable_name n" "wire_length n \<le> 509" by auto
qed

lemma length_request_message:
  assumes "wire_length (query_qname (req_query r)) \<le> 509"
    and "\<And>opt. req_additional r = Some opt \<Longrightarrow> opt_data opt = []"
  shows "length (request_message r) < 65536"
  using assms(1)
  by (cases "req_additional r")
    (auto simp: request_message_def message_bytes_def query_bytes_def length_name_bytes be_bytes16_def
      OPT_to_bytes_def be_bytes32_def dest!: assms(2))

lemma generated_arrive:
  assumes "generate parse to_ascii rnd fs paths g = Ok sets" and "proper_inputs (gen_inputs g)"
    and "\<And>label ascii. label \<noteq> [] \<Longrightarrow> to_ascii label = Some ascii \<Longrightarrow> ascii \<noteq> []"
    and "(send, requests) \<in> set sets" and "r \<in> set requests"
  shows "\<exists>bytes seen. request_to_bytes r = Ok bytes \<and> length bytes < 65536
    \<and> response_from_bytes bytes = Ok seen
    \<and> resp_transaction_id seen = req_transaction_id r \<and> resp_queries seen = [req_query r]
    \<and> flag_recursion_desired (resp_flags seen)
    \<and> flag_authentic_data (resp_flags seen) = set_authentic_flag (gen_tweaks g)
    \<and> resp_additionals seen = (case req_additional r of None \<Rightarrow> [] | Some opt \<Rightarrow> [Pseudo root opt])"
proof -
  obtain resolvers where all: "list_all2 (turn_asks parse to_ascii g) (turns (gen_inputs g) resolvers) sets"
    using generate_ask [OF assms(1)] by blast
  from list_all2_right [OF all assms(4)] obtain domain qtype qclass resolver ty where
    turn: "(domain, qtype, qclass, resolver, ty) \<in> set (turns (gen_inputs g) resolvers)"
    and rs: "list_all2 (asks g qtype qclass) (name_list to_ascii resolver domain) requests"
    by (auto simp: turn_asks_def)
  from list_all2_right [OF rs assms(5)] obtain name where
    name: "name \<in> set (name_list to_ascii resolver domain)" and asks: "asks g qtype qclass name r" by auto
  from turn assms(2) have proper: "readable_name domain" "wire_length domain \<le> 255"
    "canonical_type qtype" "canonical_class qclass"
    by (auto simp: turns_def proper_inputs_def list_all_iff)
  note readable = name_list_readable [OF name proper(1,2) assms(3)]
  have "flag_opcode flags_query = Op_Query"
    by (simp add: flags_query_def flags_from_u16_def be_bytes16_def opcode_from_bits_def)
  then have opcode: "flag_opcode (req_flags r) = Op_Query" using asks by (simp add: asks_def)
  have opt: "opt_data opt = []" if "req_additional r = Some opt" for opt
    using asks that by (auto simp: asks_def split: if_splits)
  have q: "req_query r = \<lparr>query_qname = name, query_qclass = qclass, query_qtype = qtype\<rparr>"
    using asks by (simp add: asks_def)
  with readable(1) proper(3,4) have query: "valid_query (req_query r)" by (simp add: valid_query_def)
  have valid: "valid_request r"
    using query opcode opt by (auto simp: valid_request_def opcode_from_bits_def)
  have small: "length (request_message r) < 65536"
    using q readable(2) opt by (intro length_request_message) simp_all
  from request_seen [OF valid small] small asks show ?thesis
    by (auto simp: asks_def flags_query_def flags_from_u16_def has_bit_def)
qed

definition sample_generator :: RequestGenerator where
  "sample_generator =
     \<lparr>gen_inputs = \<lparr>in_domains = [\<lparr>segments = [[0x64, 0x6F, 0x67]]\<rparr>], in_record_types = [T_MX], in_classes = [IN],
        in_resolver_types = [Specific ''1.1.1.1''], in_transport_types = [UDP, TCP]\<rparr>,
      gen_txids = Sequence 7, gen_edns = SendAndHide,
      gen_tweaks = tweaks_default\<lparr>set_authentic_flag := True\<rparr>, gen_timeout = 5\<rparr>"

definition sample_request :: Request where
  "sample_request =
     \<lparr>req_transaction_id = 7, req_flags = flags_query\<lparr>flag_authentic_data := True\<rparr>,
      req_query = \<lparr>query_qname = \<lparr>segments = [[0x64, 0x6F, 0x67]]\<rparr>, query_qclass = IN, query_qtype = T_MX\<rparr>,
      req_additional = Some additional_record\<rparr>"

lemma generate_sample:
  "generate parse to_ascii rnd fs paths sample_generator
   = Ok [(udp_send ''1.1.1.1'' 5, [sample_request]), (tcp_send ''1.1.1.1'' 5, [sample_request])]"
  by (simp add: generate_def sample_generator_def turns_def name_list_def labels_len_def make_transport_to_def
      Let_def sample_request_def should_send_def set_request_flags_def set_request_opt_fields_def tweaks_default_def)


end
