(* ===== verification/F64.thy ===== *)
theory F64
  imports Complex_Main "HOL-Library.Log_Nat" Rust_Str
begin

text \<open>
  Floating-point numbers as the standard library reads them from text (\<open>str::parse::<f64>\<close>), and
  as durations (\<open>Duration::from_secs_f64\<close>): a number of sixty-four bits is the rational it stands
  for. Negative zero is zero here.
\<close>

datatype f64 = NaN | Infinite bool | Finite rat

definition pow2 :: "int \<Rightarrow> rat" where
  "pow2 e = (if 0 \<le> e then 2 ^ nat e else 1 / 2 ^ nat (- e))"

definition round_half_even :: "rat \<Rightarrow> int" where
  "round_half_even y =
     (let f = \<lfloor>y\<rfloor>; r = y - of_int f in
      if r < 1 / 2 then f else if 1 / 2 < r then f + 1 else if even f then f else f + 1)"

text \<open>The exponent \<open>e\<close> with \<open>2 ^ e \<le> x < 2 ^ (e + 1)\<close>, for a positive number.\<close>

definition exponent_of :: "rat \<Rightarrow> int" where
  "exponent_of x =
     (let (n, d) = quotient_of x; k = bitlen n - bitlen d in if pow2 k \<le> x then k else k - 1)"

text \<open>The nearest number with fifty-three bits, or as many as the smallest exponent leaves.\<close>

definition nearest_f64 :: "rat \<Rightarrow> f64" where
  "nearest_f64 x =
     (if x = 0 then Finite 0
      else
        let e = max (exponent_of \<bar>x\<bar> - 52) (- 1074);
            y = of_int (round_half_even (\<bar>x\<bar> / pow2 e)) * pow2 e
        in if pow2 1024 \<le> y then Infinite (x < 0) else Finite (if x < 0 then - y else y))"

definition split_sign :: "string \<Rightarrow> bool \<times> string" where
  "split_sign s =
     (case s of
        c # rest \<Rightarrow> if c = CHR ''-'' then (True, rest) else if c = CHR ''+'' then (False, rest) else (False, s)
      | [] \<Rightarrow> (False, s))"

definition parse_exponent :: "string \<Rightarrow> int option" where
  "parse_exponent s =
     (let (neg, digits) = split_sign s in
      if digits \<noteq> [] \<and> list_all is_ascii_digit digits
      then Some (if neg then - int (digits_value digits) else int (digits_value digits)) else None)"

definition parse_decimal :: "string \<Rightarrow> rat option" where
  "parse_decimal s =
     (let mantissa = takeWhile (\<lambda>c. c \<noteq> CHR ''e'' \<and> c \<noteq> CHR ''E'') s;
          whole = takeWhile (\<lambda>c. c \<noteq> CHR ''.'') mantissa;
          fraction = drop 1 (dropWhile (\<lambda>c. c \<noteq> CHR ''.'') mantissa);
          exponent = (case dropWhile (\<lambda>c. c \<noteq> CHR ''e'' \<and> c \<noteq> CHR ''E'') s of
                        [] \<Rightarrow> Some 0 | _ # rest \<Rightarrow> parse_exponent rest)
      in if whole @ fraction \<noteq> [] \<and> list_all is_ascii_digit (whole @ fraction)
         then map_option (\<lambda>e. of_nat (digits_value (whole @ fraction))
                * (let k = e - int (length fraction) in if 0 \<le> k then 10 ^ nat k else 1 / 10 ^ nat (- k))) exponent
         else None)"

definition parse_f64 :: "string \<Rightarrow> f64 option" where
  "parse_f64 s =
     (let (neg, body) = split_sign s in
      if eq_ignore_ascii_case body ''inf'' \<or> eq_ignore_ascii_case body ''infinity'' then Some (Infinite neg)
      else if eq_ignore_ascii_case body ''nan'' then Some NaN
      else map_option (\<lambda>x. nearest_f64 (if neg then - x else x)) (parse_decimal body))"

text \<open>Durations are numbers of nanoseconds.\<close>

definition from_secs_f64 :: "rat \<Rightarrow> nat" where
  "from_secs_f64 seconds = nat (round_half_even (seconds * 10 ^ 9))"

lemma round_half_even_le: "y \<le> of_int n \<Longrightarrow> round_half_even y \<le> n"
proof -
  assume y: "y \<le> of_int n"
  show ?thesis
  proof (cases "\<lfloor>y\<rfloor> = n")
    case True
    then have "y = of_int n" using y of_int_floor_le [of y] by simp
    then show ?thesis by (simp add: round_half_even_def)
  next
    case False
    then have "\<lfloor>y\<rfloor> < n" using y by (metis floor_mono floor_of_int less_le)
    then show ?thesis by (simp add: round_half_even_def Let_def)
  qed
qed

lemma from_secs_f64_le: "s \<le> of_nat n \<Longrightarrow> from_secs_f64 s \<le> n * 10 ^ 9"
proof -
  assume "s \<le> of_nat n"
  then have "s * 10 ^ 9 \<le> of_int (int n * 10 ^ 9)" by simp
  from round_half_even_le [OF this] have "nat (round_half_even (s * 10 ^ 9)) \<le> nat (int n * 10 ^ 9)"
    by (rule nat_mono)
  also have "\<dots> = n * 10 ^ 9" by (simp add: nat_mult_distrib)
  finally show ?thesis by (simp add: from_secs_f64_def)
qed

lemma from_secs_f64_nat: "from_secs_f64 (of_nat n) = n * 10 ^ 9"
proof -
  have y: "(of_nat n * 10 ^ 9 :: rat) = of_int (int (n * 10 ^ 9))" by simp
  have "round_half_even (of_nat n * 10 ^ 9) = int (n * 10 ^ 9)"
    unfolding y round_half_even_def by (simp only: floor_of_int diff_self Let_def) simp
  then show ?thesis by (simp add: from_secs_f64_def nat_mult_distrib)
qed

end
