(* ===== verification/Output_Text.thy ===== *)
theory Output_Text
  imports Message Rdata Ip_Addr
begin

text \<open>
  Records as text (\<open>src/output.rs\<close>): the summaries of the record types, durations, and strings of
  bytes in quotes. Base64 is another package's, so it is a parameter.
\<close>

subsection \<open>The formats of the output\<close>

datatype UseColours = Always | Automatic_Colours | Never

record TextFormat =
  format_durations :: bool

datatype OutputFormat = Text UseColours TextFormat | Short TextFormat | JSON

subsection \<open>The standard library's formats\<close>

text \<open>\<open>{bytes:?}\<close>: a list of numbers.\<close>

definition debug_bytes :: "u8 list \<Rightarrow> string" where
  "debug_bytes bytes = ''['' @ join '', '' (map (\<lambda>b. dec (unat b)) bytes) @ '']''"

text \<open>\<open>{text:?}\<close>, for text of ASCII characters: quotes, with what is not printable escaped.\<close>

definition debug_char :: "char \<Rightarrow> string" where
  "debug_char c =
     (if c = CHR 0x22 then [CHR 0x5C, CHR 0x22]
      else if c = CHR 0x5C then [CHR 0x5C, CHR 0x5C]
      else if c = CHR 0x0A then [CHR 0x5C, CHR ''n'']
      else if c = CHR 0x0D then [CHR 0x5C, CHR ''r'']
      else if c = CHR 0x09 then [CHR 0x5C, CHR ''t'']
      else if c = CHR 0x00 then [CHR 0x5C, CHR ''0'']
      else if (of_char c :: nat) < 0x20 \<or> of_char c = (0x7F :: nat)
        then [CHR 0x5C, CHR ''u'', CHR 0x7B] @ hex_nat (of_char c) @ [CHR 0x7D]
      else [c])"

definition debug_str :: "string \<Rightarrow> string" where
  "debug_str s = [CHR 0x22] @ concat (map debug_char s) @ [CHR 0x22]"

text \<open>\<open>Ipv4Addr\<close> and \<open>Ipv6Addr\<close>: an IPv6 address with its first longest run of zeros left out.\<close>

definition show_ipv4 :: "u8 list \<Rightarrow> string" where
  "show_ipv4 octets = join ''.'' (map (\<lambda>b. dec (unat b)) octets)"

definition show_groups :: "u16 list \<Rightarrow> string" where
  "show_groups gs = join '':'' (map (\<lambda>g. hex_nat (unat g)) gs)"

definition zeros_at :: "u16 list \<Rightarrow> nat \<Rightarrow> nat" where
  "zeros_at gs i = length (takeWhile (\<lambda>g. g = 0) (drop i gs))"

text \<open>The start and the length of that run.\<close>

definition longest_zeros :: "u16 list \<Rightarrow> nat \<times> nat" where
  "longest_zeros gs =
     foldl (\<lambda>(start, len) i. if len < zeros_at gs i then (i, zeros_at gs i) else (start, len))
       (0, 0) [0..<length gs]"

fun groups_of :: "u8 list \<Rightarrow> u16 list" where
  "groups_of (a # b # rest) = be16 a b # groups_of rest"
| "groups_of _ = []"

definition show_ipv6 :: "u8 list \<Rightarrow> string" where
  "show_ipv6 octets =
     (let gs = groups_of octets in
      if take 5 gs = replicate 5 0 \<and> gs ! 5 = 0xFFFF then ''::ffff:'' @ show_ipv4 (drop 12 octets)
      else
        (case longest_zeros gs of (start, len) \<Rightarrow>
           if 1 < len then show_groups (take start gs) @ ''::'' @ show_groups (drop (start + len) gs)
           else show_groups gs))"


subsection \<open>Names and strings\<close>

definition quoted :: "labels \<Rightarrow> string" where
  "quoted name = [CHR 0x22] @ display_labels name @ [CHR 0x22]"

definition write_escaped :: "u8 \<Rightarrow> string" where
  "write_escaped byte =
     (if byte = 0x22 then [CHR 0x5C, CHR 0x22]
      else if byte = 0x5C then [CHR 0x5C, CHR 0x5C]
      else if 32 \<le> byte \<and> byte \<le> 127 then [char_of_byte byte]
      else CHR 0x5C # dec (unat byte))"

definition display_ascii :: "u8 list \<Rightarrow> string" where
  "display_ascii bytes = [CHR 0x22] @ concat (map write_escaped bytes) @ [CHR 0x22]"


subsection \<open>Durations\<close>

definition format_duration_hms :: "u32 \<Rightarrow> string" where
  "format_duration_hms seconds =
     (let s = unat seconds in
      if s < 60 then dec s @ ''s''
      else if s < 60 * 60 then dec (s div 60) @ ''m'' @ dec_padded 2 (s mod 60) @ ''s''
      else if s < 60 * 60 * 24 then
        dec (s div 3600) @ ''h'' @ dec_padded 2 (s mod 3600 div 60) @ ''m'' @ dec_padded 2 (s mod 60) @ ''s''
      else
        dec (s div 86400) @ ''d'' @ dec (s mod 86400 div 3600) @ ''h''
          @ dec_padded 2 (s mod 3600 div 60) @ ''m'' @ dec_padded 2 (s mod 60) @ ''s'')"

definition format_duration :: "TextFormat \<Rightarrow> u32 \<Rightarrow> string" where
  "format_duration tf seconds =
     (if format_durations tf then format_duration_hms seconds else dec (unat seconds))"


subsection \<open>Summaries\<close>

definition caa_summary :: "CAA \<Rightarrow> string" where
  "caa_summary caa =
     display_ascii (caa_tag caa) @ '' '' @ display_ascii (caa_value caa) @ '' (''
       @ (if caa_critical caa then ''critical'' else ''non-critical'') @ '')''"

definition out_of_range :: "Position option \<Rightarrow> string" where
  "out_of_range p = (case p of Some p \<Rightarrow> display_position p | None \<Rightarrow> ''Out of range'')"

definition loc_summary :: "LOC \<Rightarrow> ('e, string) outcome" where
  "loc_summary loc =
     bind_outcome (display_size (loc_size loc)) (\<lambda>size.
     bind_outcome (display_size (loc_horizontal_precision loc)) (\<lambda>horizontal.
     bind_outcome (display_size (loc_vertical_precision loc)) (\<lambda>vertical.
     Ok (size @ '' ('' @ horizontal @ '', '' @ vertical @ '') ('' @ out_of_range (loc_latitude loc) @ '', ''
         @ out_of_range (loc_longitude loc) @ '', '' @ display_altitude (loc_altitude loc) @ '')''))))"

definition naptr_summary :: "NAPTR \<Rightarrow> string" where
  "naptr_summary naptr =
     join '' '' [dec (unat (naptr_order naptr)), dec (unat (naptr_preference naptr)), display_ascii (naptr_flags naptr),
       display_ascii (naptr_service naptr), display_ascii (naptr_regex naptr), quoted (naptr_replacement naptr)]"

definition rrsig_summary :: "(u8 list \<Rightarrow> string) \<Rightarrow> RRSIG \<Rightarrow> string" where
  "rrsig_summary base64 rrsig =
     join '' '' [(case RRSIG_type_covered_name rrsig of Some name \<Rightarrow> name | None \<Rightarrow> ''?''),
       dec (unat (rrsig_algorithm rrsig)), dec (unat (rrsig_key_tag rrsig)), quoted (rrsig_signer_name rrsig),
       base64 (rrsig_signature rrsig)]"

definition soa_summary :: "TextFormat \<Rightarrow> SOA \<Rightarrow> string" where
  "soa_summary tf soa =
     join '' '' [quoted (soa_mname soa), quoted (soa_rname soa), dec (unat (soa_serial soa)),
       format_duration tf (soa_refresh_interval soa), format_duration tf (soa_retry_interval soa),
       format_duration tf (soa_expire_limit soa), format_duration tf (soa_minimum_ttl soa)]"

fun record_payload_summary ::
  "(u8 list \<Rightarrow> string) \<Rightarrow> TextFormat \<Rightarrow> Record \<Rightarrow> ('e, string) outcome" where
  "record_payload_summary base64 tf (R_A a) = Ok (show_ipv4 (a_address a))"
| "record_payload_summary base64 tf (R_AAAA aaaa) = Ok (show_ipv6 (aaaa_address aaaa))"
| "record_payload_summary base64 tf (R_CAA caa) = Ok (caa_summary caa)"
| "record_payload_summary base64 tf (R_CNAME cname) = Ok (quoted (cname_domain cname))"
| "record_payload_summary base64 tf (R_DNSKEY k) =
     Ok (join '' '' [dec (unat (dnskey_flags k)), dec (unat (dnskey_protocol k)), dec (unat (dnskey_algorithm k)),
       base64 (dnskey_public_key k)])"
| "record_payload_summary base64 tf (R_DS ds) =
     Ok (join '' '' [dec (unat (ds_key_tag ds)), dec (unat (ds_algorithm ds)), dec (unat (ds_digest_type ds)),
       DS_hex_digest ds])"
| "record_payload_summary base64 tf (R_EUI48 e) = Ok (debug_str (EUI48_formatted_address e))"
| "record_payload_summary base64 tf (R_EUI64 e) = Ok (debug_str (EUI64_formatted_address e))"
| "record_payload_summary base64 tf (R_HINFO h) = Ok (display_ascii (hinfo_cpu h) @ '' '' @ display_ascii (hinfo_os h))"
| "record_payload_summary base64 tf (R_LOC loc) = loc_summary loc"
| "record_payload_summary base64 tf (R_MX mx) = Ok (dec (unat (mx_preference mx)) @ '' '' @ quoted (mx_exchange mx))"
| "record_payload_summary base64 tf (R_NAPTR naptr) = Ok (naptr_summary naptr)"
| "record_payload_summary base64 tf (R_NS ns) = Ok (quoted (ns_nameserver ns))"
| "record_payload_summary base64 tf (R_NSEC nsec) =
     Ok (quoted (nsec_next_domain nsec) @ '' '' @ join '' '' (NSEC_type_names nsec))"
| "record_payload_summary base64 tf (R_OPENPGPKEY k) = Ok (debug_str (base64 (openpgpkey_key k)))"
| "record_payload_summary base64 tf (R_PTR ptr) = Ok (quoted (ptr_cname ptr))"
| "record_payload_summary base64 tf (R_RRSIG rrsig) = Ok (rrsig_summary base64 rrsig)"
| "record_payload_summary base64 tf (R_SSHFP s) =
     Ok (join '' '' [dec (unat (sshfp_algorithm s)), dec (unat (sshfp_fingerprint_type s)), SSHFP_hex_fingerprint s])"
| "record_payload_summary base64 tf (R_SOA soa) = Ok (soa_summary tf soa)"
| "record_payload_summary base64 tf (R_SRV srv) =
     Ok (dec (unat (srv_priority srv)) @ '' '' @ dec (unat (srv_weight srv)) @ '' '' @ quoted (srv_target srv) @ '':''
         @ dec (unat (srv_port srv)))"
| "record_payload_summary base64 tf (R_TLSA t) =
     Ok (join '' '' [dec (unat (tlsa_certificate_usage t)), dec (unat (tlsa_selector t)),
       dec (unat (tlsa_matching_type t)), debug_str (TLSA_hex_certificate_data t)])"
| "record_payload_summary base64 tf (R_TXT txt) = Ok (join '', '' (map display_ascii (txt_messages txt)))"
| "record_payload_summary base64 tf (R_URI uri) =
     Ok (join '' '' [dec (unat (uri_priority uri)), dec (unat (uri_weight uri)), display_ascii (uri_target uri)])"
| "record_payload_summary base64 tf (R_Other ty bytes) = Ok (debug_bytes bytes)"

definition pseudo_record_payload_summary :: "OPT \<Rightarrow> string" where
  "pseudo_record_payload_summary opt =
     join '' '' [dec (unat (opt_udp_payload_size opt)), dec (unat (opt_higher_bits opt)),
       dec (unat (opt_edns0_version opt)), dec (unat (opt_flags opt)), debug_bytes (opt_data opt)]"


subsection \<open>What is read can be shown\<close>

text \<open>A property of whatever a reader returns.\<close>

definition yields :: "u8 list \<Rightarrow> 'a reader \<Rightarrow> ('a \<Rightarrow> bool) \<Rightarrow> bool" where
  "yields buf m P \<longleftrightarrow> (\<forall>p x q. m buf p = Ok (x, q) \<longrightarrow> P x)"

named_theorems yields_rules "properties of what readers return"

lemma yields_ret [yields_rules]: "P x \<Longrightarrow> yields buf (ret x) P"
  by (simp add: yields_def ret_def)

lemma yields_bind: "yields buf m Q \<Longrightarrow> (\<And>x. Q x \<Longrightarrow> yields buf (f x) P) \<Longrightarrow> yields buf (bind m f) P"
  by (fastforce simp: yields_def bind_def split: outcome.splits prod.splits)

lemma yields_any: "yields buf m (\<lambda>_. True)"
  by (simp add: yields_def)

lemma yields_bind_any [yields_rules]: "(\<And>x. yields buf (f x) P) \<Longrightarrow> yields buf (bind m f) P"
  by (rule yields_bind [OF yields_any])

lemma yields_if [yields_rules]: "yields buf m P \<Longrightarrow> yields buf n P \<Longrightarrow> yields buf (if b then m else n) P"
  by simp

lemma yields_fail [yields_rules]: "yields buf (fail e) P"
  by (simp add: yields_def fail_def)

text \<open>The sizes of a LOC record that has been read have digits of four bits.\<close>

definition sized :: "Size \<Rightarrow> bool" where
  "sized s \<longleftrightarrow> unat (size_base s) < 16 \<and> unat (size_power_of_ten s) < 16"

fun showable_record :: "Record \<Rightarrow> bool" where
  "showable_record (R_LOC loc) \<longleftrightarrow>
     sized (loc_size loc) \<and> sized (loc_horizontal_precision loc) \<and> sized (loc_vertical_precision loc)"
| "showable_record _ \<longleftrightarrow> True"

fun showable :: "Answer \<Rightarrow> bool" where
  "showable (Standard _ _ _ rec) = showable_record rec"
| "showable (Pseudo _ _) = True"

definition showable_response :: "Response \<Rightarrow> bool" where
  "showable_response r \<longleftrightarrow>
     list_all showable (resp_answers r) \<and> list_all showable (resp_authorities r)
     \<and> list_all showable (resp_additionals r)"

lemma sized_size_from_u8: "sized (size_from_u8 b)"
  using unat_u8_less [of b] by (simp add: sized_def size_from_u8_def unat_nibbles)

lemma sized_is_read: "sized s \<Longrightarrow> \<exists>b. s = size_from_u8 b"
proof -
  assume s: "sized s"
  let ?b = "word_of_nat (unat (size_base s) * 16 + unat (size_power_of_ten s)) :: u8"
  have "unat ?b = unat (size_base s) * 16 + unat (size_power_of_ten s)"
    using s by (intro unat_of_nat_u8) (simp add: sized_def)
  then have "s = size_from_u8 ?b"
    using s by (simp add: size_from_u8_def sized_def word_unat_eq_iff unat_nibbles)
  then show ?thesis ..
qed

lemma display_size_Ok: "sized s \<Longrightarrow> \<exists>x. (display_size s :: ('a, string) outcome) = Ok x"
proof -
  assume "sized s"
  then obtain b where s: "s = size_from_u8 b" using sized_is_read by blast
  obtain c where "(size_centimetres (size_from_u8 b) :: ('a, u64) outcome) = Ok c"
    using size_centimetres_from_u8 by blast
  then show ?thesis by (simp add: s display_size_def)
qed

lemma showable_summary: "showable_record rec \<Longrightarrow> \<exists>x. record_payload_summary base64 tf rec = Ok x"
proof (cases rec)
  case (R_LOC loc)
  assume "showable_record rec"
  with R_LOC obtain a b c where
    "(display_size (loc_size loc) :: ('e, string) outcome) = Ok a"
    "(display_size (loc_horizontal_precision loc) :: ('e, string) outcome) = Ok b"
    "(display_size (loc_vertical_precision loc) :: ('e, string) outcome) = Ok c"
    using display_size_Ok by fastforce
  then show "\<exists>x. (record_payload_summary base64 tf rec :: ('e, string) outcome) = Ok x"
    using R_LOC by (simp add: loc_summary_def)
qed simp_all

lemma yields_LOC: "yields buf (LOC_read len) (\<lambda>loc. showable_record (R_LOC loc))"
  unfolding LOC_read_def by (intro yields_rules) (simp_all add: sized_size_from_u8)

lemma yields_record: "yields buf (record_from_bytes rt len) showable_record"
proof (cases rt)
  case T_LOC
  then show ?thesis
    by (auto simp: map_reader_def intro!: yields_bind [OF yields_LOC] yields_ret)
qed (simp_all add: map_reader_def yields_rules)

lemma yields_answer: "yields buf (answer_from_bytes qname) showable"
  unfolding answer_from_bytes_def Let_def
  by (intro yields_rules yields_bind [OF yields_record]) auto

lemma yields_entries:
  assumes "yields buf read_labels (\<lambda>(qname, _). N qname)"
    and "\<And>qname. N qname \<Longrightarrow> yields buf (read_entry qname) P"
  shows "list_all P entries \<Longrightarrow> yields buf (read_entries read_entry k entries) (list_all P)"
proof (induction k arbitrary: entries)
  case 0
  then show ?case by (simp add: yields_rules)
next
  case (Suc k)
  show ?case
    using Suc.prems
    by (auto intro!: yields_bind [OF assms(1)] yields_bind [OF assms(2)] Suc.IH)
qed

lemma yields_section: "yields buf (read_section count answer_from_bytes) (list_all showable)"
  unfolding read_section_def
  by (rule yields_entries [where N = "\<lambda>_. True", OF _ yields_answer]) (simp_all add: yields_def)

lemma response_showable: "response_from_bytes bytes = Ok r \<Longrightarrow> showable_response r"
proof -
  have "yields bytes read_response showable_response"
    unfolding read_response_def Let_def
    by (auto simp: showable_response_def split: prod.split
        intro!: yields_bind_any yields_bind [OF yields_section] yields_ret)
  then show "response_from_bytes bytes = Ok r \<Longrightarrow> showable_response r"
    by (auto simp: response_from_bytes_def bind_outcome_Ok_iff yields_def)
qed


subsection \<open>Durations read back\<close>

text \<open>What a duration stands for: a number before each unit, and their sum in seconds.\<close>

definition unit_seconds :: "char \<Rightarrow> nat" where
  "unit_seconds c =
     (if c = CHR ''d'' then 86400 else if c = CHR ''h'' then 3600 else if c = CHR ''m'' then 60 else 1)"

fun duration_seconds :: "nat \<Rightarrow> nat \<Rightarrow> string \<Rightarrow> nat" where
  "duration_seconds acc n [] = acc"
| "duration_seconds acc n (c # cs) =
     (if is_ascii_digit c then duration_seconds acc (n * 10 + digit_value c) cs
      else duration_seconds (acc + n * unit_seconds c) 0 cs)"

lemma duration_seconds_digits:
  "list_all is_ascii_digit ds \<Longrightarrow>
     duration_seconds acc n (ds @ rest) = duration_seconds acc (n * 10 ^ length ds + digits_value ds) rest"
proof (induction ds arbitrary: rest rule: rev_induct)
  case Nil
  then show ?case by (simp add: digits_value_def)
next
  case (snoc c cs)
  then show ?case by (simp add: digits_value_snoc algebra_simps)
qed

lemma duration_seconds_dec:
  "duration_seconds acc 0 (dec k @ rest) = duration_seconds acc k rest"
  "duration_seconds acc 0 (dec_padded w k @ rest) = duration_seconds acc k rest"
  by (simp_all add: duration_seconds_digits dec_digits dec_padded_digits digits_value_dec digits_value_dec_padded)

text \<open>
  A duration in days, hours, minutes and seconds is the number of seconds it was made from:
  read back unit by unit, it gives that number again, for all 32-bit numbers.
\<close>

theorem format_duration_hms_reads_back: "duration_seconds 0 0 (format_duration_hms seconds) = unat seconds"
proof -
  have days: "s div 86400 * 86400 + s mod 86400 div 3600 * 3600 + s mod 3600 div 60 * 60 + s mod 60 = s" for s :: nat
  proof -
    have "s mod 86400 mod 3600 = s mod 3600" "s mod 3600 mod 60 = s mod 60" by (simp_all add: mod_mod_cancel)
    then show ?thesis
      using div_mult_mod_eq [of s 86400] div_mult_mod_eq [of "s mod 86400" 3600] div_mult_mod_eq [of "s mod 3600" 60]
      by linarith
  qed
  have "s div 3600 * 3600 + s mod 3600 div 60 * 60 + s mod 60 = s" for s :: nat
  proof -
    have "s mod 3600 mod 60 = s mod 60" by (simp add: mod_mod_cancel)
    then show ?thesis
      using div_mult_mod_eq [of s 3600] div_mult_mod_eq [of "s mod 3600" 60] by linarith
  qed
  with days show ?thesis
    by (simp add: format_duration_hms_def Let_def duration_seconds_dec unit_seconds_def is_ascii_digit_def)
qed


subsection \<open>Strings of bytes read back\<close>

text \<open>What \<open>Ascii\<close> stands for: a byte, a backslash and a byte, or a backslash and a number.\<close>

function unescape :: "string \<Rightarrow> u8 list" where
  "unescape [] = []"
| "unescape (c # cs) =
     (if c \<noteq> CHR 0x5C then byte_of_char c # unescape cs
      else
        (case cs of
           [] \<Rightarrow> []
         | d # ds \<Rightarrow>
             if is_ascii_digit d
             then word_of_nat (digits_value (takeWhile is_ascii_digit cs)) # unescape (dropWhile is_ascii_digit cs)
             else byte_of_char d # unescape ds))"
  by pat_completeness auto

termination
  by (relation "measure length") (auto simp: le_imp_less_Suc le_SucI length_dropWhile_le)

declare unescape.simps [simp del]

text \<open>A byte that is written as a number, and no digit after it that would be taken for part of it.\<close>

definition shown_as_number :: "u8 \<Rightarrow> bool" where
  "shown_as_number b \<longleftrightarrow> \<not> (32 \<le> unat b \<and> unat b \<le> 127)"

fun unambiguous :: "u8 list \<Rightarrow> bool" where
  "unambiguous [] = True"
| "unambiguous [a] = True"
| "unambiguous (a # b # bs) \<longleftrightarrow>
     \<not> (shown_as_number a \<and> is_ascii_digit (char_of_byte b)) \<and> unambiguous (b # bs)"

lemma unescape_char: "c \<noteq> CHR 0x5C \<Longrightarrow> unescape (c # cs) = byte_of_char c # unescape cs"
  "\<not> is_ascii_digit d \<Longrightarrow> unescape (CHR 0x5C # d # ds) = byte_of_char d # unescape ds"
  by (simp_all add: unescape.simps)

lemma unescape_number:
  assumes "rest = [] \<or> \<not> is_ascii_digit (hd rest)"
  shows "unescape (CHR 0x5C # dec (unat b) @ rest) = b # unescape rest"
proof -
  have "takeWhile is_ascii_digit (dec (unat b) @ rest) = dec (unat b)"
    and "dropWhile is_ascii_digit (dec (unat b) @ rest) = rest"
    using assms dec_digits [of "unat b"]
    by (cases rest; auto simp: list_all_iff takeWhile_eq_all_conv dropWhile_eq_Nil_conv
        takeWhile_append dropWhile_append)+
  moreover obtain d ds where "dec (unat b) = d # ds" using dec_not_Nil [of "unat b"] by (cases "dec (unat b)") auto
  moreover from this have "is_ascii_digit d" using dec_digits [of "unat b"] by simp
  ultimately show ?thesis
    using digits_value_dec [of "unat b"] by (simp add: unescape.simps(2))
qed

lemma write_escaped_hd:
  "hd (write_escaped b @ rest) = (if shown_as_number b \<or> b = 0x22 \<or> b = 0x5C then CHR 0x5C else char_of_byte b)"
  by (auto simp: write_escaped_def shown_as_number_def word_le_nat_alt)

lemma byte_of_char_backslash: "byte_of_char (CHR 0x5C) = 0x5C"
  by (simp add: byte_of_char_def)

lemma unescape_write_escaped:
  assumes "shown_as_number b \<Longrightarrow> rest = [] \<or> \<not> is_ascii_digit (hd rest)"
  shows "unescape (write_escaped b @ rest) = b # unescape rest"
proof (cases "shown_as_number b")
  case True
  then have "write_escaped b = CHR 0x5C # dec (unat b)"
    by (auto simp: write_escaped_def shown_as_number_def word_le_nat_alt)
  with unescape_number assms True show ?thesis by simp
next
  case False
  have "char_of_byte b = CHR 0x5C \<longleftrightarrow> b = 0x5C" for b
    by (metis byte_of_char_of_byte byte_of_char_backslash char_of_byte_of_char)
  moreover have "\<not> is_ascii_digit (CHR 0x22)" "\<not> is_ascii_digit (CHR 0x5C)" by (simp_all add: is_ascii_digit_def)
  moreover have "byte_of_char (CHR 0x22) = 0x22" "byte_of_char (CHR 0x5C) = 0x5C" by (simp_all add: byte_of_char_def)
  ultimately show ?thesis
    using False
    by (auto simp: write_escaped_def shown_as_number_def word_le_nat_alt unescape_char)
qed

lemma unescape_escaped: "unambiguous bs \<Longrightarrow> unescape (concat (map write_escaped bs)) = bs"
proof (induction bs rule: unambiguous.induct)
  case 1
  then show ?case by (simp add: unescape.simps)
next
  case (2 a)
  then show ?case using unescape_write_escaped [of a "[]"] by (simp add: unescape.simps)
next
  case (3 a b bs)
  let ?rest = "concat (map write_escaped (b # bs))"
  have "\<not> is_ascii_digit (hd ?rest)" if "shown_as_number a"
    using 3 that by (simp add: write_escaped_hd is_ascii_digit_def)
  with unescape_write_escaped [of a ?rest] 3 show ?case by simp
qed

text \<open>
  A string of bytes in quotes can be read back to the bytes it was made from, but for one
  thing: a byte that is written as its number, before a digit, is not told from a longer number,
  so the bytes 1 and \<open>'2'\<close> are shown as the byte 12 is.
\<close>

theorem display_ascii_reads_back:
  assumes "unambiguous bs"
  shows "(\<exists>body. display_ascii bs = [CHR 0x22] @ body @ [CHR 0x22] \<and> unescape body = bs)
    \<and> display_ascii [1, 0x32] = display_ascii [12]"
  using unescape_escaped [OF assms]
  by (auto simp: display_ascii_def write_escaped_def word_le_nat_alt dec.simps digit_def char_of_byte_def)

lemma display_ascii_reads_back_witness:
  "unambiguous [0x22, 1, 0x61] \<and>
     (\<exists>body. display_ascii [0x22, 1, 0x61] = [CHR 0x22] @ body @ [CHR 0x22] \<and> unescape body = [0x22, 1, 0x61])"
proof -
  have "unambiguous [0x22, 1, 0x61]"
    by (simp add: shown_as_number_def is_ascii_digit_def)
  with display_ascii_reads_back [OF this] show ?thesis by blast
qed

end
