(* ===== verification/Options.thy ===== *)
theory Options
  imports Requests F64 Output_Text
begin

text \<open>
  The command line (\<open>src/options.rs\<close>), from the options that the \<open>getopts\<close> package has split it
  into to what is to be asked for, or to what is wrong with it. \<open>getopts\<close> is a parameter: what it
  makes of the arguments, given the table of options, is a value of \<open>matches\<close>, whose fields are
  its methods of those names. This is the build with TLS, HTTPS and IDNA, the default one.
\<close>

subsection \<open>The options there are\<close>

datatype opt_kind = Optmulti | Optopt | Optflag

definition option_table :: "(opt_kind \<times> string \<times> string) list" where
  "option_table =
     [(Optmulti, ''q'', ''query''), (Optmulti, ''t'', ''type''), (Optmulti, ''n'', ''nameserver''),
      (Optmulti, [], ''class''),
      (Optopt, [], ''edns''), (Optopt, [], ''txid''), (Optopt, [], ''timeout''), (Optmulti, ''Z'', []),
      (Optflag, ''U'', ''udp''), (Optflag, ''T'', ''tcp''), (Optflag, ''S'', ''tls''), (Optflag, ''H'', ''https''),
      (Optopt, [], ''color''), (Optopt, [], ''colour''), (Optflag, ''J'', ''json''), (Optflag, [], ''seconds''),
      (Optflag, ''1'', ''short''), (Optflag, [], ''time''),
      (Optflag, ''v'', ''version''), (Optflag, ''?'', ''help'')]"

record matches =
  opt_present :: "string \<Rightarrow> bool"
  opt_str :: "string \<Rightarrow> string option"
  opt_strs :: "string \<Rightarrow> string list"
  free_args :: "string list"

typedecl getopts_fail

text \<open>The messages quote what the user wrote; a domain comes with the reason it is refused.\<close>

datatype OptionsError =
    InvalidDomain string InvalidName
  | InvalidColour string
  | TweakNeedsEDNS string
  | InvalidEDNS string
  | InvalidQueryType string
  | InvalidQueryClass string
  | InvalidTxid string
  | InvalidTimeout string
  | InvalidTweak string
  | QueryTypeOPT
  | MissingHttpsUrl
  | InvalidNameserver InvalidAddress


subsection \<open>Numbers, types and classes\<close>

definition number :: "string \<Rightarrow> u16 option" where
  "number input = (if input \<noteq> [] \<and> list_all is_ascii_digit input then parse_u16 input else None)"

text \<open>\<open>input.get(.. n)\<close>: nothing when that would cut a character in two.\<close>

definition get_to :: "nat \<Rightarrow> string \<Rightarrow> string option" where
  "get_to n s =
     (if length s < n then None
      else if n < length s \<and> continuation (byte_of_char (s ! n)) then None
      else Some (take n s))"

definition generic_number :: "string \<Rightarrow> string \<Rightarrow> u16 option" where
  "generic_number input word =
     (case get_to (length word) input of
        None \<Rightarrow> None
      | Some start \<Rightarrow> if eq_ignore_ascii_case start word then number (drop (length word) input) else None)"

definition parse_class_name :: "string \<Rightarrow> QClass option" where
  "parse_class_name input =
     (if eq_ignore_ascii_case input ''IN'' then Some IN
      else if eq_ignore_ascii_case input ''CH'' then Some CH
      else if eq_ignore_ascii_case input ''HS'' then Some HS
      else None)"

text \<open>\<open>or_else\<close>.\<close>

definition or_else :: "'a option \<Rightarrow> 'a option \<Rightarrow> 'a option" where
  "or_else a b = (case a of Some x \<Rightarrow> Some x | None \<Rightarrow> b)"

definition parse_class :: "string \<Rightarrow> QClass option" where
  "parse_class input =
     or_else (parse_class_name input) (map_option qclass_from_u16 (generic_number input ''CLASS''))"

definition parse_type :: "string \<Rightarrow> RecordType option" where
  "parse_type input =
     or_else (from_type_name input) (map_option record_type_from (generic_number input ''TYPE''))"

definition is_constant_name :: "string \<Rightarrow> bool" where
  "is_constant_name argument =
     (case argument of
        [] \<Rightarrow> False
      | c # _ \<Rightarrow> is_ascii_alphabetic c \<and> list_all is_ascii_alphanumeric argument)"

text \<open>\<open>u16::from_str_radix\<close> with sixteen: digits, after a plus sign if there is one.\<close>

definition parse_hex_u16 :: "string \<Rightarrow> u16 option" where
  "parse_hex_u16 s =
     (let digits = (case s of c # d # rest \<Rightarrow> if c = CHR ''+'' then d # rest else s | _ \<Rightarrow> s);
          v = foldl (\<lambda>v c. v * 16 + (case to_digit 16 c of Some d \<Rightarrow> d | None \<Rightarrow> 0)) 0 digits
      in if digits \<noteq> [] \<and> list_all (\<lambda>c. to_digit 16 c \<noteq> None) digits \<and> v < 65536
         then Some (word_of_nat v) else None)"

definition parse_dec_or_hex :: "string \<Rightarrow> u16 option" where
  "parse_dec_or_hex input =
     (case strip_prefix ''0x'' input of Some hex_str \<Rightarrow> parse_hex_u16 hex_str | None \<Rightarrow> parse_u16 input)"


subsection \<open>What is to be asked for\<close>

definition add_domain ::
  "(string \<Rightarrow> string option) \<Rightarrow> string \<Rightarrow> Inputs \<Rightarrow> (OptionsError, Inputs) outcome" where
  "add_domain label_to_ascii input inputs =
     bind_outcome (map_err (InvalidDomain input) (encode label_to_ascii input)) (\<lambda>domain.
     Ok (inputs\<lparr>in_domains := in_domains inputs @ [domain]\<rparr>))"

definition add_type :: "RecordType \<Rightarrow> Inputs \<Rightarrow> Inputs" where
  "add_type rt inputs = inputs\<lparr>in_record_types := in_record_types inputs @ [rt]\<rparr>"

definition add_nameserver :: "string \<Rightarrow> Inputs \<Rightarrow> Inputs" where
  "add_nameserver input inputs = inputs\<lparr>in_resolver_types := in_resolver_types inputs @ [Specific input]\<rparr>"

definition add_class :: "QClass \<Rightarrow> Inputs \<Rightarrow> Inputs" where
  "add_class c inputs = inputs\<lparr>in_classes := in_classes inputs @ [c]\<rparr>"

definition add_transport :: "TransportType \<Rightarrow> Inputs \<Rightarrow> Inputs" where
  "add_transport ty inputs = inputs\<lparr>in_transport_types := in_transport_types inputs @ [ty]\<rparr>"

definition load_transport_types :: "matches \<Rightarrow> Inputs \<Rightarrow> Inputs" where
  "load_transport_types ms inputs =
     (let inputs = (if opt_present ms ''https'' then add_transport HTTPS inputs else inputs);
          inputs = (if opt_present ms ''tls'' then add_transport TLS inputs else inputs);
          inputs = (if opt_present ms ''tcp'' then add_transport TCP inputs else inputs)
      in if opt_present ms ''udp'' then add_transport UDP inputs else inputs)"

definition add_named_type :: "string \<Rightarrow> Inputs \<Rightarrow> (OptionsError, Inputs) outcome" where
  "add_named_type record_name inputs =
     (if eq_ignore_ascii_case record_name ''OPT'' then Err QueryTypeOPT
      else
        (case or_else (parse_type record_name) (map_option record_type_from (number record_name)) of
           Some record_type \<Rightarrow> Ok (add_type record_type inputs)
         | None \<Rightarrow> Err (InvalidQueryType record_name)))"

definition add_named_class :: "string \<Rightarrow> Inputs \<Rightarrow> (OptionsError, Inputs) outcome" where
  "add_named_class class_name inputs =
     (case or_else (parse_class class_name) (map_option qclass_from_u16 (number class_name)) of
        Some c \<Rightarrow> Ok (add_class c inputs)
      | None \<Rightarrow> Err (InvalidQueryClass class_name))"

text \<open>A loop that stops at the first error.\<close>

fun try_each :: "('a \<Rightarrow> 's \<Rightarrow> ('e, 's) outcome) \<Rightarrow> 'a list \<Rightarrow> 's \<Rightarrow> ('e, 's) outcome" where
  "try_each f [] s = Ok s"
| "try_each f (x # xs) s = bind_outcome (f x s) (try_each f xs)"

definition load_named_args ::
  "(string \<Rightarrow> string option) \<Rightarrow> matches \<Rightarrow> Inputs \<Rightarrow> (OptionsError, Inputs) outcome" where
  "load_named_args label_to_ascii ms inputs =
     bind_outcome (try_each (add_domain label_to_ascii) (opt_strs ms ''query'') inputs) (\<lambda>inputs.
     bind_outcome (try_each add_named_type (opt_strs ms ''type'') inputs) (\<lambda>inputs.
     bind_outcome (try_each (\<lambda>ns inputs. Ok (add_nameserver ns inputs)) (opt_strs ms ''nameserver'') inputs)
       (\<lambda>inputs.
     try_each add_named_class (opt_strs ms ''class'') inputs)))"

definition add_constant ::
  "(string \<Rightarrow> string option) \<Rightarrow> string \<Rightarrow> Inputs \<Rightarrow> (OptionsError, Inputs) outcome" where
  "add_constant label_to_ascii argument inputs =
     (if eq_ignore_ascii_case argument ''OPT'' then Err QueryTypeOPT
      else
        (case parse_class argument of
           Some c \<Rightarrow> Ok (add_class c inputs)
         | None \<Rightarrow>
             (case parse_type argument of
                Some record_type \<Rightarrow> Ok (add_type record_type inputs)
              | None \<Rightarrow> add_domain label_to_ascii argument inputs)))"

definition add_free_arg ::
  "(string \<Rightarrow> string option) \<Rightarrow> string \<Rightarrow> Inputs \<Rightarrow> (OptionsError, Inputs) outcome" where
  "add_free_arg label_to_ascii argument inputs =
     (case strip_prefix ''@'' argument of
        Some ns \<Rightarrow> Ok (add_nameserver ns inputs)
      | None \<Rightarrow>
          if is_constant_name argument then add_constant label_to_ascii argument inputs
          else add_domain label_to_ascii argument inputs)"

definition load_free_args ::
  "(string \<Rightarrow> string option) \<Rightarrow> matches \<Rightarrow> Inputs \<Rightarrow> (OptionsError, Inputs) outcome" where
  "load_free_args label_to_ascii ms inputs = try_each (add_free_arg label_to_ascii) (free_args ms) inputs"

fun check_transports :: "TransportType list \<Rightarrow> string \<Rightarrow> (OptionsError, unit) outcome" where
  "check_transports [] ns = Ok ()"
| "check_transports (ty # tys) ns =
     bind_outcome (map_err InvalidNameserver (check_nameserver ty ns)) (\<lambda>_. check_transports tys ns)"

fun check_resolvers :: "TransportType list \<Rightarrow> ResolverType list \<Rightarrow> (OptionsError, unit) outcome" where
  "check_resolvers tys [] = Ok ()"
| "check_resolvers tys (SystemDefault # rs) = check_resolvers tys rs"
| "check_resolvers tys (Specific ns # rs) =
     bind_outcome (check_transports tys ns) (\<lambda>_. check_resolvers tys rs)"

definition check_for_missing_nameserver :: "Inputs \<Rightarrow> (OptionsError, unit) outcome" where
  "check_for_missing_nameserver inputs =
     (if in_resolver_types inputs = [] \<and> in_transport_types inputs = [HTTPS] then Err MissingHttpsUrl
      else
        check_resolvers (if in_transport_types inputs = [] then [Automatic] else in_transport_types inputs)
          (in_resolver_types inputs))"

definition load_fallbacks :: "Inputs \<Rightarrow> Inputs" where
  "load_fallbacks inputs =
     (let inputs = (if in_record_types inputs = [] then add_type T_A inputs else inputs);
          inputs = (if in_classes inputs = [] then add_class IN inputs else inputs);
          inputs = (if in_resolver_types inputs = []
                    then inputs\<lparr>in_resolver_types := [SystemDefault]\<rparr> else inputs)
      in if in_transport_types inputs = [] then add_transport Automatic inputs else inputs)"

definition inputs_deduce ::
  "(string \<Rightarrow> string option) \<Rightarrow> matches \<Rightarrow> (OptionsError, Inputs) outcome" where
  "inputs_deduce label_to_ascii ms =
     bind_outcome (load_named_args label_to_ascii ms (load_transport_types ms inputs_default)) (\<lambda>inputs.
     bind_outcome (load_free_args label_to_ascii ms inputs) (\<lambda>inputs.
     bind_outcome (check_for_missing_nameserver inputs) (\<lambda>_.
     Ok (load_fallbacks inputs))))"


subsection \<open>How it is to be asked for, and shown\<close>

definition txid_deduce :: "matches \<Rightarrow> (OptionsError, TxidGenerator) outcome" where
  "txid_deduce ms =
     (case opt_str ms ''txid'' of
        Some starting_txid \<Rightarrow>
          (case parse_dec_or_hex starting_txid of
             Some start \<Rightarrow> Ok (Sequence start)
           | None \<Rightarrow> Err (InvalidTxid starting_txid))
      | None \<Rightarrow> Ok Random)"

definition edns_deduce :: "matches \<Rightarrow> (OptionsError, UseEDNS) outcome" where
  "edns_deduce ms =
     (case opt_str ms ''edns'' of
        Some edns \<Rightarrow>
          if edns = ''disable'' \<or> edns = ''off'' then Ok Disable
          else if edns = ''hide'' then Ok SendAndHide
          else if edns = ''show'' then Ok SendAndShow
          else Err (InvalidEDNS edns)
      | None \<Rightarrow> Ok SendAndHide)"

definition add_tweak :: "string \<Rightarrow> ProtocolTweaks \<Rightarrow> (OptionsError, ProtocolTweaks) outcome" where
  "add_tweak tweak_str tweaks =
     (let tweak = (case strip_prefix ''='' tweak_str of Some rest \<Rightarrow> rest | None \<Rightarrow> tweak_str) in
      if tweak = ''aa'' \<or> tweak = ''authoritative'' then Ok (tweaks\<lparr>set_authoritative_flag := True\<rparr>)
      else if tweak = ''ad'' \<or> tweak = ''authentic'' then Ok (tweaks\<lparr>set_authentic_flag := True\<rparr>)
      else if tweak = ''cd'' \<or> tweak = ''checking-disabled'' then Ok (tweaks\<lparr>set_checking_disabled_flag := True\<rparr>)
      else if tweak = ''do'' \<or> tweak = ''dnssec-ok'' then Ok (tweaks\<lparr>set_dnssec_ok_flag := True\<rparr>)
      else
        (case Option.bind (strip_prefix ''bufsize='' tweak) parse_u16 of
           Some parsed_bufsize \<Rightarrow> Ok (tweaks\<lparr>udp_payload_size := Some parsed_bufsize\<rparr>)
         | None \<Rightarrow> Err (InvalidTweak tweak)))"

definition tweaks_deduce :: "matches \<Rightarrow> (OptionsError, ProtocolTweaks) outcome" where
  "tweaks_deduce ms = try_each add_tweak (opt_strs ms ''Z'') tweaks_default"

definition check_edns :: "ProtocolTweaks \<Rightarrow> UseEDNS \<Rightarrow> (OptionsError, unit) outcome" where
  "check_edns tweaks edns =
     (if should_send edns then Ok ()
      else if set_dnssec_ok_flag tweaks then Err (TweakNeedsEDNS ''do'')
      else if udp_payload_size tweaks \<noteq> None then Err (TweakNeedsEDNS ''bufsize'')
      else Ok ())"

definition MAX_TIMEOUT_SECONDS :: rat where "MAX_TIMEOUT_SECONDS = 3600"

text \<open>Five seconds, in nanoseconds.\<close>

definition DEFAULT_TIMEOUT :: nat where "DEFAULT_TIMEOUT = 5000000000"

definition deduce_timeout :: "matches \<Rightarrow> (OptionsError, nat) outcome" where
  "deduce_timeout ms =
     (case opt_str ms ''timeout'' of
        None \<Rightarrow> Ok DEFAULT_TIMEOUT
      | Some input \<Rightarrow>
          (case parse_f64 input of
             Some (Finite seconds) \<Rightarrow>
               if 0 < seconds \<and> seconds \<le> MAX_TIMEOUT_SECONDS then Ok (from_secs_f64 seconds)
               else Err (InvalidTimeout input)
           | _ \<Rightarrow> Err (InvalidTimeout input)))"

definition generator_deduce ::
  "(string \<Rightarrow> string option) \<Rightarrow> matches \<Rightarrow> (OptionsError, RequestGenerator) outcome" where
  "generator_deduce label_to_ascii ms =
     bind_outcome (edns_deduce ms) (\<lambda>edns.
     bind_outcome (txid_deduce ms) (\<lambda>txids.
     bind_outcome (tweaks_deduce ms) (\<lambda>tweaks.
     bind_outcome (check_edns tweaks edns) (\<lambda>_.
     bind_outcome (deduce_timeout ms) (\<lambda>timeout.
     bind_outcome (inputs_deduce label_to_ascii ms) (\<lambda>inputs.
     Ok \<lparr>gen_inputs = inputs, gen_txids = txids, gen_edns = edns, gen_tweaks = tweaks,
         gen_timeout = timeout\<rparr>))))))"

definition lower :: "string \<Rightarrow> string" where
  "lower s = string_of (map ascii_lower (bytes_of s))"

definition colours_deduce :: "matches \<Rightarrow> (OptionsError, UseColours) outcome" where
  "colours_deduce ms =
     (case or_else (opt_str ms ''color'') (opt_str ms ''colour'') of
        None \<Rightarrow> Ok Automatic_Colours
      | Some setting \<Rightarrow>
          let s = lower setting in
          if s = ''automatic'' \<or> s = ''auto'' \<or> s = [] then Ok Automatic_Colours
          else if s = ''always'' \<or> s = ''yes'' then Ok Always
          else if s = ''never'' \<or> s = ''no'' then Ok Never
          else Err (InvalidColour setting))"

definition text_format_deduce :: "matches \<Rightarrow> TextFormat" where
  "text_format_deduce ms = \<lparr>format_durations = (\<not> opt_present ms ''seconds'')\<rparr>"

definition format_deduce :: "matches \<Rightarrow> UseColours \<Rightarrow> OutputFormat" where
  "format_deduce ms use_colours =
     (if opt_present ms ''short'' then Short (text_format_deduce ms)
      else if opt_present ms ''json'' then JSON
      else Text use_colours (text_format_deduce ms))"

record Options =
  opt_requests :: RequestGenerator
  opt_measure_time :: bool
  opt_format :: OutputFormat

datatype HelpReason = Help_Flag | NoDomains

datatype OptionsResult =
    Options_Ok Options
  | InvalidOptionsFormat getopts_fail
  | InvalidOptions OptionsError
  | Help HelpReason UseColours
  | Version UseColours

definition options_deduce ::
  "(string \<Rightarrow> string option) \<Rightarrow> matches \<Rightarrow> UseColours \<Rightarrow> (OptionsError, Options) outcome" where
  "options_deduce label_to_ascii ms use_colours =
     (let measure_time = opt_present ms ''time'';
          fmt = format_deduce ms use_colours
      in bind_outcome (generator_deduce label_to_ascii ms) (\<lambda>requests.
         Ok \<lparr>opt_requests = requests, opt_measure_time = measure_time, opt_format = fmt\<rparr>))"

definition options_result :: "(string \<Rightarrow> string option) \<Rightarrow> matches \<Rightarrow> (OptionsError, OptionsResult) outcome" where
  "options_result label_to_ascii ms =
     bind_outcome (colours_deduce ms) (\<lambda>uc.
     if opt_present ms ''version'' then Ok (Version uc)
     else if opt_present ms ''help'' then Ok (Help Help_Flag uc)
     else
       bind_outcome (options_deduce label_to_ascii ms uc) (\<lambda>opts.
       if in_domains (gen_inputs (opt_requests opts)) = [] then Ok (Help NoDomains uc)
       else Ok (Options_Ok opts)))"

text \<open>\<open>None\<close> would be a panic, which does not come about.\<close>

definition getopts ::
  "((opt_kind \<times> string \<times> string) list \<Rightarrow> 'args \<Rightarrow> getopts_fail + matches) \<Rightarrow> (string \<Rightarrow> string option)
     \<Rightarrow> 'args \<Rightarrow> OptionsResult option" where
  "getopts parse_args label_to_ascii args =
     (case parse_args option_table args of
        Inl e \<Rightarrow> Some (InvalidOptionsFormat e)
      | Inr ms \<Rightarrow>
          (case options_result label_to_ascii ms of
             Ok result \<Rightarrow> Some result
           | Err e \<Rightarrow> Some (InvalidOptions e)
           | Panic \<Rightarrow> None))"

end
