(* ===== verification/Options_Correct.thy ===== *)
theory Options_Correct
  imports Options
begin

text \<open>
  What the options of the command line (\<open>src/options.rs\<close>) amount to: whatever is accepted can be
  sent, and types and classes can be given by name or by number.
\<close>

subsection \<open>Loops\<close>

lemma try_each_invariant:
  assumes "try_each f xs s = Ok s'" and "P s" and "\<And>x s s'. x \<in> set xs \<Longrightarrow> P s \<Longrightarrow> f x s = Ok s' \<Longrightarrow> P s'"
  shows "P s'"
  using assms
proof (induction xs arbitrary: s)
  case (Cons x xs)
  then obtain t where "f x s = Ok t" "try_each f xs t = Ok s'" by (auto simp: bind_outcome_Ok_iff)
  with Cons show ?case by (metis list.set_intros)
qed simp

lemma try_each_no_panic: "(\<And>x s. f x s \<noteq> Panic) \<Longrightarrow> try_each f xs s \<noteq> Panic"
  by (induction xs arbitrary: s) (auto simp: bind_outcome_Panic_iff)


subsection \<open>Nothing panics\<close>

lemma encode_no_panic [simp]: "encode to_ascii input \<noteq> Panic"
proof -
  have "encode_label to_ascii label \<noteq> Panic" for label
    by (simp add: encode_label_def split: option.split)
  then have "collect_outcome (encode_label to_ascii) labels \<noteq> Panic" for labels
    by (intro collect_outcome_no_panic) simp
  then show ?thesis by (auto simp: encode_def Let_def bind_outcome_Panic_iff)
qed

lemma parse_host_port_no_panic [simp]: "parse_host_port addr dflt \<noteq> Panic"
  by (auto simp: parse_host_port_def split_bracketed_def bind_outcome_Panic_iff split: option.splits if_splits)

lemma parse_https_url_no_panic [simp]: "parse_https_url url \<noteq> Panic"
  by (auto simp: parse_https_url_def Let_def bind_outcome_Panic_iff map_err_Panic_iff split: option.split)

lemma check_nameserver_no_panic [simp]: "check_nameserver ty ns \<noteq> Panic"
  by (cases ty) (auto simp: bind_outcome_Panic_iff)

lemma check_resolvers_no_panic [simp]: "check_resolvers tys rs \<noteq> Panic"
proof -
  have "check_transports tys ns \<noteq> Panic" for ns
    by (induction tys) (auto simp: bind_outcome_Panic_iff map_err_Panic_iff)
  then show ?thesis by (induction tys rs rule: check_resolvers.induct) (auto simp: bind_outcome_Panic_iff)
qed

lemma add_domain_no_panic [simp]: "add_domain to_ascii input inputs \<noteq> Panic"
  by (simp add: add_domain_def bind_outcome_Panic_iff map_err_Panic_iff)

lemma inputs_deduce_no_panic [simp]: "inputs_deduce to_ascii ms \<noteq> Panic"
proof -
  have "add_named_type x inputs \<noteq> Panic" "add_named_class x inputs \<noteq> Panic"
    "add_free_arg to_ascii x inputs \<noteq> Panic" for x inputs
    by (auto simp: add_named_type_def add_named_class_def add_free_arg_def add_constant_def split: option.split)
  then show ?thesis
    by (auto simp: inputs_deduce_def load_named_args_def load_free_args_def check_for_missing_nameserver_def
        bind_outcome_Panic_iff dest: try_each_no_panic [THEN notE, rotated])
qed

lemma options_result_no_panic: "options_result to_ascii ms \<noteq> Panic"
proof -
  have "add_tweak x tweaks \<noteq> Panic" for x tweaks
    by (simp add: add_tweak_def Let_def split: option.split)
  then have "tweaks_deduce ms \<noteq> Panic" by (simp add: tweaks_deduce_def try_each_no_panic)
  moreover have "edns_deduce ms \<noteq> Panic" "txid_deduce ms \<noteq> Panic" "deduce_timeout ms \<noteq> Panic"
    "colours_deduce ms \<noteq> Panic" "check_edns tweaks edns \<noteq> Panic" for tweaks edns
    by (auto simp: edns_deduce_def txid_deduce_def deduce_timeout_def colours_deduce_def check_edns_def Let_def
        split: option.split f64.split)
  ultimately show ?thesis
    by (auto simp: options_result_def options_deduce_def generator_deduce_def Let_def bind_outcome_Panic_iff
        split: if_splits)
qed


subsection \<open>Types and classes by name and by number\<close>

lemma canonical_from [simp]: "canonical_type (record_type_from n)"
  by (simp add: canonical_type_def type_number_record_type_from)

lemma from_type_name_from: "from_type_name s = Some t \<Longrightarrow> \<exists>n. t = record_type_from n"
proof -
  assume t: "from_type_name s = Some t"
  have known: "t = record_type_from (type_number t)" if "(t, x) \<in> set known_types" for t x
  proof -
    have "list_all (\<lambda>(t, _). record_type_from (type_number t) = t) known_types"
      by (simp add: known_types_def record_type_from_def)
    with that show ?thesis by (auto simp: list_all_iff)
  qed
  show ?thesis
  proof (cases "find (\<lambda>(_, n). eq_ignore_ascii_case n s) known_types")
    case (Some a)
    with t have "(t, snd a) \<in> set known_types" by (auto simp: from_type_name_def dest: find_SomeD split: prod.splits)
    with known show ?thesis by blast
  next
    case None
    with t obtain n name where reg: "(n, name) \<in> set RECORD_TYPES" "eq_ignore_ascii_case name s"
      by (auto simp: from_type_name_def unknown_from_type_name_def record_type_by_name_def
          dest!: find_SomeD split: option.splits)
    then have "eq_ignore_ascii_case x s = eq_ignore_ascii_case x name" for x
      by (intro eq_ignore_ascii_case_right) (simp add: eq_ignore_ascii_case_sym)
    then have "from_type_name s = from_type_name name"
      by (simp only: from_type_name_def unknown_from_type_name_def record_type_by_name_def)
    with t reg(1) registry_names_agree show ?thesis by (fastforce simp: list_all_iff names_agree_def)
  qed
qed

lemma or_else_Some: "or_else a b = Some x \<longleftrightarrow> a = Some x \<or> a = None \<and> b = Some x"
  by (auto simp: or_else_def split: option.split)

lemma parse_type_canonical: "parse_type s = Some t \<Longrightarrow> canonical_type t"
  using from_type_name_from [of s t] by (auto simp: parse_type_def or_else_Some)

lemma parse_class_canonical: "parse_class s = Some c \<Longrightarrow> canonical_class c"
  by (auto simp: parse_class_def parse_class_name_def or_else_Some canonical_class_def qclass_from_u16_def
      split: if_splits)

text \<open>Names that say nothing: they are no name in the registry.\<close>

lemma no_registered_name:
  assumes "\<And>n name. (n, name) \<in> set RECORD_TYPES \<Longrightarrow> \<not> eq_ignore_ascii_case name s"
  shows "from_type_name s = None"
proof -
  have "find (\<lambda>(_, n). eq_ignore_ascii_case n s) known_types = None"
    using assms known_types_registered by (fastforce simp: find_None_iff)
  moreover have "find (\<lambda>(_, n). eq_ignore_ascii_case n s) RECORD_TYPES = None"
    using assms by (fastforce simp: find_None_iff)
  ultimately show ?thesis
    by (simp add: from_type_name_def unknown_from_type_name_def record_type_by_name_def)
qed

lemma number_dec: "number (dec (unat n)) = Some n"
  using dec_digits [of "unat n"] by (simp add: number_def)

text \<open>No registered name starts with a digit, or with the letters T and Y.\<close>

definition starts_apart :: "string \<Rightarrow> bool" where
  "starts_apart name =
     (case name of
        [] \<Rightarrow> False
      | c # rest \<Rightarrow> 65 \<le> (of_char c :: nat) \<and> (of_char c :: nat) \<le> 90
          \<and> (c = CHR ''T'' \<longrightarrow> (case rest of [] \<Rightarrow> True | d # _ \<Rightarrow> 65 \<le> (of_char d :: nat) \<and> (of_char d :: nat) \<le> 88)))"

lemma registry_starts_apart: "list_all (\<lambda>(_, name). starts_apart name) RECORD_TYPES"
  by (simp add: RECORD_TYPES_def starts_apart_def)

lemma upper_not_registered:
  assumes "upper_name s" and "\<not> starts_apart s"
  shows "from_type_name s = None"
proof (rule no_registered_name)
  fix k name
  assume "(k, name) \<in> set RECORD_TYPES"
  with registry_starts_apart upper_names(2) have "starts_apart name" "upper_name name"
    by (auto simp: list_all_iff)
  with assms show "\<not> eq_ignore_ascii_case name s" by (auto simp: eq_ignore_ascii_case_upper)
qed

lemma upper_dec: "upper_name (dec n)"
  using dec_digits [of n] by (auto simp: upper_name_def list_all_iff is_ascii_digit_def)

lemma dec_Cons: obtains c rest where "dec n = c # rest" "is_ascii_digit c"
  using dec_digits [of n] by (cases "dec n") auto

lemma numbers_not_registered: "from_type_name (dec n) = None" "from_type_name (''TYPE'' @ dec n) = None"
proof -
  have "\<not> starts_apart (dec n)"
    by (rule dec_Cons [of n]) (auto simp: starts_apart_def is_ascii_digit_def)
  then show "from_type_name (dec n) = None" by (intro upper_not_registered upper_dec)
  have "upper_name (''TYPE'' @ dec n)" using upper_dec [of n] by (simp add: upper_name_def)
  then show "from_type_name (''TYPE'' @ dec n) = None"
    by (rule upper_not_registered) (simp add: starts_apart_def)
qed

lemma generic_number_dec: "generic_number (word @ dec (unat n)) word = Some n"
proof -
  obtain c rest where c: "dec (unat n) = c # rest" "is_ascii_digit c" by (rule dec_Cons)
  have "\<not> continuation (byte_of_char c)"
    using c(2) by (simp add: continuation_def is_ascii_digit_def word_le_nat_alt)
  then have "get_to (length word) (word @ dec (unat n)) = Some word"
    by (simp add: get_to_def c(1) nth_append)
  then show ?thesis by (simp add: generic_number_def number_dec)
qed

lemma generic_number_digits: "word \<noteq> [] \<Longrightarrow> upper_name word \<Longrightarrow> \<not> is_ascii_digit (hd word) \<Longrightarrow> generic_number (dec n) word = None"
proof -
  assume word: "word \<noteq> []" "upper_name word" "\<not> is_ascii_digit (hd word)"
  have "\<not> eq_ignore_ascii_case (take (length word) (dec n)) word"
  proof
    assume eq: "eq_ignore_ascii_case (take (length word) (dec n)) word"
    have "upper_name (take (length word) (dec n))"
      using upper_dec [of n] by (auto simp: upper_name_def list_all_iff dest: in_set_takeD)
    with eq word(2) have "take (length word) (dec n) = word" by (simp add: eq_ignore_ascii_case_upper)
    then have "hd word \<in> set (dec n)" using word(1) by (metis hd_in_set in_set_takeD)
    with dec_digits [of n] word(3) show False by (auto simp: list_all_iff)
  qed
  then show ?thesis by (auto simp: generic_number_def get_to_def)
qed

lemma parse_class_dec: "parse_class (dec n) = None"
proof -
  have "\<not> eq_ignore_ascii_case (dec n) w" if "w \<noteq> []" "upper_name w" "\<not> is_ascii_digit (hd w)" for w
    using that upper_dec [of n] dec_digits [of n]
    by (auto simp: eq_ignore_ascii_case_upper list_all_iff)
  then show ?thesis
    by (simp add: parse_class_def parse_class_name_def or_else_def upper_name_def is_ascii_digit_def
        generic_number_digits)
qed

lemma eq_ignore_Cons:
  "eq_ignore_ascii_case (c # s) (d # t) \<longleftrightarrow>
     ascii_lower (byte_of_char c) = ascii_lower (byte_of_char d) \<and> eq_ignore_ascii_case s t"
  "\<not> eq_ignore_ascii_case [] (d # t)" "\<not> eq_ignore_ascii_case (c # s) []"
  by (simp_all add: eq_ignore_ascii_case_def eq_bytes_ignore_ascii_case_iff bytes_of_def)

lemma not_opt: "\<not> eq_ignore_ascii_case (dec n) ''OPT''" "\<not> eq_ignore_ascii_case (''TYPE'' @ s) ''OPT''"
  "\<not> eq_ignore_ascii_case (''CLASS'' @ s) ''OPT''"
proof -
  show "\<not> eq_ignore_ascii_case (dec n) ''OPT''"
    using upper_dec [of n] dec_digits [of n]
    by (auto simp: eq_ignore_ascii_case_upper upper_name_def is_ascii_digit_def)
qed (simp_all add: eq_ignore_Cons byte_of_char_def ascii_lower_def)

lemma parse_class_type: "parse_class (''TYPE'' @ s) = None"
proof -
  have "generic_number (''TYPE'' @ s) ''CLASS'' = None"
    by (cases s) (auto simp: generic_number_def get_to_def eq_ignore_Cons byte_of_char_def ascii_lower_def)
  then show ?thesis
    by (simp add: parse_class_def parse_class_name_def or_else_def eq_ignore_Cons byte_of_char_def ascii_lower_def)
qed

lemma parse_class_name_class: "parse_class_name (''CLASS'' @ s) = None"
  by (simp add: parse_class_name_def eq_ignore_Cons byte_of_char_def ascii_lower_def)

lemma constant_names: "is_constant_name (''TYPE'' @ dec n)" "is_constant_name (''CLASS'' @ dec n)"
proof -
  have "list_all is_ascii_alphanumeric (dec n)"
    using dec_digits [of n] by (auto simp: list_all_iff is_ascii_alphanumeric_def)
  then show "is_constant_name (''TYPE'' @ dec n)" "is_constant_name (''CLASS'' @ dec n)"
    by (simp_all add: is_constant_name_def is_ascii_alphanumeric_def is_ascii_alphabetic_def)
qed

text \<open>
  A type can be asked for by its number alone or in the generic form of RFC 3597, and a class
  too, with \<open>--type\<close> and \<open>--class\<close> or, in the generic form, as an argument of its own; each gives
  the one type or class that the number is read as in a packet. The type OPT is refused by its
  name, as one that is not to be asked for, but its number, 41, is accepted.
\<close>

theorem type_and_class_forms:
  "add_named_type (dec (unat n)) inputs = Ok (add_type (record_type_from n) inputs)
   \<and> add_named_type (''TYPE'' @ dec (unat n)) inputs = Ok (add_type (record_type_from n) inputs)
   \<and> add_free_arg to_ascii (''TYPE'' @ dec (unat n)) inputs = Ok (add_type (record_type_from n) inputs)
   \<and> add_named_class (dec (unat n)) inputs = Ok (add_class (qclass_from_u16 n) inputs)
   \<and> add_named_class (''CLASS'' @ dec (unat n)) inputs = Ok (add_class (qclass_from_u16 n) inputs)
   \<and> add_free_arg to_ascii (''CLASS'' @ dec (unat n)) inputs = Ok (add_class (qclass_from_u16 n) inputs)
   \<and> add_named_type ''OPT'' inputs = Err QueryTypeOPT \<and> type_number (record_type_from 41) = OPT_RR_TYPE"
proof -
  have "parse_type (dec (unat n)) = None"
    by (simp add: parse_type_def or_else_def numbers_not_registered generic_number_digits upper_name_def
        is_ascii_digit_def)
  moreover have "parse_type (''TYPE'' @ dec (unat n)) = Some (record_type_from n)"
    using generic_number_dec [of "''TYPE''" n]
    by (simp add: parse_type_def or_else_def numbers_not_registered numbers_not_registered [simplified])
  moreover have "parse_class (''CLASS'' @ dec (unat n)) = Some (qclass_from_u16 n)"
    using generic_number_dec [of "''CLASS''" n] parse_class_name_class by (simp add: parse_class_def or_else_def)
  moreover have "strip_prefix ''@'' (''TYPE'' @ s) = None" "strip_prefix ''@'' (''CLASS'' @ s) = None" for s
    by simp_all
  ultimately show ?thesis
    using not_opt parse_class_dec parse_class_type constant_names
    by (simp add: add_named_type_def add_named_class_def add_free_arg_def add_constant_def or_else_def number_dec
        type_number_record_type_from OPT_RR_TYPE_def)
qed


subsection \<open>Whatever is accepted can be sent\<close>

text \<open>The inputs so far: names, types and classes that can be written, and read back.\<close>

definition loading :: "Inputs \<Rightarrow> bool" where
  "loading inputs \<longleftrightarrow> proper_inputs inputs \<and> SystemDefault \<notin> set (in_resolver_types inputs)"

lemma proper_add:
  "loading inputs \<Longrightarrow> canonical_type t \<Longrightarrow> loading (add_type t inputs)"
  "loading inputs \<Longrightarrow> canonical_class c \<Longrightarrow> loading (add_class c inputs)"
  "loading inputs \<Longrightarrow> loading (add_nameserver ns inputs)"
  "loading inputs \<Longrightarrow> loading (add_transport ty inputs)"
  by (simp_all add: loading_def proper_inputs_def add_type_def add_class_def add_nameserver_def add_transport_def)

text \<open>
  The interface of UTS 46 processing: a label with something in it is not turned into nothing.
  The processing of a build without IDNA, which leaves labels alone, provides it.
\<close>

locale idna =
  fixes to_ascii :: "string \<Rightarrow> string option"
  assumes not_emptied: "label \<noteq> [] \<Longrightarrow> to_ascii label = Some ascii \<Longrightarrow> ascii \<noteq> []"
begin

lemma proper_add_domain:
  "loading inputs \<Longrightarrow> add_domain to_ascii input inputs = Ok inputs' \<Longrightarrow> loading inputs'"
  using encode_readable [OF _ not_emptied] encode_Ok_valid
  by (auto simp: add_domain_def bind_outcome_Ok_iff map_err_Ok_iff loading_def proper_inputs_def)

lemma proper_free_arg:
  "loading inputs \<Longrightarrow> add_free_arg to_ascii arg inputs = Ok inputs' \<Longrightarrow> loading inputs'"
  by (auto simp: add_free_arg_def add_constant_def intro: proper_add proper_add_domain
      dest: parse_type_canonical parse_class_canonical split: option.splits if_splits)

lemma proper_named_args:
  assumes "loading inputs" and "load_named_args to_ascii ms inputs = Ok inputs'"
  shows "loading inputs'"
proof -
  have type: "loading s'" if "loading s" "add_named_type x s = Ok s'" for x s s'
    using that by (auto simp: add_named_type_def or_else_Some intro: proper_add
        dest: parse_type_canonical split: option.splits if_splits)
  have klass: "loading s'" if "loading s" "add_named_class x s = Ok s'" for x s s'
    using that by (auto simp: add_named_class_def or_else_Some intro: proper_add
        dest: parse_class_canonical split: option.splits)
  from assms(2) obtain i1 i2 i3 where
    "try_each (add_domain to_ascii) (opt_strs ms ''query'') inputs = Ok i1"
    "try_each add_named_type (opt_strs ms ''type'') i1 = Ok i2"
    "try_each (\<lambda>ns inputs. Ok (add_nameserver ns inputs) :: (OptionsError, Inputs) outcome)
       (opt_strs ms ''nameserver'') i2 = Ok i3"
    "try_each add_named_class (opt_strs ms ''class'') i3 = Ok inputs'"
    unfolding load_named_args_def bind_outcome_Ok_iff by blast
  note steps = this [THEN try_each_invariant [where P = loading]]
  have "loading i1" by (rule steps(1) [OF assms(1)]) (rule proper_add_domain)
  then have "loading i2" by (rule steps(2)) (rule type)
  then have "loading i3" by (rule steps(3)) (auto intro: proper_add)
  then show ?thesis by (rule steps(4)) (rule klass)
qed

lemma proper_free_args:
  "loading inputs \<Longrightarrow> load_free_args to_ascii ms inputs = Ok inputs' \<Longrightarrow> loading inputs'"
  unfolding load_free_args_def by (erule try_each_invariant) (auto intro: proper_free_arg)

end

interpretation plain: idna label_to_ascii_plain
  by unfold_locales (simp add: label_to_ascii_plain_def)

text \<open>A nameserver that is accepted can be used with every protocol that was asked for.\<close>

lemma check_transports_Ok: "check_transports tys ns = Ok () \<longleftrightarrow> (\<forall>ty \<in> set tys. check_nameserver ty ns = Ok ())"
  by (induction tys) (auto simp: bind_outcome_Ok_iff map_err_Ok_iff)

lemma check_resolvers_Ok:
  "check_resolvers tys rs = Ok () \<longleftrightarrow>
     (\<forall>ns. Specific ns \<in> set rs \<longrightarrow> (\<forall>ty \<in> set tys. check_nameserver ty ns = Ok ()))"
  by (induction tys rs rule: check_resolvers.induct) (auto simp: bind_outcome_Ok_iff check_transports_Ok)

definition usable_inputs :: "Inputs \<Rightarrow> bool" where
  "usable_inputs inputs \<longleftrightarrow>
     proper_inputs inputs \<and> in_record_types inputs \<noteq> [] \<and> in_classes inputs \<noteq> []
     \<and> in_resolver_types inputs \<noteq> [] \<and> in_transport_types inputs \<noteq> []
     \<and> list_all (\<lambda>r. case r of
           Specific ns \<Rightarrow> list_all (\<lambda>ty. check_nameserver ty ns = Ok ()) (in_transport_types inputs)
         | SystemDefault \<Rightarrow> in_transport_types inputs \<noteq> [HTTPS]) (in_resolver_types inputs)"

lemma load_fallbacks_usable:
  assumes "loading inputs" and "check_for_missing_nameserver inputs = Ok ()"
  shows "usable_inputs (load_fallbacks inputs)"
proof -
  let ?tys = "if in_transport_types inputs = [] then [Automatic] else in_transport_types inputs"
  have "check_resolvers ?tys (in_resolver_types inputs) = Ok ()"
    and https: "in_resolver_types inputs = [] \<Longrightarrow> in_transport_types inputs \<noteq> [HTTPS]"
    using assms(2) by (auto simp: check_for_missing_nameserver_def split: if_splits)
  then have specific: "check_nameserver ty ns = Ok ()"
    if "Specific ns \<in> set (in_resolver_types inputs)" "ty \<in> set ?tys" for ns ty
    using that check_resolvers_Ok [of ?tys "in_resolver_types inputs"] by blast
  have "canonical_type T_A" by (simp add: canonical_type_def record_type_from_def known_types_def)
  moreover have "canonical_class IN" by (simp add: canonical_class_def qclass_from_u16_def)
  moreover have tys: "in_transport_types (load_fallbacks inputs) = ?tys"
    "in_resolver_types (load_fallbacks inputs) =
       (if in_resolver_types inputs = [] then [SystemDefault] else in_resolver_types inputs)"
    by (simp_all add: load_fallbacks_def Let_def add_type_def add_class_def add_transport_def)
  ultimately have proper: "proper_inputs (load_fallbacks inputs)"
    and lists: "in_record_types (load_fallbacks inputs) \<noteq> []" "in_classes (load_fallbacks inputs) \<noteq> []"
    using assms(1)
    by (auto simp: load_fallbacks_def Let_def loading_def proper_inputs_def add_type_def add_class_def add_transport_def)
  show ?thesis
    using proper lists specific https assms(1)[unfolded loading_def]
    by (auto simp: usable_inputs_def tys list_all_iff split: ResolverType.split)
qed

context idna
begin

lemma inputs_deduce_usable:
  assumes "inputs_deduce to_ascii ms = Ok inputs"
  shows "usable_inputs inputs"
proof -
  from assms obtain named all where
    named: "load_named_args to_ascii ms (load_transport_types ms inputs_default) = Ok named"
    and all: "load_free_args to_ascii ms named = Ok all"
    and checked: "check_for_missing_nameserver all = Ok ()" and inputs: "inputs = load_fallbacks all"
    by (auto simp: inputs_deduce_def bind_outcome_Ok_iff)
  have "loading (load_transport_types ms inputs_default)"
    by (simp add: load_transport_types_def Let_def loading_def proper_inputs_def inputs_default_def
        add_transport_def)
  then have "loading all" using named all by (blast intro: proper_named_args proper_free_args)
  then show ?thesis unfolding inputs by (rule load_fallbacks_usable [OF _ checked])
qed

lemma accepted:
  assumes "options_result to_ascii ms = Ok (Options_Ok opts)"
  shows "usable_inputs (gen_inputs (opt_requests opts)) \<and> in_domains (gen_inputs (opt_requests opts)) \<noteq> []"
    and "gen_timeout (opt_requests opts) \<le> 3600 * 10 ^ 9"
    and "check_edns (gen_tweaks (opt_requests opts)) (gen_edns (opt_requests opts)) = Ok ()"
proof -
  from assms obtain g where g: "generator_deduce to_ascii ms = Ok g" "opt_requests opts = g"
    and domains: "in_domains (gen_inputs g) \<noteq> []"
    by (auto simp: options_result_def options_deduce_def Let_def bind_outcome_Ok_iff split: if_splits)
  from g(1) obtain tweaks edns t inputs where
    "check_edns tweaks edns = Ok ()" "deduce_timeout ms = Ok t" "inputs_deduce to_ascii ms = Ok inputs"
    and fields: "gen_inputs g = inputs" "gen_timeout g = t" "gen_tweaks g = tweaks" "gen_edns g = edns"
    by (auto simp: generator_deduce_def bind_outcome_Ok_iff)
  moreover from this(2) have "t \<le> 3600 * 10 ^ 9"
    using from_secs_f64_le [of _ 3600]
    by (auto simp: deduce_timeout_def DEFAULT_TIMEOUT_def MAX_TIMEOUT_SECONDS_def split: option.splits f64.splits if_splits)
  ultimately show "usable_inputs (gen_inputs (opt_requests opts)) \<and> in_domains (gen_inputs (opt_requests opts)) \<noteq> []"
    and "gen_timeout (opt_requests opts) \<le> 3600 * 10 ^ 9"
    and "check_edns (gen_tweaks (opt_requests opts)) (gen_edns (opt_requests opts)) = Ok ()"
    using g(2) domains inputs_deduce_usable by simp_all
qed

end


text \<open>
  Reading the command line never panics, whatever the arguments.
\<close>

theorem getopts_total: "getopts parse_args to_ascii args \<noteq> None"
  using options_result_no_panic
  by (auto simp: getopts_def split: sum.split outcome.split)

definition sample_matches :: matches where
  "sample_matches = \<lparr>opt_present = (\<lambda>_. False), opt_str = (\<lambda>_. None), opt_strs = (\<lambda>_. []),
     free_args = [''@1.1.1.1'', ''d.og'', ''mx'']\<rparr>"

lemma sample_options:
  "options_result label_to_ascii_plain sample_matches = Ok (Options_Ok
     \<lparr>opt_requests =
        \<lparr>gen_inputs = \<lparr>in_domains = [\<lparr>segments = [[0x64], [0x6F, 0x67]]\<rparr>], in_record_types = [T_MX],
           in_classes = [IN], in_resolver_types = [Specific ''1.1.1.1''], in_transport_types = [Automatic]\<rparr>,
         gen_txids = Random, gen_edns = SendAndHide, gen_tweaks = tweaks_default, gen_timeout = DEFAULT_TIMEOUT\<rparr>,
      opt_measure_time = False, opt_format = Text Automatic_Colours \<lparr>format_durations = True\<rparr>\<rparr>)"
proof -
  have domain: "encode label_to_ascii_plain ''d.og'' = Ok \<lparr>segments = [[0x64], [0x6F, 0x67]]\<rparr>"
    by (simp add: encode_eval)
  have mx: "from_type_name ''mx'' = Some T_MX" "parse_class ''mx'' = None"
    by (simp_all add: from_type_name_def known_types_def parse_class_def parse_class_name_def or_else_def
        generic_number_def get_to_def eq_ignore_Cons byte_of_char_def ascii_lower_def)
  note ip = parse_ip_1111
  have args: "load_free_args label_to_ascii_plain sample_matches inputs_default
      = Ok \<lparr>in_domains = [\<lparr>segments = [[0x64], [0x6F, 0x67]]\<rparr>], in_record_types = [T_MX],
           in_classes = [], in_resolver_types = [Specific ''1.1.1.1''], in_transport_types = []\<rparr>"
    by (simp add: load_free_args_def sample_matches_def add_free_arg_def is_constant_name_def is_ascii_alphabetic_def
        is_ascii_alphanumeric_def is_ascii_digit_def Let_def add_domain_def domain add_constant_def mx parse_type_def
        or_else_def add_type_def add_nameserver_def inputs_default_def eq_ignore_Cons byte_of_char_def ascii_lower_def)
  have "inputs_deduce label_to_ascii_plain sample_matches
      = Ok \<lparr>in_domains = [\<lparr>segments = [[0x64], [0x6F, 0x67]]\<rparr>], in_record_types = [T_MX],
           in_classes = [IN], in_resolver_types = [Specific ''1.1.1.1''], in_transport_types = [Automatic]\<rparr>"
  proof -
    have "load_named_args label_to_ascii_plain sample_matches (load_transport_types sample_matches inputs_default)
        = Ok inputs_default"
      by (simp add: load_named_args_def load_transport_types_def sample_matches_def)
    with args show ?thesis
      by (simp add: inputs_deduce_def check_for_missing_nameserver_def parse_ip_host_port [OF ip]
          load_fallbacks_def add_class_def add_transport_def)
  qed
  then show ?thesis
    by (simp add: options_result_def options_deduce_def generator_deduce_def colours_deduce_def edns_deduce_def
        txid_deduce_def tweaks_deduce_def check_edns_def should_send_def deduce_timeout_def format_deduce_def
        text_format_deduce_def or_else_def sample_matches_def)
qed


end
