(* ===== verification/Json.thy ===== *)
theory Json
  imports Output_Text Utf8
begin

text \<open>
  Responses as JSON (\<open>src/output.rs\<close>): the document for each response, answer and record. A
  document is a value here; writing it as text is the \<open>serde_json\<close> package's. Its objects keep
  the order in which their keys were added, as they do with its feature \<open>preserve_order\<close>.
\<close>

subsection \<open>Documents\<close>

datatype JsonValue =
    J_Null | J_Bool bool | J_Number nat | J_String string
  | J_Array "JsonValue list" | J_Object "(string \<times> JsonValue) list"

text \<open>\<open>object[key] = value\<close>: in place of the value the key had, or after the last.\<close>

fun set_key :: "string \<Rightarrow> JsonValue \<Rightarrow> (string \<times> JsonValue) list \<Rightarrow> (string \<times> JsonValue) list" where
  "set_key k v [] = [(k, v)]"
| "set_key k v ((k', v') # kvs) = (if k = k' then (k, v) # kvs else (k', v') # set_key k v kvs)"

abbreviation num :: "'n::len word \<Rightarrow> JsonValue" where
  "num w \<equiv> J_Number (unat w)"

abbreviation name_text :: "labels \<Rightarrow> JsonValue" where
  "name_text name \<equiv> J_String (display_labels name)"


subsection \<open>Bytes that may not be text\<close>

text \<open>
  \<open>String::from_utf8_lossy\<close>: what is well formed stays, and each longest start of something well
  formed, or else each byte, is replaced by U+FFFD. \<open>utf8_step\<close> says which it is, and how long.
\<close>

definition utf8_form :: "u8 \<Rightarrow> (nat \<times> u8 \<times> u8) option" where
  "utf8_form a =
     (if 0xC2 \<le> a \<and> a \<le> 0xDF then Some (2, 0x80, 0xBF)
      else if a = 0xE0 then Some (3, 0xA0, 0xBF)
      else if a = 0xED then Some (3, 0x80, 0x9F)
      else if 0xE1 \<le> a \<and> a \<le> 0xEF then Some (3, 0x80, 0xBF)
      else if a = 0xF0 then Some (4, 0x90, 0xBF)
      else if 0xF1 \<le> a \<and> a \<le> 0xF3 then Some (4, 0x80, 0xBF)
      else if a = 0xF4 then Some (4, 0x80, 0x8F)
      else None)"

definition utf8_step :: "u8 \<Rightarrow> u8 list \<Rightarrow> bool \<times> nat" where
  "utf8_step a s =
     (if a < 0x80 then (True, 1)
      else
        (case utf8_form a of
           None \<Rightarrow> (False, 1)
         | Some (n, low, high) \<Rightarrow>
             (case s of
                [] \<Rightarrow> (False, 1)
              | b # s \<Rightarrow>
                  if \<not> (low \<le> b \<and> b \<le> high) then (False, 1)
                  else
                    (let k = 2 + length (takeWhile continuation (take (n - 2) s)) in (k = n, k)))))"

definition replacement :: string where
  "replacement = [CHR 0xEF, CHR 0xBF, CHR 0xBD]"

function lossy :: "u8 list \<Rightarrow> string" where
  "lossy [] = []"
| "lossy (a # s) =
     (case utf8_step a s of (good, k) \<Rightarrow>
        (if good then string_of (a # take (k - 1) s) else replacement) @ lossy (drop (k - 1) s))"
  by pat_completeness auto

termination by (relation "measure length") auto

declare lossy.simps [simp del]


subsection \<open>Flags, classes and types\<close>

fun json_opcode :: "Opcode \<Rightarrow> JsonValue" where
  "json_opcode Op_Query = J_String ''QUERY''"
| "json_opcode (Op_Other n) = num n"

fun json_rcode :: "ErrorCode option \<Rightarrow> JsonValue" where
  "json_rcode None = J_String ''NOERROR''"
| "json_rcode (Some FormatError) = J_String ''FORMERR''"
| "json_rcode (Some ServerFailure) = J_String ''SERVFAIL''"
| "json_rcode (Some NXDomain) = J_String ''NXDOMAIN''"
| "json_rcode (Some NotImplemented) = J_String ''NOTIMP''"
| "json_rcode (Some QueryRefused) = J_String ''REFUSED''"
| "json_rcode (Some BadVersion) = J_String ''BADVERS''"
| "json_rcode (Some (EC_Other n)) = num n"
| "json_rcode (Some (EC_Private n)) = num n"

definition json_flags :: "Flags \<Rightarrow> JsonValue" where
  "json_flags flags = J_Object
     [(''qr'', J_Bool (flag_response flags)),
      (''opcode'', json_opcode (flag_opcode flags)),
      (''aa'', J_Bool (flag_authoritative flags)),
      (''tc'', J_Bool (flag_truncated flags)),
      (''rd'', J_Bool (flag_recursion_desired flags)),
      (''ra'', J_Bool (flag_recursion_available flags)),
      (''ad'', J_Bool (flag_authentic_data flags)),
      (''cd'', J_Bool (flag_checking_disabled flags)),
      (''rcode'', json_rcode (flag_error_code flags))]"

fun json_class :: "QClass \<Rightarrow> JsonValue" where
  "json_class IN = J_String ''IN''"
| "json_class CH = J_String ''CH''"
| "json_class HS = J_String ''HS''"
| "json_class (QC_Other n) = num n"

fun json_unknown :: "UnknownQtype \<Rightarrow> JsonValue" where
  "json_unknown (HeardOf name _) = J_String name"
| "json_unknown (UnheardOf n) = num n"

fun json_record_type_name :: "RecordType \<Rightarrow> JsonValue" where
  "json_record_type_name T_A = J_String ''A''"
| "json_record_type_name T_AAAA = J_String ''AAAA''"
| "json_record_type_name T_CAA = J_String ''CAA''"
| "json_record_type_name T_CNAME = J_String ''CNAME''"
| "json_record_type_name T_DNSKEY = J_String ''DNSKEY''"
| "json_record_type_name T_DS = J_String ''DS''"
| "json_record_type_name T_EUI48 = J_String ''EUI48''"
| "json_record_type_name T_EUI64 = J_String ''EUI64''"
| "json_record_type_name T_HINFO = J_String ''HINFO''"
| "json_record_type_name T_LOC = J_String ''LOC''"
| "json_record_type_name T_MX = J_String ''MX''"
| "json_record_type_name T_NAPTR = J_String ''NAPTR''"
| "json_record_type_name T_NS = J_String ''NS''"
| "json_record_type_name T_NSEC = J_String ''NSEC''"
| "json_record_type_name T_OPENPGPKEY = J_String ''OPENPGPKEY''"
| "json_record_type_name T_PTR = J_String ''PTR''"
| "json_record_type_name T_RRSIG = J_String ''RRSIG''"
| "json_record_type_name T_SOA = J_String ''SOA''"
| "json_record_type_name T_SRV = J_String ''SRV''"
| "json_record_type_name T_SSHFP = J_String ''SSHFP''"
| "json_record_type_name T_TLSA = J_String ''TLSA''"
| "json_record_type_name T_TXT = J_String ''TXT''"
| "json_record_type_name T_URI = J_String ''URI''"
| "json_record_type_name (T_Other unknown) = json_unknown unknown"

fun json_record_name :: "Record \<Rightarrow> JsonValue" where
  "json_record_name (R_A _) = J_String ''A''"
| "json_record_name (R_AAAA _) = J_String ''AAAA''"
| "json_record_name (R_CAA _) = J_String ''CAA''"
| "json_record_name (R_CNAME _) = J_String ''CNAME''"
| "json_record_name (R_DNSKEY _) = J_String ''DNSKEY''"
| "json_record_name (R_DS _) = J_String ''DS''"
| "json_record_name (R_EUI48 _) = J_String ''EUI48''"
| "json_record_name (R_EUI64 _) = J_String ''EUI64''"
| "json_record_name (R_HINFO _) = J_String ''HINFO''"
| "json_record_name (R_LOC _) = J_String ''LOC''"
| "json_record_name (R_MX _) = J_String ''MX''"
| "json_record_name (R_NAPTR _) = J_String ''NAPTR''"
| "json_record_name (R_NS _) = J_String ''NS''"
| "json_record_name (R_NSEC _) = J_String ''NSEC''"
| "json_record_name (R_OPENPGPKEY _) = J_String ''OPENPGPKEY''"
| "json_record_name (R_PTR _) = J_String ''PTR''"
| "json_record_name (R_RRSIG _) = J_String ''RRSIG''"
| "json_record_name (R_SSHFP _) = J_String ''SSHFP''"
| "json_record_name (R_SOA _) = J_String ''SOA''"
| "json_record_name (R_SRV _) = J_String ''SRV''"
| "json_record_name (R_TLSA _) = J_String ''TLSA''"
| "json_record_name (R_TXT _) = J_String ''TXT''"
| "json_record_name (R_URI _) = J_String ''URI''"
| "json_record_name (R_Other unknown _) = json_unknown unknown"


subsection \<open>Records\<close>

text \<open>An object being built: its keys so far.\<close>

definition insert_name :: "string \<Rightarrow> string option \<Rightarrow> (string \<times> JsonValue) list \<Rightarrow> (string \<times> JsonValue) list" where
  "insert_name key name kvs = (case name of Some name \<Rightarrow> set_key key (J_String name) kvs | None \<Rightarrow> kvs)"

definition json_dnskey :: "(u8 list \<Rightarrow> string) \<Rightarrow> DNSKEY \<Rightarrow> JsonValue" where
  "json_dnskey base64 dnskey =
     (let data = [(''flags'', num (dnskey_flags dnskey)), (''protocol'', num (dnskey_protocol dnskey)),
                  (''algorithm'', num (dnskey_algorithm dnskey))];
          data = insert_name ''algorithm_name'' (DNSKEY_algorithm_name dnskey) data
      in J_Object (set_key ''public_key'' (J_String (base64 (dnskey_public_key dnskey))) data))"

definition json_ds :: "DS \<Rightarrow> JsonValue" where
  "json_ds ds =
     (let data = [(''key_tag'', num (ds_key_tag ds)), (''algorithm'', num (ds_algorithm ds))];
          data = insert_name ''algorithm_name'' (DS_algorithm_name ds) data;
          data = set_key ''digest_type'' (num (ds_digest_type ds)) data;
          data = insert_name ''digest_type_name'' (DS_digest_type_name ds) data
      in J_Object (set_key ''digest'' (J_String (DS_hex_digest ds)) data))"

definition json_position :: "Position option \<Rightarrow> JsonValue" where
  "json_position p = (case p of Some p \<Rightarrow> J_String (display_position p) | None \<Rightarrow> J_Null)"

definition json_loc :: "LOC \<Rightarrow> ('e, JsonValue) outcome" where
  "json_loc loc =
     bind_outcome (display_size (loc_size loc)) (\<lambda>size.
     bind_outcome (display_size (loc_horizontal_precision loc)) (\<lambda>horizontal.
     bind_outcome (display_size (loc_vertical_precision loc)) (\<lambda>vertical.
     Ok (J_Object
       [(''size'', J_String size),
        (''precision'', J_Object [(''horizontal'', J_String horizontal), (''vertical'', J_String vertical)]),
        (''point'', J_Object
          [(''latitude'', json_position (loc_latitude loc)), (''longitude'', json_position (loc_longitude loc)),
           (''altitude'', J_String (display_altitude (loc_altitude loc)))])]))))"

definition json_naptr :: "NAPTR \<Rightarrow> JsonValue" where
  "json_naptr naptr = J_Object
     [(''order'', num (naptr_order naptr)), (''preference'', num (naptr_preference naptr)),
      (''flags'', J_String (lossy (naptr_flags naptr))), (''service'', J_String (lossy (naptr_service naptr))),
      (''regex'', J_String (lossy (naptr_regex naptr))), (''replacement'', name_text (naptr_replacement naptr))]"

definition json_rrsig :: "(u8 list \<Rightarrow> string) \<Rightarrow> RRSIG \<Rightarrow> JsonValue" where
  "json_rrsig base64 rrsig =
     (let data = [(''type_covered'', num (rrsig_type_covered rrsig))];
          data = insert_name ''type_covered_name'' (RRSIG_type_covered_name rrsig) data;
          data = set_key ''algorithm'' (num (rrsig_algorithm rrsig)) data;
          data = insert_name ''algorithm_name'' (RRSIG_algorithm_name rrsig) data;
          data = set_key ''labels'' (num (rrsig_labels rrsig)) data;
          data = set_key ''original_ttl'' (num (rrsig_original_ttl rrsig)) data;
          data = set_key ''signature_expiration'' (num (rrsig_signature_expiration rrsig)) data;
          data = set_key ''signature_inception'' (num (rrsig_signature_inception rrsig)) data;
          data = set_key ''key_tag'' (num (rrsig_key_tag rrsig)) data;
          data = set_key ''signer_name'' (name_text (rrsig_signer_name rrsig)) data
      in J_Object (set_key ''signature'' (J_String (base64 (rrsig_signature rrsig))) data))"

definition json_sshfp :: "SSHFP \<Rightarrow> JsonValue" where
  "json_sshfp sshfp = J_Object
     [(''algorithm'', num (sshfp_algorithm sshfp)), (''fingerprint_type'', num (sshfp_fingerprint_type sshfp)),
      (''fingerprint'', J_String (SSHFP_hex_fingerprint sshfp))]"

definition json_soa :: "SOA \<Rightarrow> JsonValue" where
  "json_soa soa = J_Object
     [(''mname'', name_text (soa_mname soa)), (''rname'', name_text (soa_rname soa)),
      (''serial'', num (soa_serial soa)), (''refresh'', num (soa_refresh_interval soa)),
      (''retry'', num (soa_retry_interval soa)), (''expire'', num (soa_expire_limit soa)),
      (''minimum'', num (soa_minimum_ttl soa))]"

definition json_srv :: "SRV \<Rightarrow> JsonValue" where
  "json_srv srv = J_Object
     [(''priority'', num (srv_priority srv)), (''weight'', num (srv_weight srv)), (''port'', num (srv_port srv)),
      (''target'', name_text (srv_target srv))]"

definition json_tlsa :: "TLSA \<Rightarrow> JsonValue" where
  "json_tlsa tlsa = J_Object
     [(''certificate_usage'', num (tlsa_certificate_usage tlsa)), (''selector'', num (tlsa_selector tlsa)),
      (''matching_type'', num (tlsa_matching_type tlsa)),
      (''certificate_data'', J_String (TLSA_hex_certificate_data tlsa))]"

fun json_record_data :: "(u8 list \<Rightarrow> string) \<Rightarrow> Record \<Rightarrow> ('e, JsonValue) outcome" where
  "json_record_data base64 (R_A a) = Ok (J_Object [(''address'', J_String (show_ipv4 (a_address a)))])"
| "json_record_data base64 (R_AAAA aaaa) = Ok (J_Object [(''address'', J_String (show_ipv6 (aaaa_address aaaa)))])"
| "json_record_data base64 (R_CAA caa) =
     Ok (J_Object [(''critical'', J_Bool (caa_critical caa)), (''tag'', J_String (lossy (caa_tag caa))),
       (''value'', J_String (lossy (caa_value caa)))])"
| "json_record_data base64 (R_CNAME cname) = Ok (J_Object [(''domain'', name_text (cname_domain cname))])"
| "json_record_data base64 (R_DNSKEY dnskey) = Ok (json_dnskey base64 dnskey)"
| "json_record_data base64 (R_DS ds) = Ok (json_ds ds)"
| "json_record_data base64 (R_EUI48 eui48) = Ok (J_Object [(''identifier'', J_String (EUI48_formatted_address eui48))])"
| "json_record_data base64 (R_EUI64 eui64) = Ok (J_Object [(''identifier'', J_String (EUI64_formatted_address eui64))])"
| "json_record_data base64 (R_HINFO hinfo) =
     Ok (J_Object [(''cpu'', J_String (lossy (hinfo_cpu hinfo))), (''os'', J_String (lossy (hinfo_os hinfo)))])"
| "json_record_data base64 (R_LOC loc) = json_loc loc"
| "json_record_data base64 (R_MX mx) =
     Ok (J_Object [(''preference'', num (mx_preference mx)), (''exchange'', name_text (mx_exchange mx))])"
| "json_record_data base64 (R_NAPTR naptr) = Ok (json_naptr naptr)"
| "json_record_data base64 (R_NS ns) = Ok (J_Object [(''nameserver'', name_text (ns_nameserver ns))])"
| "json_record_data base64 (R_NSEC nsec) =
     Ok (J_Object [(''next_domain'', name_text (nsec_next_domain nsec)),
       (''types'', J_Array (map J_String (NSEC_type_names nsec)))])"
| "json_record_data base64 (R_OPENPGPKEY opgp) = Ok (J_Object [(''key'', J_String (base64 (openpgpkey_key opgp)))])"
| "json_record_data base64 (R_PTR ptr) = Ok (J_Object [(''cname'', name_text (ptr_cname ptr))])"
| "json_record_data base64 (R_RRSIG rrsig) = Ok (json_rrsig base64 rrsig)"
| "json_record_data base64 (R_SSHFP sshfp) = Ok (json_sshfp sshfp)"
| "json_record_data base64 (R_SOA soa) = Ok (json_soa soa)"
| "json_record_data base64 (R_SRV srv) = Ok (json_srv srv)"
| "json_record_data base64 (R_TLSA tlsa) = Ok (json_tlsa tlsa)"
| "json_record_data base64 (R_TXT txt) =
     Ok (J_Object [(''messages'', J_Array (map (\<lambda>m. J_String (lossy m)) (txt_messages txt)))])"
| "json_record_data base64 (R_URI uri) =
     Ok (J_Object [(''priority'', num (uri_priority uri)), (''weight'', num (uri_weight uri)),
       (''target'', J_String (lossy (uri_target uri)))])"
| "json_record_data base64 (R_Other _ bytes) = Ok (J_Object [(''bytes'', J_Array (map num bytes))])"


subsection \<open>Responses\<close>

definition json_queries :: "Query list \<Rightarrow> JsonValue" where
  "json_queries queries = J_Array (map (\<lambda>q. J_Object
     [(''name'', name_text (query_qname q)), (''class'', json_class (query_qclass q)),
      (''type'', json_record_type_name (query_qtype q))]) queries)"

fun json_answer :: "(u8 list \<Rightarrow> string) \<Rightarrow> Answer \<Rightarrow> ('e, JsonValue) outcome" where
  "json_answer base64 (Standard qname qclass ttl rec) =
     bind_outcome (json_record_data base64 rec) (\<lambda>data.
     Ok (J_Object
       [(''name'', name_text qname), (''class'', json_class qclass), (''ttl'', num ttl),
        (''type'', json_record_name rec), (''data'', data)]))"
| "json_answer base64 (Pseudo qname opt) =
     Ok (J_Object
       [(''name'', name_text qname), (''type'', J_String ''OPT''),
        (''data'', J_Object
          [(''udp_payload_size'', num (opt_udp_payload_size opt)),
           (''extended_rcode_bits'', num (opt_higher_bits opt)),
           (''version'', num (opt_edns0_version opt)),
           (''flags'', num (opt_flags opt)),
           (''dnssec_ok'', J_Bool (opt_flags opt AND 0x8000 \<noteq> 0)),
           (''data'', J_Array (map num (opt_data opt)))])])"

definition json_answers :: "(u8 list \<Rightarrow> string) \<Rightarrow> Answer list \<Rightarrow> ('e, JsonValue) outcome" where
  "json_answers base64 answers =
     bind_outcome (collect_outcome (json_answer base64) answers) (\<lambda>vs. Ok (J_Array vs))"

definition json_response :: "(u8 list \<Rightarrow> string) \<Rightarrow> Response \<Rightarrow> ('e, JsonValue) outcome" where
  "json_response base64 response =
     bind_outcome (json_answers base64 (resp_answers response)) (\<lambda>answers.
     bind_outcome (json_answers base64 (resp_authorities response)) (\<lambda>authorities.
     bind_outcome (json_answers base64 (resp_additionals response)) (\<lambda>additionals.
     Ok (J_Object
       [(''flags'', json_flags (resp_flags response)), (''queries'', json_queries (resp_queries response)),
        (''answers'', answers), (''authorities'', authorities), (''additionals'', additionals)]))))"


subsection \<open>Every response has a document\<close>

lemma showable_data: "showable_record rec \<Longrightarrow> \<exists>v. (json_record_data base64 rec :: ('e, JsonValue) outcome) = Ok v"
proof (cases rec)
  case (R_LOC loc)
  assume "showable_record rec"
  with R_LOC obtain a b c where
    "(display_size (loc_size loc) :: ('e, string) outcome) = Ok a"
    "(display_size (loc_horizontal_precision loc) :: ('e, string) outcome) = Ok b"
    "(display_size (loc_vertical_precision loc) :: ('e, string) outcome) = Ok c"
    using display_size_Ok by fastforce
  then show ?thesis using R_LOC by (simp add: json_loc_def)
qed simp_all

lemma showable_answers: "list_all showable as \<Longrightarrow> \<exists>v. (json_answers base64 as :: ('e, JsonValue) outcome) = Ok v"
proof (induction as)
  case Nil
  then show ?case by (simp add: json_answers_def)
next
  case (Cons a as)
  then obtain v where "(json_answers base64 as :: ('e, JsonValue) outcome) = Ok v" by auto
  moreover have "\<exists>v. (json_answer base64 a :: ('e, JsonValue) outcome) = Ok v"
  proof (cases a)
    case (Standard qname qclass ttl rec)
    with Cons.prems have "showable_record rec" by simp
    then obtain v where "(json_record_data base64 rec :: ('e, JsonValue) outcome) = Ok v"
      using showable_data by blast
    then show ?thesis by (simp add: Standard)
  qed simp
  ultimately show ?case by (auto simp: json_answers_def bind_outcome_Ok_iff)
qed

lemma showable_json: "showable_response r \<Longrightarrow> \<exists>v. (json_response base64 r :: ('e, JsonValue) outcome) = Ok v"
proof -
  assume "showable_response r"
  then obtain a b c where
    "(json_answers base64 (resp_answers r) :: ('e, JsonValue) outcome) = Ok a"
    "(json_answers base64 (resp_authorities r) :: ('e, JsonValue) outcome) = Ok b"
    "(json_answers base64 (resp_additionals r) :: ('e, JsonValue) outcome) = Ok c"
    using showable_answers unfolding showable_response_def by metis
  then show ?thesis by (simp add: json_response_def)
qed


subsection \<open>Objects have each key once\<close>

fun keys_once :: "JsonValue \<Rightarrow> bool" where
  "keys_once (J_Array vs) \<longleftrightarrow> list_all keys_once vs"
| "keys_once (J_Object kvs) \<longleftrightarrow> distinct (map fst kvs) \<and> list_all (\<lambda>kv. keys_once (snd kv)) kvs"
| "keys_once _ \<longleftrightarrow> True"

lemma set_key_keys: "fst ` set (set_key k v kvs) = insert k (fst ` set kvs)"
proof (induction kvs)
  case (Cons kv kvs)
  then show ?case by (cases kv) (auto simp: insert_commute)
qed simp

lemma set_key_once:
  "keys_once (J_Object kvs) \<Longrightarrow> keys_once v \<Longrightarrow> keys_once (J_Object (set_key k v kvs))"
proof (induction kvs)
  case (Cons kv kvs)
  then show ?case by (cases kv) (auto simp: set_key_keys)
qed simp

lemma insert_name_once: "keys_once (J_Object kvs) \<Longrightarrow> keys_once (J_Object (insert_name k name kvs))"
  using set_key_once [of kvs "J_String _" k] by (simp add: insert_name_def split: option.split)

lemma keys_once_opcode [simp]: "keys_once (json_opcode oc)"
  by (cases oc) simp_all

lemma keys_once_class [simp]: "keys_once (json_class cl)"
  by (cases cl) simp_all

lemma keys_once_unknown [simp]: "keys_once (json_unknown un)"
  by (cases un) simp_all

lemma keys_once_rcode [simp]: "keys_once (json_rcode rc)"
  by (cases rc rule: json_rcode.cases) simp_all

lemma keys_once_types [simp]: "keys_once (json_record_type_name ty)" "keys_once (json_record_name rec)"
  by (cases ty; simp) (cases rec; simp)

lemma keys_once_position [simp]: "keys_once (json_position p)"
  by (simp add: json_position_def split: option.split)

lemma keys_once_data: "json_record_data base64 rec = (Ok v :: ('e, JsonValue) outcome) \<Longrightarrow> keys_once v"
proof (cases rec)
  case (R_LOC loc)
  assume "json_record_data base64 rec = (Ok v :: ('e, JsonValue) outcome)"
  then show ?thesis by (auto simp: R_LOC json_loc_def bind_outcome_Ok_iff)
next
  case (R_DNSKEY k)
  assume "json_record_data base64 rec = (Ok v :: ('e, JsonValue) outcome)"
  then show ?thesis
    by (auto simp: R_DNSKEY json_dnskey_def Let_def simp del: keys_once.simps
        intro!: set_key_once insert_name_once) simp_all
next
  case (R_DS d)
  assume "json_record_data base64 rec = (Ok v :: ('e, JsonValue) outcome)"
  then show ?thesis
    by (auto simp: R_DS json_ds_def Let_def simp del: keys_once.simps
        intro!: set_key_once insert_name_once) simp_all
next
  case (R_RRSIG r)
  assume "json_record_data base64 rec = (Ok v :: ('e, JsonValue) outcome)"
  then show ?thesis
    by (auto simp: R_RRSIG json_rrsig_def Let_def simp del: keys_once.simps
        intro!: set_key_once insert_name_once) simp_all
qed (auto simp: json_naptr_def json_sshfp_def json_soa_def json_srv_def json_tlsa_def list_all_iff)

lemma keys_once_answers: "json_answers base64 as = (Ok v :: ('e, JsonValue) outcome) \<Longrightarrow> keys_once v"
proof -
  have *: "keys_once w" if "json_answer base64 a = (Ok w :: ('e, JsonValue) outcome)" for a w
    using that keys_once_data by (cases a) (fastforce simp: bind_outcome_Ok_iff list_all_iff)+
  have "list_all keys_once vs" if "list_all2 (\<lambda>a w. json_answer base64 a = (Ok w :: ('e, JsonValue) outcome)) as vs" for vs
    using that(1) by (induction as vs rule: list_all2_induct) (auto dest: *)
  then show "json_answers base64 as = (Ok v :: ('e, JsonValue) outcome) \<Longrightarrow> keys_once v"
    by (auto simp: json_answers_def bind_outcome_Ok_iff collect_outcome_Ok_iff)
qed

text \<open>
  Every document that is made for a response is one that any reader of JSON takes the same
  way: no object in it, down to those of the records, has a key twice.
\<close>

theorem json_response_keys_once:
  assumes "json_response base64 r = (Ok v :: ('e, JsonValue) outcome)"
  shows "keys_once v"
  using assms
  by (auto simp: json_response_def bind_outcome_Ok_iff json_flags_def json_queries_def list_all_iff
      dest!: keys_once_answers)

definition sample_response :: Response where
  "sample_response =
     \<lparr>resp_transaction_id = 1, resp_flags = flags_query\<lparr>flag_response := True\<rparr>, resp_queries = [],
      resp_answers =
        [Standard \<lparr>segments = [[0x64, 0x6F, 0x67]]\<rparr> IN 300
           (R_DS \<lparr>ds_key_tag = 7, ds_algorithm = 8, ds_digest_type = 2, ds_digest = [0xAB]\<rparr>)],
      resp_authorities = [], resp_additionals = [Pseudo root additional_record]\<rparr>"

lemma json_response_keys_once_witness:
  "\<exists>v. json_response (\<lambda>_. ''...'') sample_response = (Ok v :: (WireError, JsonValue) outcome) \<and> keys_once v"
proof -
  obtain v where "json_response (\<lambda>_. ''...'') sample_response = (Ok v :: (WireError, JsonValue) outcome)"
    by (auto simp: json_response_def sample_response_def json_answers_def)
  with json_response_keys_once [OF this] show ?thesis by blast
qed


subsection \<open>Different flags and questions have different documents\<close>

text \<open>Reading the documents back: what number of type, class or response code they are for.\<close>

fun type_of_json :: "JsonValue \<Rightarrow> u16 option" where
  "type_of_json (J_String name) = map_option type_number (from_type_name name)"
| "type_of_json (J_Number n) = Some (word_of_nat n)"
| "type_of_json _ = None"

lemma json_known_types: "list_all (\<lambda>(t, name). json_record_type_name t = J_String name) known_types"
  by (simp add: known_types_def)

lemma registered_type: "(n, name) \<in> set RECORD_TYPES \<Longrightarrow> type_of_json (J_String name) = Some n"
  using registry_names_agree by (auto simp: list_all_iff names_agree_def type_number_record_type_from)

lemma record_type_name_in: "record_type_name n = Some name \<Longrightarrow> (n, name) \<in> set RECORD_TYPES"
  by (auto simp: record_type_name_def dest!: find_SomeD split: prod.splits)

lemma type_of_json_name: "type_of_json (json_record_type_name (record_type_from n)) = Some n"
proof (cases "find (\<lambda>(t, _). type_number t = n) known_types")
  case None
  then show ?thesis
    by (auto simp: record_type_from_def unknown_from_u16_def dest!: record_type_name_in
        simp del: type_of_json.simps(1) simp: registered_type split: option.split)
next
  case (Some kt)
  obtain t name where kt: "kt = (t, name)" by (cases kt)
  with find_SomeD [OF Some] have "type_number t = n" "(t, name) \<in> set known_types" by auto
  with known_types_registered [OF this(2)] registered_type json_known_types Some kt show ?thesis
    by (auto simp: record_type_from_def list_all_iff simp del: type_of_json.simps(1))
qed

fun class_of_json :: "JsonValue \<Rightarrow> QClass" where
  "class_of_json (J_String name) = (if name = ''IN'' then IN else if name = ''CH'' then CH else HS)"
| "class_of_json (J_Number n) = QC_Other (word_of_nat n)"
| "class_of_json _ = IN"

lemma class_of_json_class: "class_of_json (json_class c) = c"
  by (cases c) simp_all

lemma json_opcode_inject: "json_opcode a = json_opcode b \<longleftrightarrow> a = b"
  by (cases a; cases b) (auto simp: word_unat_eq_iff)

lemma json_rcode_inject:
  "json_rcode (error_code_from_bits a) = json_rcode (error_code_from_bits b) \<longleftrightarrow> a = b"
proof
  assume eq: "json_rcode (error_code_from_bits a) = json_rcode (error_code_from_bits b)"
  show "a = b"
    using eq unfolding error_code_from_bits_def by (simp add: word_unat_eq_iff [symmetric] split: if_splits)
qed simp

text \<open>What a parsed response's flags and questions are like.\<close>

definition read_flags :: "Flags \<Rightarrow> bool" where
  "read_flags f \<longleftrightarrow> (\<exists>bits. flag_error_code f = error_code_from_bits bits)"

definition read_query :: "Query \<Rightarrow> bool" where
  "read_query q \<longleftrightarrow> [] \<notin> set (segments (query_qname q)) \<and> (\<exists>n. query_qtype q = record_type_from n)"

lemma read_flags_bits: "read_flags (flags_from_u16 bits)" "read_flags (f\<lparr>flag_error_code := error_code_from_bits n\<rparr>)"
  by (auto simp: read_flags_def flags_from_u16_def)

lemma name_at_nonempty: "name_at buf p hops segs n \<Longrightarrow> [] \<notin> set segs"
  by (induction rule: name_at.induct) (auto simp: word_neq_0_conv word_less_nat_alt)

lemma yields_labels: "length buf < 65536 \<Longrightarrow> yields buf read_labels (\<lambda>(name, _). [] \<notin> set (segments name))"
  by (auto simp: yields_def elim!: name_at_read_labels dest: name_at_nonempty)

lemma yields_queries: "length buf < 65536 \<Longrightarrow> yields buf (read_section count query_from_bytes) (list_all read_query)"
proof -
  have "yields buf (query_from_bytes name) read_query" if "[] \<notin> set (segments name)" for name
    using that unfolding query_from_bytes_def Let_def
    by (intro yields_rules) (auto simp: read_query_def)
  then show "length buf < 65536 \<Longrightarrow> ?thesis"
    unfolding read_section_def by (intro yields_entries [OF yields_labels]) simp_all
qed

lemma response_read:
  assumes "response_from_bytes bytes = Ok r" and "length bytes < 65536"
  shows "read_flags (resp_flags r)" "list_all read_query (resp_queries r)"
proof -
  have "yields bytes read_response (\<lambda>r. read_flags (resp_flags r) \<and> list_all read_query (resp_queries r))"
    unfolding read_response_def Let_def
    by (auto simp: read_flags_bits split: prod.split option.split
        intro!: yields_bind_any [where m = read_u16] yields_bind_any [where m = read_counts]
          yields_bind [OF yields_queries [OF assms(2)]]
          yields_bind_any [where m = "read_section _ answer_from_bytes"] yields_ret)
  with assms(1) show "read_flags (resp_flags r)" "list_all read_query (resp_queries r)"
    by (auto simp: response_from_bytes_def bind_outcome_Ok_iff yields_def)
qed

lemma json_queries_inject:
  assumes "list_all read_query qs" and "list_all read_query qs'" and "json_queries qs = json_queries qs'"
  shows "qs = qs'"
proof -
  have "q = q'" if "read_query q" "read_query q'"
    "display_labels (query_qname q) = display_labels (query_qname q')"
    "json_class (query_qclass q) = json_class (query_qclass q')"
    "json_record_type_name (query_qtype q) = json_record_type_name (query_qtype q')" for q q'
  proof -
    have "segments (query_qname q) = segments (query_qname q')"
      using that(1,2,3) parse_name_display [of "query_qname q"] parse_name_display [of "query_qname q'"]
      unfolding read_query_def by metis
    moreover have "query_qclass q = query_qclass q'" using that(4) class_of_json_class by metis
    moreover have "query_qtype q = query_qtype q'"
      using that(1,2,5) type_of_json_name unfolding read_query_def by (metis option.inject)
    ultimately show ?thesis by simp
  qed
  note same = this
  show ?thesis
    using assms
  proof (induction qs arbitrary: qs')
    case Nil
    then show ?case by (simp add: json_queries_def)
  next
    case (Cons q qs)
    then obtain q' rest where qs': "qs' = q' # rest" by (cases qs') (auto simp: json_queries_def)
    with Cons.prems have "json_queries qs = json_queries rest" by (simp add: json_queries_def)
    with Cons qs' have "qs = rest" by simp
    moreover have "q = q'" by (rule same) (use Cons.prems qs' in \<open>simp_all add: json_queries_def\<close>)
    ultimately show ?case by (simp add: qs')
  qed
qed

text \<open>
  C38: The document of a response tells its flags, its response code and its questions: of two
  responses that have been parsed, whatever packets they came in, those with the same document
  have the same flags and the same questions, with the same names, classes and types.
\<close>

theorem json_response_tells_apart:
  assumes "response_from_bytes a = Ok r" and "response_from_bytes b = Ok s"
    and "length a < 65536" and "length b < 65536"
    and "json_response base64 r = (json_response base64 s :: ('e, JsonValue) outcome)"
  shows "resp_flags r = resp_flags s \<and> resp_queries r = resp_queries s"
proof -
  obtain v where v: "(json_response base64 r :: ('e, JsonValue) outcome) = Ok v"
    using showable_json [OF response_showable [OF assms(1)]] by blast
  with assms(5) have same: "json_flags (resp_flags r) = json_flags (resp_flags s)"
    "json_queries (resp_queries r) = json_queries (resp_queries s)"
    by (auto simp: json_response_def bind_outcome_Ok_iff dest!: sym [of "Ok v"])
  obtain m n where "flag_error_code (resp_flags r) = error_code_from_bits m"
    "flag_error_code (resp_flags s) = error_code_from_bits n"
    using response_read(1) assms unfolding read_flags_def by metis
  with same(1) have "resp_flags r = resp_flags s"
    by (auto simp: json_flags_def json_opcode_inject json_rcode_inject)
  moreover have "resp_queries r = resp_queries s"
    using json_queries_inject [OF _ _ same(2)] response_read(2) assms by metis
  ultimately show ?thesis ..
qed

lemma header_only_response:
  "response_from_bytes [0, n, 0x81, 0x80, 0, 0, 0, 0, 0, 0, 0, 0]
   = Ok \<lparr>resp_transaction_id = be16 0 n, resp_flags = flags_from_u16 0x8180,
         resp_queries = [], resp_answers = [], resp_authorities = [], resp_additionals = []\<rparr>"
  by (simp add: response_from_bytes_def read_response_def read_counts_def read_section_def bind_def ret_def
      read_u16_def read_exact_def Let_def be16_def extended_rcode_def find_map_def List.map_filter_simps)

lemma json_response_tells_apart_witness:
  "\<exists>r s. response_from_bytes [0, 1, 0x81, 0x80, 0, 0, 0, 0, 0, 0, 0, 0] = Ok r
     \<and> response_from_bytes [0, 2, 0x81, 0x80, 0, 0, 0, 0, 0, 0, 0, 0] = Ok s \<and> resp_flags r = resp_flags s"
  using json_response_tells_apart [OF header_only_response [of 1] header_only_response [of 2], of "\<lambda>_. []"]
    header_only_response [of 1] header_only_response [of 2]
  by (auto simp: json_response_def json_answers_def json_flags_def json_queries_def)

end
