(* ===== verification/Table.thy ===== *)
theory Table
  imports Output_Text
begin

text \<open>
  The table of records (\<open>src/table.rs\<close>) and its colours (\<open>src/colours.rs\<close>). Styles and what they do to
  text are the \<open>nu_ansi_term\<close> package's, so they are parameters: \<open>'s\<close> is its type of styles, and a
  value of \<open>terminal\<close> has its functions. A string with a style is a pair.
\<close>

subsection \<open>Colours\<close>

datatype Color = Blue | Cyan | Green | Purple | Red | White | Yellow

record 's terminal =
  bold :: "Color \<Rightarrow> 's"
  normal :: "Color \<Rightarrow> 's"
  on_colour :: "Color \<Rightarrow> Color \<Rightarrow> 's"
  style_default :: 's
  painted :: "'s \<times> string \<Rightarrow> string"

record 's Colours =
  colour_qname :: 's
  colour_answer :: 's
  colour_authority :: 's
  colour_additional :: 's
  colour_a :: 's
  colour_aaaa :: 's
  colour_caa :: 's
  colour_cname :: 's
  colour_dnskey :: 's
  colour_ds :: 's
  colour_eui48 :: 's
  colour_eui64 :: 's
  colour_hinfo :: 's
  colour_loc :: 's
  colour_mx :: 's
  colour_ns :: 's
  colour_nsec :: 's
  colour_naptr :: 's
  colour_openpgpkey :: 's
  colour_opt :: 's
  colour_ptr :: 's
  colour_rrsig :: 's
  colour_sshfp :: 's
  colour_soa :: 's
  colour_srv :: 's
  colour_tlsa :: 's
  colour_txt :: 's
  colour_uri :: 's
  colour_unknown :: 's

definition pretty :: "'s terminal \<Rightarrow> 's Colours" where
  "pretty t =
     \<lparr>colour_qname = bold t Blue, colour_answer = style_default t,
      colour_authority = normal t Cyan, colour_additional = normal t Green,
      colour_a = bold t Green, colour_aaaa = bold t Green, colour_caa = normal t Red,
      colour_cname = normal t Yellow, colour_dnskey = normal t Purple, colour_ds = normal t Purple,
      colour_eui48 = normal t Yellow, colour_eui64 = bold t Yellow, colour_hinfo = normal t Yellow,
      colour_loc = normal t Yellow, colour_mx = normal t Cyan, colour_ns = normal t Red,
      colour_nsec = normal t Purple, colour_naptr = normal t Green,
      colour_openpgpkey = normal t Cyan, colour_opt = normal t Purple, colour_ptr = normal t Red,
      colour_rrsig = normal t Purple, colour_sshfp = normal t Cyan, colour_soa = normal t Purple,
      colour_srv = normal t Cyan, colour_tlsa = normal t Yellow, colour_txt = normal t Yellow,
      colour_uri = normal t Yellow, colour_unknown = on_colour t White Red\<rparr>"

definition plain :: "'s terminal \<Rightarrow> 's Colours" where
  "plain t =
     (let d = style_default t in
      \<lparr>colour_qname = d, colour_answer = d, colour_authority = d, colour_additional = d,
       colour_a = d, colour_aaaa = d, colour_caa = d, colour_cname = d, colour_dnskey = d,
       colour_ds = d, colour_eui48 = d, colour_eui64 = d, colour_hinfo = d, colour_loc = d,
       colour_mx = d, colour_ns = d, colour_nsec = d, colour_naptr = d, colour_openpgpkey = d,
       colour_opt = d, colour_ptr = d, colour_rrsig = d, colour_sshfp = d, colour_soa = d,
       colour_srv = d, colour_tlsa = d, colour_txt = d, colour_uri = d, colour_unknown = d\<rparr>)"

text \<open>The variables of the environment are bytes; dog only compares them.\<close>

definition wants_colour :: "bool \<Rightarrow> string option \<Rightarrow> string option \<Rightarrow> bool" where
  "wants_colour is_terminal no_color term =
     (is_terminal \<and> (case no_color of None \<Rightarrow> True | Some v \<Rightarrow> v = [])
      \<and> (case term of None \<Rightarrow> True | Some v \<Rightarrow> v \<noteq> ''dumb''))"

record environment =
  stdout_is_terminal :: bool
  env_no_color :: "string option"
  env_term :: "string option"

definition should_use_colours :: "environment \<Rightarrow> UseColours \<Rightarrow> bool" where
  "should_use_colours env uc =
     (uc = Always \<or> (uc = Automatic_Colours
        \<and> wants_colour (stdout_is_terminal env) (env_no_color env) (env_term env)))"

definition palette :: "environment \<Rightarrow> 's terminal \<Rightarrow> UseColours \<Rightarrow> 's Colours" where
  "palette env t uc = (if should_use_colours env uc then pretty t else plain t)"


subsection \<open>Rows\<close>

datatype Section = Answer | Authority | Additional

record 's Row =
  row_qtype :: "'s \<times> string"
  row_qname :: string
  row_ttl :: "string option"
  row_section :: Section
  row_summary :: string

record 's Table =
  table_colours :: "'s Colours"
  table_text_format :: TextFormat
  table_rows :: "'s Row list"

definition table_new :: "'s Colours \<Rightarrow> TextFormat \<Rightarrow> 's Table" where
  "table_new colours tf = \<lparr>table_colours = colours, table_text_format = tf, table_rows = []\<rparr>"

fun coloured_record_type :: "'s Colours \<Rightarrow> Record \<Rightarrow> 's \<times> string" where
  "coloured_record_type c (R_A _) = (colour_a c, ''A'')"
| "coloured_record_type c (R_AAAA _) = (colour_aaaa c, ''AAAA'')"
| "coloured_record_type c (R_CAA _) = (colour_caa c, ''CAA'')"
| "coloured_record_type c (R_CNAME _) = (colour_cname c, ''CNAME'')"
| "coloured_record_type c (R_DNSKEY _) = (colour_dnskey c, ''DNSKEY'')"
| "coloured_record_type c (R_DS _) = (colour_ds c, ''DS'')"
| "coloured_record_type c (R_EUI48 _) = (colour_eui48 c, ''EUI48'')"
| "coloured_record_type c (R_EUI64 _) = (colour_eui64 c, ''EUI64'')"
| "coloured_record_type c (R_HINFO _) = (colour_hinfo c, ''HINFO'')"
| "coloured_record_type c (R_LOC _) = (colour_loc c, ''LOC'')"
| "coloured_record_type c (R_MX _) = (colour_mx c, ''MX'')"
| "coloured_record_type c (R_NAPTR _) = (colour_naptr c, ''NAPTR'')"
| "coloured_record_type c (R_NS _) = (colour_ns c, ''NS'')"
| "coloured_record_type c (R_NSEC _) = (colour_nsec c, ''NSEC'')"
| "coloured_record_type c (R_OPENPGPKEY _) = (colour_openpgpkey c, ''OPENPGPKEY'')"
| "coloured_record_type c (R_PTR _) = (colour_ptr c, ''PTR'')"
| "coloured_record_type c (R_RRSIG _) = (colour_rrsig c, ''RRSIG'')"
| "coloured_record_type c (R_SSHFP _) = (colour_sshfp c, ''SSHFP'')"
| "coloured_record_type c (R_SOA _) = (colour_soa c, ''SOA'')"
| "coloured_record_type c (R_SRV _) = (colour_srv c, ''SRV'')"
| "coloured_record_type c (R_TLSA _) = (colour_tlsa c, ''TLSA'')"
| "coloured_record_type c (R_TXT _) = (colour_txt c, ''TXT'')"
| "coloured_record_type c (R_URI _) = (colour_uri c, ''URI'')"
| "coloured_record_type c (R_Other unknown _) = (colour_unknown c, display_unknown unknown)"

fun add_row :: "(u8 list \<Rightarrow> string) \<Rightarrow> Answer \<Rightarrow> Section \<Rightarrow> 's Table \<Rightarrow> ('e, 's Table) outcome" where
  "add_row base64 (Standard qname qclass ttl rec) section table =
     (let qtype = coloured_record_type (table_colours table) rec;
          qname = display_labels qname
      in bind_outcome (record_payload_summary base64 (table_text_format table) rec) (\<lambda>summary.
         let ttl = Some (format_duration (table_text_format table) ttl)
         in Ok (table\<lparr>table_rows := table_rows table
              @ [\<lparr>row_qtype = qtype, row_qname = qname, row_ttl = ttl, row_section = section, row_summary = summary\<rparr>]\<rparr>)))"
| "add_row base64 (Pseudo qname opt) section table =
     (let qtype = (colour_opt (table_colours table), ''OPT'');
          qname = display_labels qname;
          summary = pseudo_record_payload_summary opt
      in Ok (table\<lparr>table_rows := table_rows table
           @ [\<lparr>row_qtype = qtype, row_qname = qname, row_ttl = None, row_section = section, row_summary = summary\<rparr>]\<rparr>))"


subsection \<open>Lines\<close>

record Widths =
  width_qtype :: nat
  width_qname :: nat
  width_ttl :: nat

definition padding :: "nat \<Rightarrow> string" where
  "padding width = replicate width CHR '' ''"

text \<open>\<open>.max().unwrap()\<close>, and a difference of lengths, each of which panics where there is none.\<close>

definition max_or_panic :: "nat list \<Rightarrow> ('e, nat) outcome" where
  "max_or_panic ns = (case ns of [] \<Rightarrow> Panic | n # ns \<Rightarrow> Ok (foldl max n ns))"

definition less_or_panic :: "nat \<Rightarrow> nat \<Rightarrow> ('e, nat) outcome" where
  "less_or_panic a b = (if b \<le> a then Ok (a - b) else Panic)"

definition ttl_length :: "'s Row \<Rightarrow> nat" where
  "ttl_length row = (case row_ttl row of Some ttl \<Rightarrow> length ttl | None \<Rightarrow> 0)"

definition max_qtype_len :: "'s Row list \<Rightarrow> ('e, nat) outcome" where
  "max_qtype_len rows = max_or_panic (map (\<lambda>r. length (snd (row_qtype r))) rows)"

definition max_qname_len :: "'s Row list \<Rightarrow> ('e, nat) outcome" where
  "max_qname_len rows = max_or_panic (map (\<lambda>r. length (row_qname r)) rows)"

definition max_ttl_len :: "'s Row list \<Rightarrow> ('e, nat) outcome" where
  "max_ttl_len rows = max_or_panic (map ttl_length rows)"

definition format_section :: "'s Colours \<Rightarrow> Section \<Rightarrow> 's \<times> string" where
  "format_section colours section =
     (case section of
        Answer \<Rightarrow> (colour_answer colours, '' '')
      | Authority \<Rightarrow> (colour_authority colours, ''A'')
      | Additional \<Rightarrow> (colour_additional colours, ''+''))"

definition format_row :: "'s terminal \<Rightarrow> 's Colours \<Rightarrow> Widths \<Rightarrow> 's Row \<Rightarrow> ('e, string) outcome" where
  "format_row t colours widths row =
     bind_outcome
       (case row_ttl row of
          Some ttl \<Rightarrow> bind_outcome (less_or_panic (width_ttl widths) (length ttl)) (\<lambda>n. Ok (padding n @ ttl))
        | None \<Rightarrow> Ok (padding (width_ttl widths))) (\<lambda>ttl.
     bind_outcome (less_or_panic (width_qtype widths) (length (snd (row_qtype row)))) (\<lambda>before_qtype.
     bind_outcome (less_or_panic (width_qname widths) (length (row_qname row))) (\<lambda>after_qname.
     Ok (padding before_qtype @ painted t (row_qtype row) @ '' ''
         @ painted t (colour_qname colours, row_qname row) @ padding after_qname @ '' '' @ ttl @ '' ''
         @ painted t (format_section colours (row_section row)) @ '' '' @ row_summary row))))"

definition table_lines :: "'s terminal \<Rightarrow> 's Table \<Rightarrow> ('e, string list) outcome" where
  "table_lines t table =
     (let rows = table_rows table in
      if rows = [] then Ok []
      else
        bind_outcome (max_qtype_len rows) (\<lambda>qtype.
        bind_outcome (max_qname_len rows) (\<lambda>qname.
        bind_outcome (max_ttl_len rows) (\<lambda>ttl.
        let widths = \<lparr>width_qtype = qtype, width_qname = qname, width_ttl = ttl\<rparr>
        in collect_outcome (format_row t (table_colours table) widths) rows))))"


subsection \<open>Columns line up\<close>

lemma foldl_max: "n \<le> m \<or> n \<in> set ms \<Longrightarrow> n \<le> foldl max (m :: nat) ms"
  by (induction ms arbitrary: m) (auto simp: le_max_iff_disj)

lemma max_or_panic_Ok: "ns \<noteq> [] \<Longrightarrow> \<exists>m. max_or_panic ns = Ok m \<and> list_all (\<lambda>n. n \<le> m) ns"
proof (cases ns)
  case (Cons n ns)
  then show ?thesis
    using foldl_max [of n n ns] foldl_max [of _ n ns] by (auto simp: max_or_panic_def list_all_iff)
qed simp

text \<open>
  A line of three columns of the same width in every row, blanks apart: the type to the right, the
  name to the left, and the TTL to the right, or none.
\<close>

definition lined_up :: "'s terminal \<Rightarrow> 's Colours \<Rightarrow> nat \<Rightarrow> nat \<Rightarrow> nat \<Rightarrow> 's Row \<Rightarrow> string \<Rightarrow> bool" where
  "lined_up t colours w1 w2 w3 row line \<longleftrightarrow>
     (\<exists>n1 n2 n3. n1 + length (snd (row_qtype row)) = w1 \<and> length (row_qname row) + n2 = w2
        \<and> n3 + ttl_length row = w3
        \<and> line = padding n1 @ painted t (row_qtype row) @ '' ''
            @ painted t (colour_qname colours, row_qname row) @ padding n2 @ '' ''
            @ padding n3 @ (case row_ttl row of Some ttl \<Rightarrow> ttl | None \<Rightarrow> []) @ '' ''
            @ painted t (format_section colours (row_section row)) @ '' '' @ row_summary row)"

lemma format_row_lined_up:
  assumes "length (snd (row_qtype row)) \<le> width_qtype w" "length (row_qname row) \<le> width_qname w"
    and "ttl_length row \<le> width_ttl w"
  shows "\<exists>line. format_row t colours w row = Ok line
    \<and> lined_up t colours (width_qtype w) (width_qname w) (width_ttl w) row line"
proof -
  let ?n1 = "width_qtype w - length (snd (row_qtype row))" and ?n2 = "width_qname w - length (row_qname row)"
    and ?n3 = "width_ttl w - ttl_length row"
  let ?line = "padding ?n1 @ painted t (row_qtype row) @ '' ''
      @ painted t (colour_qname colours, row_qname row) @ padding ?n2 @ '' ''
      @ padding ?n3 @ (case row_ttl row of Some ttl \<Rightarrow> ttl | None \<Rightarrow> []) @ '' ''
      @ painted t (format_section colours (row_section row)) @ '' '' @ row_summary row"
  have "format_row t colours w row = Ok ?line"
    using assms
    by (cases "row_ttl row") (simp_all add: format_row_def less_or_panic_def ttl_length_def)
  moreover have "lined_up t colours (width_qtype w) (width_qname w) (width_ttl w) row ?line"
    unfolding lined_up_def
    by (rule exI [of _ ?n1], rule exI [of _ ?n2], rule exI [of _ ?n3]) (use assms in simp)
  ultimately show ?thesis by blast
qed

lemma table_lines_lined_up:
  "\<exists>w1 w2 w3 lines. table_lines t table = (Ok lines :: ('e, string list) outcome)
     \<and> list_all2 (lined_up t (table_colours table) w1 w2 w3) (table_rows table) lines"
proof (cases "table_rows table")
  case Nil
  then show ?thesis by (simp add: table_lines_def)
next
  case (Cons row rows)
  let ?rows = "table_rows table"
  have ne: "?rows \<noteq> []" using Cons by simp
  obtain w1 where w1: "max_qtype_len ?rows = (Ok w1 :: ('e, nat) outcome)"
    "list_all (\<lambda>r. length (snd (row_qtype r)) \<le> w1) ?rows"
    using max_or_panic_Ok [of "map (\<lambda>r. length (snd (row_qtype r))) ?rows"] ne
    by (auto simp: max_qtype_len_def list.pred_map comp_def)
  obtain w2 where w2: "max_qname_len ?rows = (Ok w2 :: ('e, nat) outcome)"
    "list_all (\<lambda>r. length (row_qname r) \<le> w2) ?rows"
    using max_or_panic_Ok [of "map (\<lambda>r. length (row_qname r)) ?rows"] ne
    by (auto simp: max_qname_len_def list.pred_map comp_def)
  obtain w3 where w3: "max_ttl_len ?rows = (Ok w3 :: ('e, nat) outcome)"
    "list_all (\<lambda>r. ttl_length r \<le> w3) ?rows"
    using max_or_panic_Ok [of "map ttl_length ?rows"] ne
    by (auto simp: max_ttl_len_def list.pred_map comp_def)
  let ?w = "\<lparr>width_qtype = w1, width_qname = w2, width_ttl = w3\<rparr>"
  have "\<exists>line. format_row t (table_colours table) ?w r = (Ok line :: ('e, string) outcome)
      \<and> lined_up t (table_colours table) w1 w2 w3 r line" if "r \<in> set ?rows" for r
    using format_row_lined_up [of r ?w] that w1(2) w2(2) w3(2) by (simp add: list_all_iff)
  then obtain f where f: "\<And>r. r \<in> set ?rows \<Longrightarrow>
      format_row t (table_colours table) ?w r = (Ok (f r) :: ('e, string) outcome)
      \<and> lined_up t (table_colours table) w1 w2 w3 r (f r)"
    by metis
  have "table_lines t table = (Ok (map f ?rows) :: ('e, string list) outcome)"
    using f ne w1(1) w2(1) w3(1)
    by (simp add: table_lines_def Let_def collect_outcome_Ok_iff list_all2_conv_all_nth)
  moreover have "list_all2 (lined_up t (table_colours table) w1 w2 w3) ?rows (map f ?rows)"
    using f by (simp add: list_all2_conv_all_nth)
  ultimately show ?thesis by blast
qed

lemma table_lines_total: "\<exists>lines. table_lines t table = (Ok lines :: ('e, string list) outcome)"
  using table_lines_lined_up by blast

text \<open>
  C39: Every table can be printed, with one line for each row in order, and no width is taken
  below zero: there are three widths such that in every line the type is moved to the right, the
  name to the left and the TTL to the right of a column that wide, whatever is in the rows; only
  what is painted around the texts comes on top. A row with no TTL has blanks in its place.
\<close>

theorem table_lines_up:
  "\<exists>w1 w2 w3 lines. table_lines t table = (Ok lines :: ('e, string list) outcome)
     \<and> list_all2 (lined_up t (table_colours table) w1 w2 w3) (table_rows table) lines"
  by (rule table_lines_lined_up)

end
