(* ===== verification/Output.thy ===== *)
theory Output
  imports Json Table Net
begin

text \<open>
  What dog prints (\<open>src/output.rs\<close>, \<open>src/stderr.rs\<close>): responses in the three formats on standard
  output, and errors on standard error. The formats are shown to write one document each, and a
  prefix of it where standard output fails.
\<close>

subsection \<open>Standard output and standard error\<close>

text \<open>
  Standard output takes all of what is written, or so many more bytes before it fails. What is
  written to standard error is the list of its lines; dog goes on when they cannot be written.
\<close>

record console =
  out_text :: string
  out_fails :: "(nat \<times> io_kind) option"
  flush_fails :: "io_kind option"
  err_lines :: "string list"

type_synonym 'a printing = "console \<Rightarrow> (io_kind, 'a) outcome \<times> console"

definition write_out :: "string \<Rightarrow> unit printing" where
  "write_out s c =
     (case out_fails c of
        None \<Rightarrow> (Ok (), c\<lparr>out_text := out_text c @ s\<rparr>)
      | Some (room, k) \<Rightarrow>
          if length s \<le> room
          then (Ok (), c\<lparr>out_text := out_text c @ s, out_fails := Some (room - length s, k)\<rparr>)
          else (Err k, c\<lparr>out_text := out_text c @ take room s, out_fails := Some (0, k)\<rparr>))"

definition newline :: string where "newline = [CHR 0x0A]"

definition writeln_out :: "string \<Rightarrow> unit printing" where
  "writeln_out s = write_out (s @ newline)"

definition flush :: "unit printing" where
  "flush c = (case flush_fails c of Some k \<Rightarrow> (Err k, c) | None \<Rightarrow> (Ok (), c))"

definition stderr_line :: "string \<Rightarrow> console \<Rightarrow> console" where
  "stderr_line s c = c\<lparr>err_lines := err_lines c @ [s]\<rparr>"

fun for_each :: "('a \<Rightarrow> unit printing) \<Rightarrow> 'a list \<Rightarrow> unit printing" where
  "for_each f [] = just (Ok ())"
| "for_each f (x # xs) = and_then (f x) (\<lambda>_. for_each f xs)"

text \<open>
  The parts that come from elsewhere: base64, JSON as text, the messages of the errors of the
  standard library and of other packages, \<open>{:?}\<close> of a duration and of text, and the terminal's styles.
\<close>

record 's outside =
  base64 :: "u8 list \<Rightarrow> string"
  json_text :: "JsonValue \<Rightarrow> string"
  io_text :: "io_kind \<Rightarrow> string"
  tls_text :: "tls_error \<Rightarrow> string"
  http_text :: "http_parse_error \<Rightarrow> string"
  duration_text :: "nat \<Rightarrow> string"
  quote_text :: "string \<Rightarrow> string"
  styles :: "'s terminal"


subsection \<open>Short format\<close>

fun answer_summary :: "'s outside \<Rightarrow> TextFormat \<Rightarrow> Answer \<Rightarrow> ('e, string) outcome" where
  "answer_summary os tf (Standard _ _ _ rec) = record_payload_summary (base64 os) tf rec"
| "answer_summary os tf (Pseudo _ opt) = Ok (pseudo_record_payload_summary opt)"

definition print_short :: "'s outside \<Rightarrow> TextFormat \<Rightarrow> Response list \<Rightarrow> bool printing" where
  "print_short os tf responses c =
     (let all_answers = concat (map resp_answers responses) in
      if all_answers = [] then (Ok False, stderr_line ''No results'' c)
      else
        and_then
          (for_each (\<lambda>answer. and_then (just (answer_summary os tf answer)) writeln_out) all_answers)
          (\<lambda>_. just (Ok True)) c)"


subsection \<open>JSON\<close>

text \<open>Durations are numbers of nanoseconds.\<close>

definition as_secs :: "nat \<Rightarrow> nat" where "as_secs d = d div 10 ^ 9"
definition as_millis :: "nat \<Rightarrow> nat" where "as_millis d = d div 10 ^ 6"
definition subsec_millis :: "nat \<Rightarrow> nat" where "subsec_millis d = d mod 10 ^ 9 div 10 ^ 6"

definition print_json :: "'s outside \<Rightarrow> Response list \<Rightarrow> nat option \<Rightarrow> unit printing" where
  "print_json os responses duration =
     and_then (just (collect_outcome (json_response (base64 os)) responses)) (\<lambda>responses.
     let object =
       (case duration of
          Some duration \<Rightarrow> J_Object
            [(''responses'', J_Array responses),
             (''duration'', J_Object
               [(''secs'', J_Number (as_secs duration)), (''millis'', J_Number (subsec_millis duration))])]
        | None \<Rightarrow> J_Object [(''responses'', J_Array responses)])
     in writeln_out (json_text os object))"


subsection \<open>Text\<close>

fun error_code_description :: "ErrorCode \<Rightarrow> string" where
  "error_code_description FormatError = ''Format Error''"
| "error_code_description ServerFailure = ''Server Failure''"
| "error_code_description NXDomain = ''NXDomain''"
| "error_code_description NotImplemented = ''Not Implemented''"
| "error_code_description QueryRefused = ''Query Refused''"
| "error_code_description BadVersion = ''Bad Version''"
| "error_code_description (EC_Private n) = ''Private Reason ('' @ dec (unat n) @ '')''"
| "error_code_description (EC_Other n) = ''Other Failure ('' @ dec (unat n) @ '')''"

definition table_print :: "'s outside \<Rightarrow> 's Table \<Rightarrow> nat option \<Rightarrow> unit printing" where
  "table_print os table duration =
     and_then (just (table_lines (styles os) table)) (\<lambda>lines.
     and_then (for_each writeln_out lines) (\<lambda>_.
     case duration of
       Some dur \<Rightarrow> writeln_out (''Ran in '' @ dec (as_millis dur) @ ''ms'')
     | None \<Rightarrow> just (Ok ())))"

fun add_rows :: "'s outside \<Rightarrow> Section \<Rightarrow> Answer list \<Rightarrow> 's Table \<Rightarrow> ('e, 's Table) outcome" where
  "add_rows os section [] table = Ok table"
| "add_rows os section (a # as) table =
     bind_outcome (add_row (base64 os) a section table) (\<lambda>table. add_rows os section as table)"

fun print_statuses :: "'s outside \<Rightarrow> Response list \<Rightarrow> 's Table \<Rightarrow> 's Table printing" where
  "print_statuses os [] table = just (Ok table)"
| "print_statuses os (response # responses) table =
     and_then
       (case flag_error_code (resp_flags response) of
          Some rcode \<Rightarrow> writeln_out (''Status: '' @ error_code_description rcode)
        | None \<Rightarrow> just (Ok ())) (\<lambda>_.
     and_then (just (add_rows os Answer (resp_answers response) table)) (\<lambda>table.
     and_then (just (add_rows os Authority (resp_authorities response) table)) (\<lambda>table.
     and_then (just (add_rows os Additional (resp_additionals response) table)) (\<lambda>table.
     print_statuses os responses table))))"

definition print_text ::
  "'s outside \<Rightarrow> environment \<Rightarrow> UseColours \<Rightarrow> TextFormat \<Rightarrow> Response list \<Rightarrow> nat option \<Rightarrow> unit printing" where
  "print_text os env uc tf responses duration =
     (let table = table_new (palette env (styles os) uc) tf in
      and_then (print_statuses os responses table) (\<lambda>table. table_print os table duration))"

definition print :: "'s outside \<Rightarrow> environment \<Rightarrow> OutputFormat \<Rightarrow> Response list \<Rightarrow> nat option \<Rightarrow> bool printing" where
  "print os env fmt responses duration =
     and_then
       (case fmt of
          Short tf \<Rightarrow> print_short os tf responses
        | JSON \<Rightarrow> and_then (print_json os responses duration) (\<lambda>_. just (Ok True))
        | Text uc tf \<Rightarrow> and_then (print_text os env uc tf responses duration) (\<lambda>_. just (Ok True))) (\<lambda>printed.
     and_then flush (\<lambda>_. just (Ok printed)))"


subsection \<open>Errors\<close>

fun erroneous_phase :: "Error \<Rightarrow> string" where
  "erroneous_phase (E_WireError _) = ''protocol''"
| "erroneous_phase (E_MismatchedResponse _) = ''protocol''"
| "erroneous_phase E_TruncatedResponse = ''network''"
| "erroneous_phase (E_NetworkError _) = ''network''"
| "erroneous_phase (E_Timeout _) = ''network''"
| "erroneous_phase (E_InvalidNameserver _) = ''options''"
| "erroneous_phase (E_TlsError _) = ''tls''"
| "erroneous_phase (E_TlsHandshakeError _) = ''tls''"
| "erroneous_phase (E_HttpError _) = ''http''"
| "erroneous_phase (E_WrongHttpStatus _ _) = ''http''"
| "erroneous_phase (E_MalformedHttp _) = ''http''"

definition http_status_message :: "u16 \<Rightarrow> string option \<Rightarrow> string" where
  "http_status_message status reason =
     (case (case reason of Some reason \<Rightarrow> if reason \<noteq> [] then Some reason else None | None \<Rightarrow> None) of
        Some reason \<Rightarrow> ''Nameserver returned HTTP '' @ dec (unat status) @ '' ('' @ reason @ '')''
      | None \<Rightarrow> ''Nameserver returned HTTP '' @ dec (unat status))"

text \<open>\<open>{indices:?}\<close>, a list of offsets.\<close>

definition debug_offsets :: "u16 list \<Rightarrow> string" where
  "debug_offsets ns = ''['' @ join '', '' (map (\<lambda>n. dec (unat n)) ns) @ '']''"

fun wire_error_message :: "WireError \<Rightarrow> string" where
  "wire_error_message IO = ''Malformed packet: insufficient data''"
| "wire_error_message (WrongRecordLength stated (Exactly len)) =
     ''Malformed packet: record length should be '' @ dec (unat len) @ '', got '' @ dec (unat stated)"
| "wire_error_message (WrongRecordLength stated (AtLeast len)) =
     ''Malformed packet: record length should be at least '' @ dec (unat len) @ '', got '' @ dec (unat stated)"
| "wire_error_message (WrongLabelLength stated after_labels) =
     ''Malformed packet: length '' @ dec (unat stated) @ '' was specified, but read '' @ dec (unat after_labels) @ '' bytes''"
| "wire_error_message (TooMuchRecursion indices) =
     ''Malformed packet: too much recursion: '' @ debug_offsets indices"
| "wire_error_message (OutOfBounds index) = ''Malformed packet: out of bounds ('' @ dec (unat index) @ '')''"
| "wire_error_message (WrongVersion stated maximum) =
     ''Malformed packet: record specifies version '' @ dec (unat stated) @ '', expected up to '' @ dec (unat maximum)"

text \<open>The messages that the transports make of what they were given.\<close>

fun show_invalid_address :: "'s outside \<Rightarrow> InvalidAddress \<Rightarrow> string" where
  "show_invalid_address os (Invalid_Nameserver addr reason) =
     ''Invalid nameserver '' @ quote_text os addr @ '': '' @ reason"
| "show_invalid_address os (Invalid_Url url reason) =
     ''Invalid DNS-over-HTTPS URL '' @ quote_text os url @ '': '' @ reason"

fun show_http_fault :: "'s outside \<Rightarrow> http_fault \<Rightarrow> string" where
  "show_http_fault os (Fault message) = message"
| "show_http_fault os (Fault_Quoting before bytes after) = before @ quote_text os (lossy bytes) @ after"

fun error_message :: "'s outside \<Rightarrow> Error \<Rightarrow> string" where
  "error_message os (E_WireError e) = wire_error_message e"
| "error_message os E_TruncatedResponse = ''Truncated response''"
| "error_message os (E_NetworkError e) = io_text os e"
| "error_message os (E_Timeout after) = ''Timed out after '' @ duration_text os after @ '' waiting for a response''"
| "error_message os (E_MismatchedResponse m) = display_mismatch m"
| "error_message os (E_InvalidNameserver (Inl invalid)) = show_invalid_address os invalid"
| "error_message os (E_InvalidNameserver (Inr why)) = why"
| "error_message os (E_TlsError e) = tls_text os e"
| "error_message os (E_TlsHandshakeError e) = tls_text os e"
| "error_message os (E_HttpError e) = http_text os e"
| "error_message os (E_WrongHttpStatus t r) = http_status_message t r"
| "error_message os (E_MalformedHttp fault) = show_http_fault os fault"

definition print_error :: "'s outside \<Rightarrow> OutputFormat \<Rightarrow> Error \<Rightarrow> console \<Rightarrow> console" where
  "print_error os fmt error =
     (case fmt of
        JSON \<Rightarrow> stderr_line (json_text os (J_Object
          [(''error'', J_Bool True), (''error_phase'', J_String (erroneous_phase error)),
           (''error_message'', J_String (error_message os error))]))
      | _ \<Rightarrow> stderr_line (''Error ['' @ erroneous_phase error @ '']: '' @ error_message os error))"

end
