(* ===== verification/Output_Correct.thy ===== *)
theory Output_Correct
  imports Output
begin

text \<open>
  What the formats print is one document, a function of the responses alone; printing it is
  writing that document, so that where standard output fails a prefix of it has been written.
  A response that has been read can always be printed.
\<close>

subsection \<open>Writing one string\<close>

text \<open>Writing a string and returning a value: what a step of printing amounts to.\<close>

definition deliver :: "string \<Rightarrow> 'a \<Rightarrow> 'a printing" where
  "deliver s x = and_then (write_out s) (\<lambda>_. just (Ok x))"

named_theorems delivers "steps of printing as the string they write"

lemma deliver_nothing [delivers]: "just (Ok x) = deliver [] x"
  by (rule ext) (auto simp: deliver_def and_then_def just_def write_out_def split: option.split)

lemma deliver_write [delivers]: "write_out s = deliver s ()"
  by (rule ext) (auto simp: deliver_def and_then_def just_def split: prod.split outcome.split)

lemma deliver_writeln [delivers]: "writeln_out s = deliver (s @ newline) ()"
  by (simp add: writeln_out_def delivers)

lemma write_twice: "and_then (write_out s) (\<lambda>_. write_out t) = write_out (s @ t)"
  by (rule ext) (auto simp: and_then_def write_out_def split: option.split)

lemma and_then_assoc: "and_then (and_then m f) g = and_then m (\<lambda>x. and_then (f x) g)"
  by (rule ext) (auto simp: and_then_def split: prod.split outcome.split)

lemma and_then_just_right: "and_then m (\<lambda>x. just (Ok x)) = m"
  by (rule ext) (auto simp: and_then_def just_def split: prod.split outcome.split)

lemma and_then_just_left: "and_then (just (Ok x)) f = f x"
  by (rule ext) simp

lemma deliver_then: "and_then (deliver s x) f = and_then (write_out s) (\<lambda>_. f x)"
  by (simp add: deliver_def and_then_assoc and_then_just_left)

lemma deliver_twice [delivers]: "and_then (deliver s x) (\<lambda>y. deliver (t y) (f y)) = deliver (s @ t x) (f x)"
  by (simp add: deliver_def and_then_assoc and_then_just_left write_twice [symmetric])

lemma deliver_Nil_then [delivers]: "and_then (deliver [] x) f = f x"
  by (simp add: deliver_nothing [symmetric] and_then_just_left)

lemma for_each_deliver: "(\<And>x. x \<in> set xs \<Longrightarrow> f x = deliver (g x) ()) \<Longrightarrow> for_each f xs = deliver (concat (map g xs)) ()"
  by (induction xs) (simp_all add: delivers)

lemma write_out_no_panic: "fst (write_out s c) \<noteq> Panic"
  by (simp add: write_out_def split: option.split)


subsection \<open>The documents\<close>

text \<open>The value of a computation that returns one.\<close>

fun returned :: "('e, 'a) outcome \<Rightarrow> 'a" where
  "returned (Ok x) = x"

definition summary_of :: "'s outside \<Rightarrow> TextFormat \<Rightarrow> Answer \<Rightarrow> string" where
  "summary_of os tf a = returned (answer_summary os tf a :: (io_kind, string) outcome)"

definition short_document :: "'s outside \<Rightarrow> TextFormat \<Rightarrow> Response list \<Rightarrow> string option" where
  "short_document os tf responses =
     (let answers = concat (map resp_answers responses) in
      if answers = [] then None else Some (concat (map (\<lambda>a. summary_of os tf a @ newline) answers)))"

definition json_document :: "'s outside \<Rightarrow> Response list \<Rightarrow> nat option \<Rightarrow> string" where
  "json_document os responses duration =
     json_text os (J_Object
       ((''responses'', J_Array (map (\<lambda>r. returned (json_response (base64 os) r :: (io_kind, JsonValue) outcome)) responses))
        # (case duration of
             Some d \<Rightarrow> [(''duration'', J_Object
               [(''secs'', J_Number (as_secs d)), (''millis'', J_Number (subsec_millis d))])]
           | None \<Rightarrow> []))) @ newline"

definition row_of :: "'s outside \<Rightarrow> 's Colours \<Rightarrow> TextFormat \<Rightarrow> Section \<Rightarrow> Answer \<Rightarrow> 's Row" where
  "row_of os colours tf section a =
     \<lparr>row_qtype = (case a of Standard _ _ _ rec \<Rightarrow> coloured_record_type colours rec
                   | Pseudo _ _ \<Rightarrow> (colour_opt colours, ''OPT'')),
      row_qname = display_labels (case a of Standard name _ _ _ \<Rightarrow> name | Pseudo name _ \<Rightarrow> name),
      row_ttl = (case a of Standard _ _ ttl _ \<Rightarrow> Some (format_duration tf ttl) | Pseudo _ _ \<Rightarrow> None),
      row_section = section,
      row_summary = summary_of os tf a\<rparr>"

definition response_rows :: "'s outside \<Rightarrow> 's Colours \<Rightarrow> TextFormat \<Rightarrow> Response \<Rightarrow> 's Row list" where
  "response_rows os colours tf r =
     map (row_of os colours tf Answer) (resp_answers r)
     @ map (row_of os colours tf Authority) (resp_authorities r)
     @ map (row_of os colours tf Additional) (resp_additionals r)"

definition status_line :: "Response \<Rightarrow> string" where
  "status_line r =
     (case flag_error_code (resp_flags r) of
        Some code \<Rightarrow> ''Status: '' @ error_code_description code @ newline
      | None \<Rightarrow> [])"

definition text_document ::
  "'s outside \<Rightarrow> environment \<Rightarrow> UseColours \<Rightarrow> TextFormat \<Rightarrow> Response list \<Rightarrow> nat option \<Rightarrow> string" where
  "text_document os env uc tf responses duration =
     (let colours = palette env (styles os) uc;
          table = \<lparr>table_colours = colours, table_text_format = tf,
                   table_rows = concat (map (response_rows os colours tf) responses)\<rparr>
      in concat (map status_line responses)
         @ concat (map (\<lambda>line. line @ newline) (returned (table_lines (styles os) table :: (io_kind, string list) outcome)))
         @ (case duration of Some d \<Rightarrow> ''Ran in '' @ dec (as_millis d) @ ''ms'' @ newline | None \<Rightarrow> []))"

fun document :: "'s outside \<Rightarrow> environment \<Rightarrow> OutputFormat \<Rightarrow> Response list \<Rightarrow> nat option \<Rightarrow> string option" where
  "document os env (Short tf) responses duration = short_document os tf responses"
| "document os env JSON responses duration = Some (json_document os responses duration)"
| "document os env (Text uc tf) responses duration = Some (text_document os env uc tf responses duration)"


subsection \<open>Printing writes the document\<close>

lemma summary_of_answer: "showable a \<Longrightarrow> answer_summary os tf a = (Ok (summary_of os tf a) :: (io_kind, string) outcome)"
proof (cases a)
  case (Standard qname qclass ttl rec)
  assume "showable a"
  then have "showable_record rec" by (simp add: Standard)
  then obtain x where "record_payload_summary (base64 os) tf rec = (Ok x :: (io_kind, string) outcome)"
    using showable_summary by blast
  then show ?thesis by (simp add: summary_of_def Standard)
qed (simp add: summary_of_def)

lemma json_returned:
  assumes "list_all showable_response rs"
  shows "(collect_outcome (json_response (base64 os)) rs :: (io_kind, JsonValue list) outcome)
    = Ok (map (\<lambda>r. returned (json_response (base64 os) r :: (io_kind, JsonValue) outcome)) rs)"
  using assms
proof (induction rs)
  case (Cons r rs)
  then have "showable_response r" by simp
  then obtain v where "(json_response (base64 os) r :: (io_kind, JsonValue) outcome) = Ok v"
    using showable_json by blast
  with Cons show ?case by simp
qed simp

lemma add_row_row_of:
  "showable a \<Longrightarrow> add_row (base64 os) a section table
     = (Ok (table\<lparr>table_rows := table_rows table
         @ [row_of os (table_colours table) (table_text_format table) section a]\<rparr>) :: (io_kind, 's Table) outcome)"
  using summary_of_answer [of a os "table_text_format table"]
  by (cases a) (auto simp: row_of_def Let_def)

lemma add_rows_rows:
  "list_all showable as \<Longrightarrow> add_rows os section as table
     = (Ok (table\<lparr>table_rows := table_rows table
         @ map (row_of os (table_colours table) (table_text_format table) section) as\<rparr>) :: (io_kind, 's Table) outcome)"
  by (induction as arbitrary: table) (simp_all add: add_row_row_of)

lemma print_statuses_deliver:
  "list_all showable_response rs \<Longrightarrow> print_statuses os rs table
     = deliver (concat (map status_line rs))
         (table\<lparr>table_rows := table_rows table
           @ concat (map (response_rows os (table_colours table) (table_text_format table)) rs)\<rparr>)"
proof (induction rs arbitrary: table)
  case Nil
  then show ?case by (simp add: delivers)
next
  case (Cons r rs)
  then have "list_all showable (resp_answers r)" "list_all showable (resp_authorities r)"
    "list_all showable (resp_additionals r)"
    by (simp_all add: showable_response_def)
  moreover have "(case flag_error_code (resp_flags r) of
      Some rcode \<Rightarrow> writeln_out (''Status: '' @ error_code_description rcode) | None \<Rightarrow> just (Ok ()))
      = deliver (status_line r) ()"
    by (simp add: status_line_def delivers split: option.split)
  ultimately show ?case
    using Cons by (simp add: add_rows_rows and_then_just_left delivers response_rows_def)
qed

lemma print_text_deliver:
  assumes "list_all showable_response rs"
  shows "print_text os env uc tf rs duration = deliver (text_document os env uc tf rs duration) ()"
proof -
  let ?table = "\<lparr>table_colours = palette env (styles os) uc, table_text_format = tf,
    table_rows = concat (map (response_rows os (palette env (styles os) uc) tf) rs)\<rparr>"
  obtain ls where "table_lines (styles os) ?table = (Ok ls :: (io_kind, string list) outcome)"
    using table_lines_total by blast
  note lines = this
  let ?time = "case duration of Some d \<Rightarrow> ''Ran in '' @ dec (as_millis d) @ ''ms'' @ newline | None \<Rightarrow> []"
  have "table_print os ?table duration = deliver (concat (map (\<lambda>line. line @ newline) ls) @ ?time) ()"
    by (cases duration)
      (simp_all add: table_print_def lines and_then_just_left
        for_each_deliver [where g = "\<lambda>line. line @ newline"] delivers)
  moreover have "print_statuses os rs (table_new (palette env (styles os) uc) tf)
      = deliver (concat (map status_line rs)) ?table"
    using print_statuses_deliver [OF assms, of os "table_new (palette env (styles os) uc) tf"]
    by (simp add: table_new_def)
  ultimately show ?thesis
    by (simp add: print_text_def Let_def deliver_then text_document_def lines) (simp add: delivers)
qed

lemma print_json_deliver:
  assumes "list_all showable_response rs"
  shows "print_json os rs duration = deliver (json_document os rs duration) ()"
  using json_returned [OF assms, of os]
  by (cases duration) (simp_all add: print_json_def json_document_def and_then_just_left delivers Let_def)

lemma print_short_deliver:
  assumes "list_all showable_response rs"
  shows "print_short os tf rs c =
    (case short_document os tf rs of
       None \<Rightarrow> (Ok False, stderr_line ''No results'' c)
     | Some doc \<Rightarrow> deliver doc True c)"
proof -
  let ?as = "concat (map resp_answers rs)"
  have "and_then (just (answer_summary os tf a)) writeln_out = deliver (summary_of os tf a @ newline) ()"
    if "a \<in> set ?as" for a
    using that assms summary_of_answer [of a os tf]
    by (auto simp: list_all_iff showable_response_def and_then_just_left delivers)
  then have "for_each (\<lambda>a. and_then (just (answer_summary os tf a)) writeln_out) ?as
      = deliver (concat (map (\<lambda>a. summary_of os tf a @ newline) ?as)) ()"
    by (rule for_each_deliver)
  then show ?thesis
    by (auto simp: print_short_def short_document_def Let_def delivers)
qed

lemma print_eq:
  assumes "list_all showable_response rs"
  shows "print os env fmt rs duration c =
    (case document os env fmt rs duration of
       None \<Rightarrow> and_then flush (\<lambda>_. just (Ok False)) (stderr_line ''No results'' c)
     | Some doc \<Rightarrow> and_then (write_out doc) (\<lambda>_. and_then flush (\<lambda>_. just (Ok True))) c)"
proof (cases fmt)
  case (Short tf)
  then show ?thesis
    using print_short_deliver [OF assms, of os tf]
    by (auto simp: print_def and_then_def deliver_def just_def split: option.split prod.split outcome.split)
next
  case JSON
  then show ?thesis
    by (simp add: print_def print_json_deliver [OF assms] and_then_assoc deliver_then and_then_just_left)
next
  case (Text uc tf)
  then show ?thesis
    by (simp add: print_def print_text_deliver [OF assms] and_then_assoc deliver_then and_then_just_left)
qed

text \<open>
  C10: Printing implements its documents: whatever the format, and whatever standard output does,
  to print responses that were read is to write one text, which depends on the responses alone,
  and to flush it; with no answers in the short format, it is to say so on standard error. So
  where standard output fails, what was written is a beginning of that text.
\<close>

theorem print_refines_document:
  assumes "list_all (\<lambda>r. \<exists>bytes. response_from_bytes bytes = Ok r) responses"
  shows "print os env fmt responses duration c =
    (case document os env fmt responses duration of
       None \<Rightarrow> and_then flush (\<lambda>_. just (Ok False)) (stderr_line ''No results'' c)
     | Some doc \<Rightarrow> and_then (write_out doc) (\<lambda>_. and_then flush (\<lambda>_. just (Ok True))) c)"
  using assms by (intro print_eq) (auto simp: list_all_iff intro: response_showable)

lemma print_refines_document_witness:
  "\<forall>os :: unit outside. \<forall>env. \<exists>r. response_from_bytes [0, 1, 0x81, 0x80, 0, 0, 0, 0, 0, 0, 0, 0] = Ok r
     \<and> print os env JSON [r] None \<lparr>out_text = [], out_fails = Some (0, K_BrokenPipe), flush_fails = None, err_lines = []\<rparr>
       = (Err K_BrokenPipe, \<lparr>out_text = [], out_fails = Some (0, K_BrokenPipe), flush_fails = None, err_lines = []\<rparr>)"
proof (intro allI)
  fix os :: "unit outside" and env
  let ?c = "\<lparr>out_text = [], out_fails = Some (0, K_BrokenPipe), flush_fails = None, err_lines = []\<rparr>"
  obtain r where r: "response_from_bytes [0, 1, 0x81, 0x80, 0, 0, 0, 0, 0, 0, 0, 0] = Ok r"
    using header_only_response by blast
  then have "print os env JSON [r] None ?c = (Err K_BrokenPipe, ?c)"
    using print_refines_document [of "[r]" os env JSON None ?c]
    by (auto simp: json_document_def and_then_def write_out_def newline_def)
  with r show "\<exists>r. response_from_bytes [0, 1, 0x81, 0x80, 0, 0, 0, 0, 0, 0, 0, 0] = Ok r
      \<and> print os env JSON [r] None ?c = (Err K_BrokenPipe, ?c)" by blast
qed

lemma print_no_panic: "list_all showable_response rs \<Longrightarrow> fst (print os env fmt rs duration c) \<noteq> Panic"
  by (auto simp: print_eq and_then_def flush_def write_out_def just_def split: option.split)

end
