(* ===== verification/Dog.thy ===== *)
theory Dog
  imports Connect Options_Correct Output_Correct
begin

text \<open>
  The program (\<open>src/main.rs\<close>): from the command line to the status it exits with. Requests are sent
  on the world of the theory \<open>Secure\<close>, and what is printed goes to the console of the theory
  \<open>Output\<close>; a step takes both and returns both. \<open>None\<close> is a panic, which ends the program.
\<close>

subsection \<open>Statuses\<close>

definition SUCCESS :: int where "SUCCESS = 0"
definition NETWORK_ERROR :: int where "NETWORK_ERROR = 1"
definition NO_SHORT_RESULTS :: int where "NO_SHORT_RESULTS = 2"
definition OPTIONS_ERROR :: int where "OPTIONS_ERROR = 3"
definition SYSTEM_ERROR :: int where "SYSTEM_ERROR = 4"

fun exit_code :: "bool \<Rightarrow> bool \<Rightarrow> int" where
  "exit_code False _ = NO_SHORT_RESULTS"
| "exit_code True True = NETWORK_ERROR"
| "exit_code True False = SUCCESS"

definition output_failure :: "'s outside \<Rightarrow> io_kind \<Rightarrow> int \<Rightarrow> console \<Rightarrow> int \<times> console" where
  "output_failure os error status_otherwise c =
     (if error = K_BrokenPipe then (status_otherwise, c)
      else (SYSTEM_ERROR, stderr_line (''dog: Cannot write output: '' @ io_text os error) c))"


subsection \<open>Sending requests\<close>

fun send_until_answered :: "'w transport \<Rightarrow> Request list \<Rightarrow> 'w \<Rightarrow> (Error, Response) outcome option \<times> 'w" where
  "send_until_answered send [] w = (None, w)"
| "send_until_answered send (request # requests) w =
     (case send request w of
        (result, w) \<Rightarrow>
          (case result of
             Ok response \<Rightarrow>
               if flag_error_code (resp_flags response) \<noteq> None \<and> requests \<noteq> []
               then send_until_answered send requests w
               else (Some result, w)
           | _ \<Rightarrow> (Some result, w)))"

definition warn_if_truncated :: "Response \<Rightarrow> console \<Rightarrow> console" where
  "warn_if_truncated response c =
     (if flag_truncated (resp_flags response)
      then stderr_line ''warning: the response was truncated, so records may be missing; use --tcp to get them all'' c
      else c)"

definition strip_pseudo_records :: "Response \<Rightarrow> Response" where
  "strip_pseudo_records response =
     response\<lparr>resp_answers := filter is_standard (resp_answers response),
       resp_authorities := filter is_standard (resp_authorities response),
       resp_additionals := filter is_standard (resp_additionals response)\<rparr>"

fun send_sets ::
  "'s outside \<Rightarrow> OutputFormat \<Rightarrow> bool \<Rightarrow> 'w request_set list \<Rightarrow> Response list \<Rightarrow> bool \<Rightarrow> 'w \<Rightarrow> console
     \<Rightarrow> (Response list \<times> bool) option \<times> 'w \<times> console" where
  "send_sets os fmt show_opt [] responses errored w c = (Some (responses, errored), w, c)"
| "send_sets os fmt show_opt ((send, requests) # sets) responses errored w c =
     (case send_until_answered send requests w of
        (None, w) \<Rightarrow> send_sets os fmt show_opt sets responses errored w c
      | (Some result, w) \<Rightarrow>
          (case result of
             Ok response \<Rightarrow>
               let c = warn_if_truncated response c;
                   response = (if \<not> show_opt then strip_pseudo_records response else response)
               in send_sets os fmt show_opt sets (responses @ [response]) errored w c
           | Err e \<Rightarrow> send_sets os fmt show_opt sets responses True w (print_error os fmt e c)
           | Panic \<Rightarrow> (None, w, c)))"

definition send_all ::
  "'s outside \<Rightarrow> OutputFormat \<Rightarrow> bool \<Rightarrow> 'w request_set list \<Rightarrow> 'w \<Rightarrow> console
     \<Rightarrow> (Response list \<times> bool) option \<times> 'w \<times> console" where
  "send_all os fmt show_opt sets = send_sets os fmt show_opt sets [] False"


subsection \<open>Running\<close>

definition warn_about_local_hosts ::
  "(string \<Rightarrow> string option) \<Rightarrow> files \<Rightarrow> labels list \<Rightarrow> string \<Rightarrow> console \<Rightarrow> console" where
  "warn_about_local_hosts label_to_ascii fs domains path c =
     (let hosts = (case load_hosts label_to_ascii fs path of Ok hosts \<Rightarrow> hosts | _ \<Rightarrow> {}) in
      foldl (\<lambda>c domain.
        if domain \<in> hosts
        then stderr_line (''warning: domain '' @ [CHR 0x27] @ display_labels domain @ [CHR 0x27]
               @ '' also exists in hosts file'') c
        else c) c domains)"

fun display_lookup_error :: "'s outside \<Rightarrow> ResolverLookupError \<Rightarrow> string" where
  "display_lookup_error os NoNameserver = ''No nameserver found''"
| "display_lookup_error os (Lookup_IO ioe) = ''Error reading network configuration: '' @ io_text os ioe"

text \<open>
  What the program is given by its surroundings, besides the network: the parser of HTTP heads, the
  processing of labels, random numbers, files, and the environment.
\<close>

record surroundings =
  head_parse :: head_parser
  to_ascii_label :: "string \<Rightarrow> string option"
  random :: "nat \<Rightarrow> u16"
  file_system :: files
  terminal_environment :: environment

definition run ::
  "'s outside \<Rightarrow> surroundings \<Rightarrow> Options \<Rightarrow> SystemPaths \<Rightarrow> 'w secure_world_scheme \<Rightarrow> console
     \<Rightarrow> int option \<times> 'w secure_world_scheme \<times> console" where
  "run os su options paths w c =
     (let g = opt_requests options; fmt = opt_format options;
          timer = (if opt_measure_time options then Some (clock w) else None);
          c = warn_about_local_hosts (to_ascii_label su) (file_system su) (in_domains (gen_inputs g))
                (hosts_path paths) c;
          show_opt = should_show (gen_edns g)
      in case generate (head_parse su) (to_ascii_label su) (random su) (file_system su) paths g of
           Err e \<Rightarrow>
             (Some SYSTEM_ERROR, w, stderr_line (''Unable to obtain resolver: '' @ display_lookup_error os e) c)
         | Panic \<Rightarrow> (None, w, c)
         | Ok sets \<Rightarrow>
             (case send_all os fmt show_opt sets w c of
                (None, w, c) \<Rightarrow> (None, w, c)
              | (Some (responses, errored), w, c) \<Rightarrow>
                  let duration = map_option (\<lambda>start. clock w - start) timer in
                  (case print os (terminal_environment su) fmt responses duration c of
                     (Ok printed, c) \<Rightarrow> (Some (exit_code printed errored), w, c)
                   | (Err e, c) \<Rightarrow>
                       (case output_failure os e (exit_code True errored) c of
                          (code, c) \<Rightarrow> (Some code, w, c))
                   | (Panic, c) \<Rightarrow> (None, w, c))))"


subsection \<open>The command line\<close>

fun display_invalid_name :: "'s outside \<Rightarrow> InvalidName \<Rightarrow> string" where
  "display_invalid_name os EmptyName = ''it is empty''"
| "display_invalid_name os EmptyLabel = ''it has an empty label''"
| "display_invalid_name os (SpaceOrControl label) =
     ''its label '' @ quote_text os label @ '' contains a space or a control character''"
| "display_invalid_name os (NotInternationalised label) =
     ''its label '' @ quote_text os label @ '' is not a valid internationalised name''"
| "display_invalid_name os (LabelTooLong label) =
     ''its label '' @ quote_text os label @ '' is longer than '' @ dec MAX_LABEL @ '' bytes''"
| "display_invalid_name os NameTooLong = ''it is longer than '' @ dec MAX_NAME @ '' bytes''"

fun display_options_error :: "'s outside \<Rightarrow> OptionsError \<Rightarrow> string" where
  "display_options_error os (InvalidDomain domain reason) =
     ''Invalid domain '' @ quote_text os domain @ '': '' @ display_invalid_name os reason"
| "display_options_error os (InvalidColour colour) =
     ''Invalid colour setting '' @ quote_text os colour @ '' (use always, automatic, or never)''"
| "display_options_error os (TweakNeedsEDNS tweak) =
     ''Protocol tweak '' @ quote_text os tweak @ '' needs EDNS, which --edns disable turns off''"
| "display_options_error os (InvalidEDNS edns) = ''Invalid EDNS setting '' @ quote_text os edns"
| "display_options_error os (InvalidQueryType qt) = ''Invalid query type '' @ quote_text os qt"
| "display_options_error os (InvalidQueryClass qc) = ''Invalid query class '' @ quote_text os qc"
| "display_options_error os (InvalidTxid txid) = ''Invalid transaction ID '' @ quote_text os txid"
| "display_options_error os (InvalidTimeout t) =
     ''Invalid timeout '' @ quote_text os t @ '' (seconds, more than 0 and at most 3600)''"
| "display_options_error os (InvalidTweak tweak) = ''Invalid protocol tweak '' @ quote_text os tweak"
| "display_options_error os QueryTypeOPT = ''OPT request is sent by default (see -Z flag)''"
| "display_options_error os MissingHttpsUrl = ''You must pass a URL as a nameserver when using --https''"
| "display_options_error os (InvalidNameserver why) = show_invalid_address os why"

text \<open>In this build no option is for a feature that was left out.\<close>

definition report :: "'s outside \<Rightarrow> OptionsError \<Rightarrow> string" where
  "report os e = ''Invalid options: '' @ display_options_error os e"

text \<open>The texts that the build script makes, and the messages of the package \<open>getopts\<close>.\<close>

record texts =
  usage_pretty :: string
  usage_bland :: string
  version_pretty :: string
  version_bland :: string
  fail_text :: "getopts_fail \<Rightarrow> string"

definition pick :: "environment \<Rightarrow> UseColours \<Rightarrow> string \<Rightarrow> string \<Rightarrow> string" where
  "pick env use_colours coloured bland = (if should_use_colours env use_colours then coloured else bland)"

definition emit :: "'s outside \<Rightarrow> string \<Rightarrow> int \<Rightarrow> console \<Rightarrow> int option \<times> console" where
  "emit os out code c =
     (case and_then (write_out out) (\<lambda>_. flush) c of
        (Ok _, c) \<Rightarrow> (Some code, c)
      | (Err e, c) \<Rightarrow> (case output_failure os e code c of (code, c) \<Rightarrow> (Some code, c))
      | (Panic, c) \<Rightarrow> (None, c))"

definition dog ::
  "'s outside \<Rightarrow> surroundings \<Rightarrow> texts \<Rightarrow> ((opt_kind \<times> string \<times> string) list \<Rightarrow> 'args \<Rightarrow> getopts_fail + matches)
     \<Rightarrow> 'args \<Rightarrow> 'w secure_world_scheme \<Rightarrow> console \<Rightarrow> int option \<times> 'w secure_world_scheme \<times> console" where
  "dog os su tx parse_args args w c =
     (let env = terminal_environment su in
      case getopts parse_args (to_ascii_label su) args of
        None \<Rightarrow> (None, w, c)
      | Some result \<Rightarrow>
          (case result of
             Options_Ok options \<Rightarrow> run os su options system_paths w c
           | Help help_reason use_colours \<Rightarrow>
               let usage = pick env use_colours (usage_pretty tx) (usage_bland tx);
                   code = (if help_reason = NoDomains then OPTIONS_ERROR else SUCCESS)
               in (case emit os usage code c of (code, c) \<Rightarrow> (code, w, c))
           | Version use_colours \<Rightarrow>
               let version = pick env use_colours (version_pretty tx) (version_bland tx)
               in (case emit os version SUCCESS c of (code, c) \<Rightarrow> (code, w, c))
           | InvalidOptionsFormat oe \<Rightarrow>
               (Some OPTIONS_ERROR, w, stderr_line (''dog: Invalid options: '' @ fail_text tx oe) c)
           | InvalidOptions why \<Rightarrow>
               (Some OPTIONS_ERROR, w, stderr_line (''dog: '' @ report os why) c)))"

end
