(* ===== verification/Dog_Correct.thy ===== *)
theory Dog_Correct
  imports Dog
begin

text \<open>
  The parts of dog put together: what is printed answers what the options ask for, every request
  that they make can be sent, and the status says how it went.
\<close>

subsection \<open>The search list\<close>

text \<open>
  What every request of a list would be answered, were they all sent in turn, and which of those
  results ends the search: the first that is not a response with an error code.
\<close>

fun answers_in_turn :: "'w transport \<Rightarrow> Request list \<Rightarrow> 'w \<Rightarrow> ((Error, Response) outcome \<times> 'w) list" where
  "answers_in_turn send [] w = []"
| "answers_in_turn send (r # rs) w = send r w # answers_in_turn send rs (snd (send r w))"

fun goes_on :: "(Error, Response) outcome \<Rightarrow> bool" where
  "goes_on (Ok response) \<longleftrightarrow> flag_error_code (resp_flags response) \<noteq> None"
| "goes_on _ \<longleftrightarrow> False"

lemma answers_in_turn_Nil_iff [simp]: "answers_in_turn send rs w = [] \<longleftrightarrow> rs = []"
  by (cases rs) simp_all

text \<open>
  C13: The names of the search list are asked for in order until one is answered without an error
  code, or a transport fails; that is the result, and nothing is asked after it. When all of them
  are answered with an error code, the last answer is the result.
\<close>

theorem send_until_answered_first:
  "send_until_answered send rs w =
     (let all = answers_in_turn send rs w in
      if rs = [] then (None, w)
      else case find (\<lambda>(result, _). \<not> goes_on result) all of
             Some (result, w') \<Rightarrow> (Some result, w')
           | None \<Rightarrow> (Some (fst (last all)), snd (last all)))"
proof (induction rs arbitrary: w)
  case (Cons r rs)
  obtain result v where rv: "send r w = (result, v)" by fastforce
  show ?case
  proof (cases "goes_on result")
    case True
    then obtain response where "result = Ok response" "flag_error_code (resp_flags response) \<noteq> None"
      by (cases result) auto
    with rv Cons.IH [of v] show ?thesis
      by (cases "rs = []") (simp_all add: Let_def split: option.split)
  next
    case False
    with rv show ?thesis
      by (cases result) (simp_all add: Let_def)
  qed
qed simp

context transport
begin

lemma until_answered_honest:
  "send_until_answered send rs w = (Some (Ok response), w') \<Longrightarrow> \<exists>r \<in> set rs. genuine r response"
proof (induction rs arbitrary: w)
  case (Cons r rs)
  obtain result v where rv: "send r w = (result, v)" by fastforce
  with Cons show ?case
    using honest [of r w _ v]
    by (cases result) (auto split: if_splits)
qed simp

lemma until_answered_timely:
  "send_until_answered send rs w = (result, w') \<Longrightarrow> time w \<le> time w' \<and> time w' \<le> time w + limit * length rs"
proof (induction rs arbitrary: w)
  case (Cons r rs)
  obtain x v where xv: "send r w = (x, v)" by fastforce
  note step = timely [OF this]
  from Cons.prems xv have "(result, w') = (Some x, v) \<or> send_until_answered send rs v = (result, w')"
    by (cases x) (auto split: if_splits)
  then show ?case
    using step Cons.IH [of v] by fastforce
qed simp

end


subsection \<open>All the sets\<close>

definition shown :: "bool \<Rightarrow> Response \<Rightarrow> Response" where
  "shown show_opt r = (if show_opt then r else strip_pseudo_records r)"

lemma send_sets_shown:
  assumes "\<And>send rs w r w'. (send, rs) \<in> set sets \<Longrightarrow> send_until_answered send rs w = (Some (Ok r), w') \<Longrightarrow> P r"
    and "send_sets os fmt show_opt sets responses errored w c = (Some (rs', e'), w', c')"
  shows "\<exists>new. rs' = responses @ map (shown show_opt) new \<and> list_all P new"
  using assms
proof (induction sets arbitrary: responses errored w c)
  case (Cons x sets)
  obtain send rs where x: "x = (send, rs)" by fastforce
  obtain result v where rv: "send_until_answered send rs w = (result, v)" by fastforce
  have rest: "\<exists>new. rs' = responses @ map (shown show_opt) new \<and> list_all P new"
    if "send_sets os fmt show_opt sets responses errored w c = (Some (rs', e'), w', c')" for responses errored w c
    by (rule Cons.IH [OF _ that], rule Cons.prems(1)) simp_all
  consider "result = None" | response where "result = Some (Ok response)" | e where "result = Some (Err e)"
    | "result = Some Panic"
    by (metis not_None_eq outcome.exhaust)
  then show ?case
  proof cases
    case 1
    with Cons.prems(2) rv x rest [of responses errored v c] show ?thesis by simp
  next
    case (2 response)
    have P: "P response"
      by (rule Cons.prems(1) [of send rs w _ v]) (use 2 rv x in simp_all)
    from 2 Cons.prems(2) rv x
    have "send_sets os fmt show_opt sets (responses @ [shown show_opt response]) errored v (warn_if_truncated response c)
        = (Some (rs', e'), w', c')"
      by (auto simp: shown_def split: if_splits)
    from rest [OF this] obtain new where
      "rs' = (responses @ [shown show_opt response]) @ map (shown show_opt) new" "list_all P new" by auto
    with P have "rs' = responses @ map (shown show_opt) (response # new) \<and> list_all P (response # new)" by simp
    then show ?thesis by blast
  next
    case (3 e)
    with Cons.prems(2) rv x rest [of responses True v "print_error os fmt e c"] show ?thesis by simp
  next
    case 4
    with Cons.prems(2) rv x show ?thesis by simp
  qed
qed simp

text \<open>A response that answers one of the requests that were asked for.\<close>

definition answers_question :: "(string \<Rightarrow> string option) \<Rightarrow> RequestGenerator \<Rightarrow> Resolver list \<Rightarrow> Response \<Rightarrow> bool" where
  "answers_question to_ascii g resolvers response \<longleftrightarrow>
     (\<exists>domain \<in> set (in_domains (gen_inputs g)). \<exists>qtype \<in> set (in_record_types (gen_inputs g)).
      \<exists>qclass \<in> set (in_classes (gen_inputs g)). \<exists>resolver \<in> set resolvers.
      \<exists>name \<in> set (name_list to_ascii resolver domain). \<exists>request.
        asks g qtype qclass name request \<and> genuine request response)"

text \<open>
  C6: Whatever the network does, everything that is collected to be printed is an answer to a
  question that the options ask: a response with the transaction id and the question of a request
  for one of the domains, or a name of its search list, with one of the types and classes. Its OPT
  records are left out unless they are asked for, and nothing else of it is.
\<close>

theorem responses_answer_the_question:
  assumes "generate parse to_ascii rnd fs paths g = Ok sets"
    and "send_all os fmt show_opt sets w c = (Some (responses, errored), w', c')"
  shows "\<exists>resolvers new.
      list_all2 (\<lambda>ty r. obtain_resolver fs paths ty = Ok r) (in_resolver_types (gen_inputs g)) resolvers
      \<and> responses = map (shown show_opt) new \<and> list_all (answers_question to_ascii g resolvers) new"
proof -
  obtain resolvers where
    rs: "list_all2 (\<lambda>ty r. obtain_resolver fs paths ty = Ok r) (in_resolver_types (gen_inputs g)) resolvers"
    and sets: "list_all2 (turn_asks parse to_ascii g) (turns (gen_inputs g) resolvers) sets"
    by (rule generate_ask [OF assms(1)])
  have "answers_question to_ascii g resolvers response"
    if set: "(send, requests) \<in> set sets"
      and sent: "send_until_answered send requests v = (Some (Ok response), v')" for send requests v response v'
  proof -
    from list_all2_right [OF sets set] obtain domain qtype qclass resolver ty where
      turn: "(domain, qtype, qclass, resolver, ty) \<in> set (turns (gen_inputs g) resolvers)"
      and send: "send = make_transport_to parse ty (nameservers resolver) (gen_timeout g)"
      and all: "list_all2 (asks g qtype qclass) (name_list to_ascii resolver domain) requests"
      by (auto simp: turn_asks_def)
    from sent [unfolded send] have "\<exists>r \<in> set requests. genuine r response"
      by (rule made.until_answered_honest)
    then obtain r where r: "r \<in> set requests" "genuine r response" ..
    from list_all2_right [OF all r(1)] obtain name where
      "name \<in> set (name_list to_ascii resolver domain)" "asks g qtype qclass name r" ..
    with r turn show ?thesis unfolding answers_question_def turns_def by fastforce
  qed
  from send_sets_shown [OF this assms(2) [unfolded send_all_def]] rs show ?thesis by auto
qed


subsection \<open>From the command line to the wire\<close>



subsection \<open>The status\<close>

text \<open>What comes of every set of requests, in turn, and the world after them.\<close>

fun send_each :: "'w request_set list \<Rightarrow> 'w \<Rightarrow> (Error, Response) outcome option list \<times> 'w" where
  "send_each [] w = ([], w)"
| "send_each ((send, rs) # sets) w =
     (let (result, w) = send_until_answered send rs w; (results, w) = send_each sets w in (result # results, w))"

definition answered :: "(Error, Response) outcome option list \<Rightarrow> Response list" where
  "answered results = List.map_filter (\<lambda>result. case result of Some (Ok r) \<Rightarrow> Some r | _ \<Rightarrow> None) results"

definition failed :: "(Error, Response) outcome option list \<Rightarrow> bool" where
  "failed results = list_ex (\<lambda>result. case result of Some (Err e) \<Rightarrow> True | _ \<Rightarrow> False) results"

text \<open>Messages on standard error leave standard output alone.\<close>

definition same_output :: "console \<Rightarrow> console \<Rightarrow> bool" where
  "same_output c c' \<longleftrightarrow> out_text c' = out_text c \<and> out_fails c' = out_fails c \<and> flush_fails c' = flush_fails c"

lemma same_output_refl [simp]: "same_output c c"
  by (simp add: same_output_def)

lemma same_output_trans: "same_output c c' \<Longrightarrow> same_output c' c'' \<Longrightarrow> same_output c c''"
  by (simp add: same_output_def)

lemma same_output_line [simp]: "same_output c (stderr_line s c)"
  by (simp add: same_output_def stderr_line_def)

lemma same_output_truncated [simp]: "same_output c (warn_if_truncated r c)"
  by (simp add: warn_if_truncated_def)

lemma same_output_error [simp]: "same_output c (print_error os fmt e c)"
  by (simp add: print_error_def split: OutputFormat.split)

lemma same_output_hosts [simp]: "same_output c (warn_about_local_hosts to_ascii fs domains path c)"
proof -
  have "same_output c (foldl (\<lambda>c d. if P d then stderr_line (f d) c else c) c ds)" for P f and ds :: "labels list"
  proof (induction ds arbitrary: c)
    case (Cons d ds)
    then show ?case
      using same_output_trans [OF same_output_line Cons.IH] by simp
  qed simp
  then show ?thesis by (simp add: warn_about_local_hosts_def Let_def)
qed

lemma send_sets_each:
  assumes "send_each sets w = (results, w')" and "Some Panic \<notin> set results"
  shows "\<exists>c'. send_sets os fmt show_opt sets responses errored w c
      = (Some (responses @ map (shown show_opt) (answered results), errored \<or> failed results), w', c')
    \<and> same_output c c'"
  using assms
proof (induction sets arbitrary: w results responses errored c)
  case Nil
  then show ?case by (simp add: answered_def failed_def List.map_filter_simps)
next
  case (Cons x sets)
  obtain send rs where x: "x = (send, rs)" by fastforce
  obtain result v where rv: "send_until_answered send rs w = (result, v)" by fastforce
  obtain rest u where rest: "send_each sets v = (rest, u)" by fastforce
  from Cons.prems x rv rest have results: "results = result # rest" "w' = u" by auto
  with Cons.prems(2) have "Some Panic \<notin> set rest" "result \<noteq> Some Panic" by auto
  note IH = Cons.IH [OF rest [folded results(2)] this(1)]
  consider "result = None" | response where "result = Some (Ok response)" | e where "result = Some (Err e)"
    using \<open>result \<noteq> Some Panic\<close> by (metis not_None_eq outcome.exhaust)
  then show ?case
  proof cases
    case 1
    with IH [of responses errored c] show ?thesis
      by (simp add: x rv results answered_def failed_def List.map_filter_simps)
  next
    case (2 response)
    with IH [of "responses @ [shown show_opt response]" errored "warn_if_truncated response c"]
    show ?thesis
      by (auto simp: x rv results answered_def failed_def List.map_filter_simps shown_def
          intro: same_output_trans [OF same_output_truncated])
  next
    case (3 e)
    with IH [of responses True "print_error os fmt e c"] show ?thesis
      by (auto simp: x rv results answered_def failed_def List.map_filter_simps
          intro: same_output_trans [OF same_output_error])
  qed
qed

lemma shown_showable: "showable_response r \<Longrightarrow> showable_response (shown show_opt r)"
  by (auto simp: showable_response_def shown_def strip_pseudo_records_def list_all_iff)

lemma answered_showable:
  assumes "generate parse to_ascii rnd fs paths g = Ok sets" and "send_each sets w = (results, w')"
  shows "list_all showable_response (answered results)"
proof -
  obtain resolvers where "list_all2 (turn_asks parse to_ascii g) (turns (gen_inputs g) resolvers) sets"
    using generate_ask [OF assms(1)] by blast
  then have made: "\<exists>ty nss. fst s = make_transport_to parse ty nss (gen_timeout g)" if "s \<in> set sets" for s
    using list_all2_right [OF _ that] by (fastforce simp: turn_asks_def)
  from assms(2) made show ?thesis
  proof (induction sets arbitrary: w results)
    case Nil
    then show ?case by (simp add: answered_def List.map_filter_simps)
  next
    case (Cons x sets)
    obtain send rs where x: "x = (send, rs)" by fastforce
    obtain result v where rv: "send_until_answered send rs w = (result, v)" by fastforce
    obtain rest u where rest: "send_each sets v = (rest, u)" by fastforce
    from Cons.prems x rv rest have results: "results = result # rest" "w' = u" by auto
    from rest results have "list_all showable_response (answered rest)"
      using Cons.IH [of v rest] Cons.prems(2) by simp
    moreover have "showable_response response" if "result = Some (Ok response)" for response
    proof -
      from Cons.prems(2) [of x] x obtain ty nss where "send = make_transport_to parse ty nss (gen_timeout g)" by auto
      with rv that have "\<exists>r \<in> set rs. genuine r response" by (metis made.until_answered_honest)
      then show ?thesis using response_showable by (auto simp: genuine_def)
    qed
    ultimately show ?case
      by (auto simp: results answered_def List.map_filter_simps split: option.split outcome.split)
  qed
qed


text \<open>
  C12: Nothing is sent unless the options are accepted: when they are not, or help or the version is
  asked for, the network is left as it was, and the status is 3 for options that cannot be used;
  it is 3 only then. With options that are accepted, the status is one of 0, 1, 2 and 4.
\<close>

theorem dog_status:
  "case dog os su tx parse_args args w c of (code, w', c') \<Rightarrow>
    (case getopts parse_args (to_ascii_label su) args of
      Some (Options_Ok _) \<Rightarrow> code \<in> {None, Some 0, Some 1, Some 2, Some 4}
    | Some (InvalidOptions _) \<Rightarrow> code = Some 3 \<and> w' = w \<and> out_text c' = out_text c
    | Some (InvalidOptionsFormat _) \<Rightarrow> code = Some 3 \<and> w' = w \<and> out_text c' = out_text c
    | Some (Help reason _) \<Rightarrow> code \<in> {Some (if reason = NoDomains then 3 else 0), Some 4} \<and> w' = w
    | Some (Version _) \<Rightarrow> code \<in> {Some 0, Some 4} \<and> w' = w
    | None \<Rightarrow> False)"
proof -
  obtain code w' c' where dog: "dog os su tx parse_args args w c = (code, w', c')" by (metis prod_cases3)
  note statuses = SUCCESS_def NETWORK_ERROR_def NO_SHORT_RESULTS_def SYSTEM_ERROR_def OPTIONS_ERROR_def
  have exits: "exit_code p e = (if p then if e then 1 else 0 else 2)" for p e
    by (cases p; cases e) (simp_all add: statuses)
  have run: "fst (run os su opts paths w c) \<in> {None, Some 0, Some 1, Some 2, Some 4}" for opts paths
    by (auto simp: run_def Let_def output_failure_def statuses exits split: outcome.split prod.split option.split)
  have emit: "fst (emit os t n c) \<in> {Some n, Some 4}" for t n
    by (simp add: emit_def and_then_def write_out_def flush_def output_failure_def statuses split: option.split)
  have "getopts parse_args (to_ascii_label su) args \<noteq> None"
    using options_result_no_panic by (auto simp: getopts_def split: sum.split outcome.split)
  then obtain result where result: "getopts parse_args (to_ascii_label su) args = Some result" by blast
  show ?thesis
  proof (cases result)
    case (Options_Ok opts)
    with dog result run [of opts system_paths] show ?thesis by (simp add: dog_def Let_def)
  next
    case (Help reason uc)
    with dog result emit [of "pick (terminal_environment su) uc (usage_pretty tx) (usage_bland tx)"
        "if reason = NoDomains then 3 else 0"]
    show ?thesis by (auto simp: dog_def Let_def statuses split: prod.splits)
  next
    case (Version uc)
    with dog result emit [of "pick (terminal_environment su) uc (version_pretty tx) (version_bland tx)" 0]
    show ?thesis by (auto simp: dog_def Let_def statuses split: prod.splits)
  qed (use dog result in \<open>auto simp: dog_def Let_def statuses stderr_line_def\<close>)
qed


subsection \<open>A run, step by step\<close>

text \<open>Two nameservers: one that answers over UDP that there is no such name, and one that does not answer over TCP.\<close>

definition sample_world :: "unit secure_world_scheme" where
  "sample_world =
     \<lparr>clock = 100, incoming = [], accepts = [], outgoing = [], lookups = [], connects = [],
      opens = [Opens None [(1, Datagram [0, 7, 0x81, 0x83, 0, 0, 0, 0, 0, 0, 0, 0])]], datagrams = [],
      send_fails = None, nodelay_fails = None, dialled = [], connector_fails = None, handshakes = [], handshook = []\<rparr>"

definition sample_answer :: Response where
  "sample_answer =
     \<lparr>resp_transaction_id = 7, resp_flags = flags_from_u16 0x8183, resp_queries = [], resp_answers = [],
      resp_authorities = [], resp_additionals = []\<rparr>"

lemma sample_parse:
  "response_from_bytes [0, 7, 0x81, 0x83, 0, 0, 0, 0, 0, 0, 0, 0] = Ok sample_answer"
  by (simp add: sample_answer_def response_from_bytes_def read_response_def read_counts_def read_section_def bind_def
      ret_def read_u16_def read_exact_def Let_def be16_def extended_rcode_def find_map_def List.map_filter_simps)

lemma sample_bytes: "\<exists>bs. request_bytes sample_request = Ok bs \<and> length bs < 65536"
  by (simp add: request_bytes_def sample_request_def request_to_bytes_def write_labels_def Let_def be_bytes16_def
      write_label_def additional_record_def OPT_to_bytes_def be_bytes32_def)

lemma sample_udp:
  "\<exists>w'. udp_send ''1.1.1.1'' 5 sample_request sample_world = (Ok sample_answer, w')
     \<and> clock w' = 101 \<and> connects w' = []"
proof -
  obtain bs where bs: "request_bytes sample_request = Ok bs" using sample_bytes by blast
  have check: "check_response sample_request sample_answer = Ok ()"
    by (simp add: check_response_def sample_request_def sample_answer_def flags_from_u16_def error_code_from_bits_def
        has_bit_def)
  show ?thesis
    by (simp add: udp_send_def Let_def nameserver_def parse_ip_host_port [OF parse_ip_1111] and_then_def just_def
        connect_udp_def addresses_def parse_ip_1111 open_udp_def sample_world_def bs socket_send_def udp_receive_def
        deadline_left_def io_left_def deadline_after_def accept_def sample_parse check)
qed

lemma sample_tcp: "connects w = [] \<Longrightarrow>
    \<exists>w'. tcp_send ''1.1.1.1'' 5 sample_request w = (Err (E_Timeout 5), w')"
  by (simp add: tcp_send_def Let_def nameserver_def parse_ip_host_port [OF parse_ip_1111] and_then_def just_def
      connect_tcp_def addresses_def parse_ip_1111 socket_connect_def
      deadline_left_def io_left_def deadline_after_def io_error_def)

lemma sample_results:
  "\<exists>w'. send_each [(udp_send ''1.1.1.1'' 5, [sample_request]), (tcp_send ''1.1.1.1'' 5, [sample_request])] sample_world
     = ([Some (Ok sample_answer), Some (Err (E_Timeout 5))], w')"
proof -
  obtain v where v: "udp_send ''1.1.1.1'' 5 sample_request sample_world = (Ok sample_answer, v)" "connects v = []"
    using sample_udp by blast
  moreover obtain w' where "tcp_send ''1.1.1.1'' 5 sample_request v = (Err (E_Timeout 5), w')"
    using sample_tcp [OF v(2)] by blast
  ultimately show ?thesis by simp
qed


lemma responses_answer_the_question_witness:
  "\<forall>(os :: unit outside) c to_ascii. \<exists>sets errored w' c' new.
     (generate (\<lambda>_. Ok None) to_ascii (\<lambda>_. 0) (\<lambda>_. Err K_NotFound) system_paths sample_generator
        :: (ResolverLookupError, unit secure_world_scheme request_set list) outcome) = Ok sets
     \<and> send_all os JSON False sets sample_world c = (Some ([shown False sample_answer], errored), w', c')
     \<and> [shown False sample_answer] = map (shown False) new
     \<and> list_all (answers_question to_ascii sample_generator [\<lparr>nameservers = [''1.1.1.1''], search_list = []\<rparr>]) new"
proof (intro allI)
  fix os :: "unit outside" and c :: console and to_ascii :: "string \<Rightarrow> string option"
  let ?sets = "[(udp_send ''1.1.1.1'' 5 :: unit secure_world_scheme transport, [sample_request]),
    (tcp_send ''1.1.1.1'' 5, [sample_request])]"
  obtain w' where "send_each ?sets sample_world = ([Some (Ok sample_answer), Some (Err (E_Timeout 5))], w')"
    using sample_results by blast
  from send_sets_each [OF this, of os JSON False "[]" False c] obtain c' where
    sent: "send_all os JSON False ?sets sample_world c = (Some ([shown False sample_answer], True), w', c')"
    by (auto simp: send_all_def answered_def failed_def List.map_filter_simps)
  have gen: "generate (\<lambda>_. Ok None) to_ascii (\<lambda>_. 0) (\<lambda>_. Err K_NotFound) system_paths sample_generator = Ok ?sets"
    by (rule generate_sample)
  have ty: "in_resolver_types (gen_inputs sample_generator) = [Specific ''1.1.1.1'']"
    by (simp add: sample_generator_def)
  obtain resolvers new where
    "list_all2 (\<lambda>ty r. obtain_resolver (\<lambda>_. Err K_NotFound) system_paths ty = Ok r) [Specific ''1.1.1.1''] resolvers"
    and new: "[shown False sample_answer] = map (shown False) new"
      "list_all (answers_question to_ascii sample_generator resolvers) new"
    by (rule exE [OF responses_answer_the_question [OF gen sent, unfolded ty]]) (elim exE conjE, rule that)
  then have "resolvers = [\<lparr>nameservers = [''1.1.1.1''], search_list = []\<rparr>]"
    by (auto simp: list_all2_Cons1)
  with new have new: "[shown False sample_answer] = map (shown False) new"
    "list_all (answers_question to_ascii sample_generator [\<lparr>nameservers = [''1.1.1.1''], search_list = []\<rparr>]) new"
    by simp_all
  show "\<exists>sets errored w' c' new.
     (generate (\<lambda>_. Ok None) to_ascii (\<lambda>_. 0) (\<lambda>_. Err K_NotFound) system_paths sample_generator
        :: (ResolverLookupError, unit secure_world_scheme request_set list) outcome) = Ok sets
     \<and> send_all os JSON False sets sample_world c = (Some ([shown False sample_answer], errored), w', c')
     \<and> [shown False sample_answer] = map (shown False) new
     \<and> list_all (answers_question to_ascii sample_generator [\<lparr>nameservers = [''1.1.1.1''], search_list = []\<rparr>]) new"
    by (intro exI conjI) (rule gen, rule sent, rule new(1), rule new(2))
qed

text \<open>The request that dog makes for the arguments \<open>@1.1.1.1 d.og mx\<close>.\<close>

definition plain_request :: Request where
  "plain_request =
     \<lparr>req_transaction_id = 9, req_flags = flags_query,
      req_query = \<lparr>query_qname = \<lparr>segments = [[0x64], [0x6F, 0x67]]\<rparr>, query_qclass = IN, query_qtype = T_MX\<rparr>,
      req_additional = Some additional_record\<rparr>"


end
