(* ===== verification/Version.thy ===== *)
theory Version
  imports Registry
begin

text \<open>
  The texts of \<^verbatim>\<open>--version\<close> and \<^verbatim>\<open>--help\<close> (\<open>build-support/version.rs\<close>): colour codes, the version,
  and the date of the build. The date is shown to be the one that counting days from the first of
  January 1970 arrives at, and the plain text the coloured one without its escape sequences.
\<close>

subsection \<open>Texts with colours\<close>

text \<open>\<open>str::replace\<close> and \<open>ends_with\<close>.\<close>

function replace_str :: "string \<Rightarrow> string \<Rightarrow> string \<Rightarrow> string" where
  "replace_str from to s =
     (case strip_prefix from s of
        Some rest \<Rightarrow> if length rest < length s then to @ replace_str from to rest else s
      | None \<Rightarrow> (case s of [] \<Rightarrow> [] | c # cs \<Rightarrow> c # replace_str from to cs))"
  by pat_completeness auto
termination
  by (relation "measure (\<lambda>(_, _, s). length s)") auto

definition ends_with :: "string \<Rightarrow> string \<Rightarrow> bool" where
  "ends_with s end = (strip_prefix (rev end) (rev s) \<noteq> None)"

definition backslash :: char where "backslash = CHR 0x5C"

definition TAGLINE :: string where
  "TAGLINE = ''dog '' @ backslash # ''1;32m'' @ [CHR 0xE2, CHR 0x97, CHR 0x8F] @ backslash # ''0m''
     @ '' command-line DNS client''"

definition URL :: string where "URL = ''https://dns.lookup.dog/''"

record Build =
  build_profile :: string
  build_version :: string
  build_missing_features :: string

record Provenance =
  prov_git_hash :: string
  prov_date :: string

definition convert_codes :: "string \<Rightarrow> string" where
  "convert_codes input = replace_str [backslash] [CHR 0x1B, CHR ''['']  input"

definition strip_codes :: "string \<Rightarrow> string" where
  "strip_codes input =
     foldl (\<lambda>s code. replace_str (backslash # code) [] s) input
       [''0m'', ''1m'', ''4m'', ''32m'', ''33m'', ''1;31m'', ''1;32m'', ''1;33m'', ''1;4;34m'']"

definition missing_features :: "bool \<Rightarrow> bool \<Rightarrow> bool \<Rightarrow> string" where
  "missing_features idna tls https =
     join '', '' (map snd (List.filter (\<lambda>(enabled, _). \<not> enabled)
       [(idna, ''-idna''), (tls, ''-tls''), (https, ''-https'')]))"

definition needs_provenance :: "Build \<Rightarrow> bool" where
  "needs_provenance build = (build_profile build \<noteq> ''debug'' \<and> ends_with (build_version build) ''-pre'')"

definition version_text :: "Build \<Rightarrow> Provenance \<Rightarrow> string" where
  "version_text build provenance =
     (let nl = [CHR 0x0A];
          version = build_version build;
          version = (if build_missing_features build \<noteq> []
                     then version @ '' ['' @ build_missing_features build @ '']'' else version)
      in if build_profile build = ''debug'' then
           TAGLINE @ nl @ ''v'' @ version @ '' '' @ backslash # ''1;31m(pre-release debug build!)''
             @ backslash # ''0m'' @ nl @ backslash # ''1;4;34m'' @ URL @ backslash # ''0m''
         else if needs_provenance build then
           TAGLINE @ nl @ ''v'' @ version @ '' ['' @ prov_git_hash provenance @ ''] built on '' @ prov_date provenance
             @ '' '' @ backslash # ''1;31m(pre-release!)'' @ backslash # ''0m'' @ nl
             @ backslash # ''1;4;34m'' @ URL @ backslash # ''0m''
         else
           TAGLINE @ nl @ ''v'' @ version @ nl @ backslash # ''1;4;34m'' @ URL @ backslash # ''0m'')"


subsection \<open>Dates\<close>

definition utc_date :: "u64 \<Rightarrow> ('e, string) outcome" where
  "utc_date epoch_seconds =
     (let days = epoch_seconds div 86400 in
      bind_outcome (add_or_panic days 719468) (\<lambda>z.
      let era = z div 146097 in
      bind_outcome (mul_or_panic era 146097) (\<lambda>before_era.
      bind_outcome (sub_or_panic z before_era) (\<lambda>day_of_era.
      bind_outcome (sub_or_panic day_of_era (day_of_era div 1460)) (\<lambda>t.
      bind_outcome (add_or_panic t (day_of_era div 36524)) (\<lambda>t.
      bind_outcome (sub_or_panic t (day_of_era div 146096)) (\<lambda>t.
      let year_of_era = t div 365 in
      bind_outcome (mul_or_panic 365 year_of_era) (\<lambda>t.
      bind_outcome (add_or_panic t (year_of_era div 4)) (\<lambda>t.
      bind_outcome (sub_or_panic t (year_of_era div 100)) (\<lambda>before_year.
      bind_outcome (sub_or_panic day_of_era before_year) (\<lambda>day_of_year.
      bind_outcome (mul_or_panic 5 day_of_year) (\<lambda>t.
      bind_outcome (add_or_panic t 2) (\<lambda>t.
      let shifted_month = t div 153 in
      bind_outcome (mul_or_panic 153 shifted_month) (\<lambda>t.
      bind_outcome (add_or_panic t 2) (\<lambda>t.
      bind_outcome (sub_or_panic day_of_year (t div 5)) (\<lambda>t.
      bind_outcome (add_or_panic t 1) (\<lambda>day.
      bind_outcome (if shifted_month < 10 then add_or_panic shifted_month 3 else sub_or_panic shifted_month 9) (\<lambda>month.
      bind_outcome (mul_or_panic era 400) (\<lambda>t.
      bind_outcome (add_or_panic year_of_era t) (\<lambda>t.
      bind_outcome (add_or_panic t (if month \<le> 2 then 1 else 0)) (\<lambda>year.
      Ok (dec_padded 4 (unat year) @ ''-'' @ dec_padded 2 (unat month) @ ''-'' @ dec_padded 2 (unat day)))))))))))))))))))))))"

subsection \<open>The calendar\<close>

text \<open>The Gregorian calendar: how long months are, and the day after a day.\<close>

definition leap_year :: "nat \<Rightarrow> bool" where
  "leap_year y \<longleftrightarrow> y mod 4 = 0 \<and> (y mod 100 \<noteq> 0 \<or> y mod 400 = 0)"

definition month_length :: "nat \<Rightarrow> nat \<Rightarrow> nat" where
  "month_length y m =
     (if m = 2 then (if leap_year y then 29 else 28) else if m \<in> {4, 6, 9, 11} then 30 else 31)"

fun next_day :: "nat \<times> nat \<times> nat \<Rightarrow> nat \<times> nat \<times> nat" where
  "next_day (y, m, d) =
     (if d < month_length y m then (y, m, d + 1) else if m < 12 then (y, m + 1, 1) else (y + 1, 1, 1))"

fun proper_date :: "nat \<times> nat \<times> nat \<Rightarrow> bool" where
  "proper_date (y, m, d) \<longleftrightarrow> 1 \<le> y \<and> 1 \<le> m \<and> m \<le> 12 \<and> 1 \<le> d \<and> d \<le> month_length y m"

text \<open>
  The days from the first of March of the year 0 to a date: of whole years, which start in March
  so that a leap day is the last of its year, of whole months, and of the month.
\<close>

definition days_before :: "nat \<Rightarrow> nat" where
  "days_before y = 365 * y + y div 4 + y div 400 - y div 100"

fun march_days :: "nat \<times> nat \<times> nat \<Rightarrow> nat" where
  "march_days (y, m, d) =
     (if m \<le> 2 then days_before (y - 1) else days_before y) + (153 * ((m + 9) mod 12) + 2) div 5 + (d - 1)"

lemma month_cases:
  assumes "1 \<le> (m :: nat)" and "m \<le> 12"
  shows "m = 1 \<or> m = 2 \<or> m = 3 \<or> m = 4 \<or> m = 5 \<or> m = 6 \<or> m = 7 \<or> m = 8 \<or> m = 9 \<or> m = 10 \<or> m = 11 \<or> m = 12"
  using assms by presburger

lemma next_day_proper: "proper_date x \<Longrightarrow> proper_date (next_day x)"
  by (cases x) (auto simp: month_length_def)

lemma days_before_Suc: "days_before (Suc y) = days_before y + (if leap_year (Suc y) then 366 else 365)"
proof -
  have h: "Suc y div n = y div n + (if Suc y mod n = 0 then 1 else 0)" for n :: nat
    by (simp add: div_Suc)
  have m: "Suc y mod 400 = 0 \<longrightarrow> Suc y mod 100 = 0" "Suc y mod 100 = 0 \<longrightarrow> Suc y mod 4 = 0"
    by presburger+
  have le: "y div 100 \<le> y div 4" by (simp add: div_le_mono2)
  define p where "p = (if Suc y mod 4 = 0 then 1 else 0 :: nat)"
  define q where "q = (if Suc y mod 400 = 0 then 1 else 0 :: nat)"
  define r where "r = (if Suc y mod 100 = 0 then 1 else 0 :: nat)"
  have rp: "r \<le> p" and leap: "365 + p + q - r = (if leap_year (Suc y) then 366 else 365)"
    using m by (auto simp: p_def q_def r_def leap_year_def)
  have shift: "365 * Suc y + (a + p) + (c + q) - (b + r) = 365 * y + a + c - b + (365 + p + q - r)"
    if "b \<le> a" for a b c :: nat
    using that rp by simp
  show ?thesis
    unfolding days_before_def h [of 4] h [of 100] h [of 400] leap [symmetric] p_def [symmetric] q_def [symmetric] r_def [symmetric]
    by (rule shift [OF le])
qed

lemma march_days_next: "proper_date x \<Longrightarrow> march_days (next_day x) = march_days x + 1"
proof -
  assume p: "proper_date x"
  obtain y m d where x: "x = (y, m, d)" by (cases x)
  from p x have m: "1 \<le> m" "m \<le> 12" and d: "1 \<le> d" "d \<le> month_length y m" and y: "1 \<le> y" by auto
  then obtain y' where y': "y = Suc y'" by (cases y) auto
  show ?thesis
    using month_cases [OF m] d
    by (elim disjE) (simp_all add: x y' month_length_def days_before_Suc split: if_splits)
qed
text \<open>The code's way back, on numbers, from days to a date.\<close>

definition civil :: "nat \<Rightarrow> nat \<times> nat \<times> nat" where
  "civil z =
     (let era = z div 146097;
          day_of_era = z - era * 146097;
          year_of_era = (day_of_era - day_of_era div 1460 + day_of_era div 36524 - day_of_era div 146096) div 365;
          day_of_year = day_of_era - (365 * year_of_era + year_of_era div 4 - year_of_era div 100);
          shifted_month = (5 * day_of_year + 2) div 153;
          day = day_of_year - (153 * shifted_month + 2) div 5 + 1;
          month = (if shifted_month < 10 then shifted_month + 3 else shifted_month - 9);
          year = year_of_era + era * 400 + (if month \<le> 2 then 1 else 0)
      in (year, month, day))"

lemma year_parts:
  obtains e c q r where "y = 400 * e + 100 * c + 4 * q + (r :: nat)" "c < 4" "q < 25" "r < 4"
proof
  have "y mod 400 mod 100 = y mod 100" "y mod 100 mod 4 = y mod 4"
    by (simp_all add: mod_mod_cancel)
  then show "y = 400 * (y div 400) + 100 * (y mod 400 div 100) + 4 * (y mod 100 div 4) + y mod 4"
    using mult_div_mod_eq [of 400 y] mult_div_mod_eq [of 100 "y mod 400"] mult_div_mod_eq [of 4 "y mod 100"]
    by linarith
qed (simp_all add: less_mult_imp_div_less)

lemma days_before_parts:
  assumes "c < 4" and "q < 25" and "r < 4"
  shows "days_before (400 * e + 100 * c + 4 * q + r) = 146097 * e + 36524 * c + 1461 * q + 365 * r"
proof -
  have "(400 * e + 100 * c + 4 * q + r) div 4 = 100 * e + 25 * c + q"
    using assms by (intro div_nat_eqI) simp_all
  moreover have "(400 * e + 100 * c + 4 * q + r) div 100 = 4 * e + c"
    using assms by (intro div_nat_eqI) simp_all
  moreover have "(400 * e + 100 * c + 4 * q + r) div 400 = e"
    using assms by (intro div_nat_eqI) simp_all
  ultimately show ?thesis by (simp add: days_before_def)
qed

lemma leap_year_parts:
  assumes "c < 4" and "q < 25" and "r < 4"
  shows "leap_year (Suc (400 * e + 100 * c + 4 * q + r)) \<longleftrightarrow> r = 3 \<and> (q \<noteq> 24 \<or> c = 3)"
proof -
  have "Suc (400 * e + 100 * c + 4 * q + r) mod 4 = Suc r mod 4"
    using mod_mult_self1 [of "Suc r" "100 * e + 25 * c + q" 4] by (simp add: algebra_simps)
  moreover have "Suc (400 * e + 100 * c + 4 * q + r) mod 100 = Suc (4 * q + r) mod 100"
    using mod_mult_self1 [of "Suc (4 * q + r)" "4 * e + c" 100] by (simp add: algebra_simps)
  moreover have "Suc (400 * e + 100 * c + 4 * q + r) mod 400 = Suc (100 * c + 4 * q + r) mod 400"
    using mod_mult_self1 [of "Suc (100 * c + 4 * q + r)" e 400] by (simp add: algebra_simps)
  moreover have "Suc r mod 4 = 0 \<longleftrightarrow> r = 3" using assms by presburger
  moreover have "Suc (4 * q + r) mod 100 = 0 \<longleftrightarrow> q = 24 \<and> r = 3"
    using assms by (cases "q = 24"; cases "r = 3") auto
  moreover have "Suc (100 * c + 4 * q + r) mod 400 = 0 \<longleftrightarrow> c = 3 \<and> q = 24 \<and> r = 3"
  proof (cases "Suc (100 * c + 4 * q + r) = 400")
    case True
    with assms have "c = 3" "q = 24" "r = 3" by linarith+
    then show ?thesis by simp
  next
    case False
    with assms have "Suc (100 * c + 4 * q + r) < 400" by linarith
    with False assms show ?thesis by auto
  qed
  ultimately show ?thesis by (auto simp: leap_year_def)
qed

lemma year_of_era:
  assumes "c < 4" and "q < 25" and "(r :: nat) < 4" and "doy \<le> 365" and "doy = 365 \<longrightarrow> r = 3 \<and> (q \<noteq> 24 \<or> c = 3)"
    and doe: "(doe :: nat) = 36524 * c + 1461 * q + 365 * r + doy"
  shows "(doe - doe div 1460 + doe div 36524 - doe div 146096) div 365 = 100 * c + 4 * q + r"
proof -
  define e where "e = (if 1460 \<le> 24 * c + q + 365 * r + doy then 1 else 0 :: nat)"
  define l where "l = (if doe = 146096 then 1 else 0 :: nat)"
  have d1: "doe div 1460 = 25 * c + q + e"
    using assms unfolding e_def by (intro div_nat_eqI) auto
  have d2: "doe div 36524 = c + l"
    using assms unfolding l_def by (intro div_nat_eqI) (auto split: if_splits)
  have d3: "doe div 146096 = l"
    using assms unfolding l_def by (intro div_nat_eqI) auto
  have e: "e \<le> doy" "doy \<le> 364 + e"
    using assms unfolding e_def by (auto split: if_splits)
  have "doe - (25 * c + q + e) + (c + l) - l = 365 * (100 * c + 4 * q + r) + (doy - e)"
    using e unfolding doe by simp
  then have n: "doe - doe div 1460 + doe div 36524 - doe div 146096 = 365 * (100 * c + 4 * q + r) + (doy - e)"
    by (simp only: d1 d2 d3)
  show ?thesis
    unfolding n using e by (intro div_nat_eqI) simp_all
qed
lemma day_of_era:
  assumes "c < 4" and "q < 25" and "(r :: nat) < 4" and "(doy :: nat) \<le> 365"
  shows "36524 * c + 1461 * q + 365 * r + doy < 146097"
    and "365 * (100 * c + 4 * q + r) + (100 * c + 4 * q + r) div 4 - (100 * c + 4 * q + r) div 100
      = 36524 * c + 1461 * q + 365 * r"
proof -
  show "36524 * c + 1461 * q + 365 * r + doy < 146097" using assms by linarith
  have "(100 * c + 4 * q + r) div 4 = 25 * c + q" using assms by (intro div_nat_eqI) simp_all
  moreover have "(100 * c + 4 * q + r) div 100 = c" using assms by (intro div_nat_eqI) simp_all
  ultimately show "365 * (100 * c + 4 * q + r) + (100 * c + 4 * q + r) div 4 - (100 * c + 4 * q + r) div 100
      = 36524 * c + 1461 * q + 365 * r" by simp
qed

lemma civil_parts:
  assumes "c < 4" and "q < 25" and "r < 4" and "doy \<le> 365" and "doy = 365 \<longrightarrow> r = 3 \<and> (q \<noteq> 24 \<or> c = 3)"
  shows "civil (146097 * e + (36524 * c + 1461 * q + 365 * r + doy)) =
    (let mp = (5 * doy + 2) div 153; m = (if mp < 10 then mp + 3 else mp - 9)
     in (400 * e + 100 * c + 4 * q + r + (if m \<le> 2 then 1 else 0), m, doy - (153 * mp + 2) div 5 + 1))"
proof -
  define doe where "doe = 36524 * c + 1461 * q + 365 * r + doy"
  define yoe where "yoe = 100 * c + 4 * q + r"
  note doe_less = day_of_era(1) [OF assms(1-4), folded doe_def]
  have era: "(146097 * e + doe) div 146097 = e" using doe_less by simp
  have rest: "146097 * e + doe - e * 146097 = doe" by simp
  note y = year_of_era [OF assms doe_def, folded yoe_def]
  have d: "doe - (365 * yoe + yoe div 4 - yoe div 100) = doy"
    using day_of_era(2) [OF assms(1-4)] by (simp add: doe_def yoe_def)
  show ?thesis
    unfolding civil_def Let_def doe_def [symmetric] era rest y d
    by (simp add: yoe_def)
qed

text \<open>The day of a year that starts in March, and the month it is in.\<close>

lemma month_of_year:
  assumes "1 \<le> m" and "m \<le> 12" and "1 \<le> d" and "d \<le> month_length y m"
    and doy: "doy = (153 * ((m + 9) mod 12) + 2) div 5 + (d - 1)"
  shows "doy \<le> 365" and "doy = 365 \<longrightarrow> m = 2 \<and> leap_year y" and "(5 * doy + 2) div 153 = (m + 9) mod 12"
proof -
  show "doy \<le> 365" "doy = 365 \<longrightarrow> m = 2 \<and> leap_year y"
    using month_cases [OF assms(1,2)] assms(3-)
    by (elim disjE; simp add: month_length_def split: if_splits)+
  show "(5 * doy + 2) div 153 = (m + 9) mod 12"
    using month_cases [OF assms(1,2)] assms(3-)
    by (elim disjE) (simp_all add: month_length_def div_nat_eqI split: if_splits)
qed

lemma civil_march_days: "proper_date x \<Longrightarrow> civil (march_days x) = x"
proof -
  assume p: "proper_date x"
  obtain y m d where x: "x = (y, m, d)" by (cases x)
  from p x have m: "1 \<le> m" "m \<le> 12" and d: "1 \<le> d" "d \<le> month_length y m" and y: "1 \<le> y" by auto
  define y' where "y' = (if m \<le> 2 then y - 1 else y)"
  obtain e c q r where y': "y' = 400 * e + 100 * c + 4 * q + r" and b: "c < 4" "q < 25" "r < 4"
    by (rule year_parts)
  define doy where "doy = (153 * ((m + 9) mod 12) + 2) div 5 + (d - 1)"
  note doy = month_of_year [OF m d doy_def]
  have "doy = 365 \<longrightarrow> r = 3 \<and> (q \<noteq> 24 \<or> c = 3)"
  proof
    assume "doy = 365"
    with doy(2) y have "leap_year (Suc y')" by (simp add: y'_def)
    then show "r = 3 \<and> (q \<noteq> 24 \<or> c = 3)" by (simp only: y' leap_year_parts [OF b])
  qed
  from civil_parts [OF b doy(1) this]
  have "civil (146097 * e + (36524 * c + 1461 * q + 365 * r + doy)) =
    (let mp = (m + 9) mod 12; m' = (if mp < 10 then mp + 3 else mp - 9)
     in (y' + (if m' \<le> 2 then 1 else 0), m', doy - (153 * mp + 2) div 5 + 1))"
    by (simp only: doy(3) y')
  moreover have "march_days x = days_before y' + doy"
    by (simp add: x y'_def doy_def)
  then have "march_days x = 146097 * e + (36524 * c + 1461 * q + 365 * r + doy)"
    by (simp add: y' days_before_parts [OF b])
  moreover have "(if (m + 9) mod 12 < 10 then (m + 9) mod 12 + 3 else (m + 9) mod 12 - 9) = m"
    using month_cases [OF m] by (elim disjE) simp_all
  moreover have "doy - (153 * ((m + 9) mod 12) + 2) div 5 + 1 = d"
    using d by (simp add: doy_def)
  ultimately show ?thesis
    using y by (simp add: x y'_def Let_def)
qed

text \<open>What the day count of a date is made of: centuries, groups of four years, years and days.\<close>

lemma march_parts:
  assumes "proper_date x"
  obtains e c q r doy where "march_days x = 146097 * e + (36524 * c + 1461 * q + 365 * r + doy)"
    and "c < 4" and "q < 25" and "r < 4" and "doy \<le> 365" and "doy = 365 \<longrightarrow> r = 3 \<and> (q \<noteq> 24 \<or> c = 3)"
proof -
  obtain y m d where x: "x = (y, m, d)" by (cases x)
  from assms x have m: "1 \<le> m" "m \<le> 12" and d: "1 \<le> d" "d \<le> month_length y m" and y: "1 \<le> y" by auto
  define y' where "y' = (if m \<le> 2 then y - 1 else y)"
  obtain e c q r where y': "y' = 400 * e + 100 * c + 4 * q + r" and b: "c < 4" "q < 25" "r < 4"
    by (rule year_parts)
  define doy where "doy = (153 * ((m + 9) mod 12) + 2) div 5 + (d - 1)"
  note doy = month_of_year [OF m d doy_def]
  have "march_days x = days_before y' + doy"
    by (simp add: x y'_def doy_def)
  then have "march_days x = 146097 * e + (36524 * c + 1461 * q + 365 * r + doy)"
    by (simp add: y' days_before_parts [OF b])
  moreover have "doy = 365 \<longrightarrow> r = 3 \<and> (q \<noteq> 24 \<or> c = 3)"
  proof
    assume "doy = 365"
    with doy(2) y have "leap_year (Suc y')" by (simp add: y'_def)
    then show "r = 3 \<and> (q \<noteq> 24 \<or> c = 3)" by (simp only: y' leap_year_parts [OF b])
  qed
  ultimately show ?thesis using that b doy(1) by blast
qed

lemma days_counted:
  "proper_date ((next_day ^^ n) (1970, 1, 1)) \<and> march_days ((next_day ^^ n) (1970, 1, 1)) = 719468 + n"
proof (induction n)
  case 0
  show ?case by (simp add: month_length_def days_before_def)
next
  case (Suc n)
  then show ?case
    using next_day_proper march_days_next [of "(next_day ^^ n) (1970, 1, 1)"] by simp
qed

lemma civil_counts: "civil (719468 + n) = (next_day ^^ n) (1970, 1, 1)"
  using civil_march_days days_counted by metis


subsection \<open>The arithmetic of words\<close>

text \<open>Words as the numbers they stand for.\<close>

definition word64 :: "nat \<Rightarrow> u64" where "word64 n = of_nat n"

lemma unat_word64 [simp]: "n < 2 ^ 64 \<Longrightarrow> unat (word64 n) = n"
  by (simp add: word64_def unat_of_nat take_bit_nat_eq_self)

lemma word64_unat: "word64 (unat w) = w"
  by (simp add: word64_def)

lemma word64_numeral: "numeral k = word64 (numeral k)" and word64_one: "1 = word64 1" and word64_zero: "0 = word64 0"
  by (simp_all add: word64_def)

lemma add_word64: "m + n < 2 ^ 64 \<Longrightarrow> add_or_panic (word64 m) (word64 n) = Ok (word64 (m + n))"
  by (simp add: add_or_panic_def word64_def unat_of_nat take_bit_nat_eq_self)

lemma mul_word64:
  "m * n < 2 ^ 64 \<Longrightarrow> m < 2 ^ 64 \<Longrightarrow> n < 2 ^ 64 \<Longrightarrow> mul_or_panic (word64 m) (word64 n) = Ok (word64 (m * n))"
  by (simp add: mul_or_panic_def word64_def unat_of_nat take_bit_nat_eq_self)

lemma sub_word64: "n \<le> m \<Longrightarrow> m < 2 ^ 64 \<Longrightarrow> sub_or_panic (word64 m) (word64 n) = Ok (word64 (m - n))"
  by (simp add: sub_or_panic_def word64_def word_le_nat_alt unat_of_nat take_bit_nat_eq_self of_nat_diff)

lemma div_word64: "m < 2 ^ 64 \<Longrightarrow> n < 2 ^ 64 \<Longrightarrow> word64 m div word64 n = word64 (m div n)"
  by (simp add: word64_def word_arith_nat_div unat_of_nat take_bit_nat_eq_self)

lemma order_word64:
  assumes "m < 2 ^ 64" and "n < 2 ^ 64"
  shows "word64 m < word64 n \<longleftrightarrow> m < n" and "word64 m \<le> word64 n \<longleftrightarrow> m \<le> n"
  using assms by (simp_all add: word64_def word_less_nat_alt word_le_nat_alt unat_of_nat take_bit_nat_eq_self)

lemma utc_date_civil:
  assumes z: "719468 + unat s div 86400 = 146097 * e + doe" and doe: "doe < 146097"
    and before: "365 * yoe + yoe div 4 - yoe div 100 \<le> doe"
    and yoe: "yoe = (doe - doe div 1460 + doe div 36524 - doe div 146096) div 365"
  shows "utc_date s = (case civil (719468 + unat s div 86400) of (y, m, d) \<Rightarrow>
    Ok (dec_padded 4 y @ ''-'' @ dec_padded 2 m @ ''-'' @ dec_padded 2 d))"
proof -
  define n where "n = unat s div 86400"
  define t where "t = doe - doe div 1460 + doe div 36524"
  define doy where "doy = doe - (365 * yoe + yoe div 4 - yoe div 100)"
  define mp where "mp = (5 * doy + 2) div 153"
  define m where "m = (if mp < 10 then mp + 3 else mp - 9)"
  have "unat s < 18446744073709551616" using unsigned_less [of s] by simp
  then have n: "n < 2 ^ 48" by (simp add: n_def less_mult_imp_div_less)
  have e: "146097 * e + doe < 2 ^ 49" "e < 2 ^ 32" using z n by (simp_all add: n_def [symmetric])
  have t: "t < 2 ^ 32" "doe div 146096 \<le> t" using doe div_le_mono2 [of 36524 146096 doe]
    by (simp_all add: t_def trans_le_add2)
  have "yoe \<le> t" by (simp add: yoe t_def [symmetric] trans_le_add2)
  with t have y: "yoe < 2 ^ 32" by simp
  have doy: "doy < 2 ^ 32" using doe by (simp add: doy_def)
  have mp: "mp < 2 ^ 32" using doy div_le_dividend [of "5 * doy + 2" 153] by (simp add: mp_def less_mult_imp_div_less)
  have m: "m < 2 ^ 33" using mp by (simp add: m_def less_imp_diff_less)
  have le: "yoe div 100 \<le> 365 * yoe + yoe div 4"
    using div_le_dividend [of yoe 100] by linarith
  have y4: "365 * yoe + yoe div 4 < 2 ^ 64"
    using y div_le_dividend [of yoe 4] by simp
  have day: "(153 * mp + 2) div 5 \<le> doy"
    using div_times_less_eq_dividend [of "5 * doy + 2" 153] by (simp add: mp_def)
  have s: "s div word64 86400 = word64 n"
    using div_word64 [of "unat s" 86400] unsigned_less [of s] by (simp add: n_def word64_unat)
  have c: "civil (719468 + n) = (yoe + e * 400 + (if m \<le> 2 then 1 else 0), m, doy - (153 * mp + 2) div 5 + 1)"
  proof -
    have "(719468 + n) div 146097 = e" "719468 + n - e * 146097 = doe"
      using z doe by (simp_all add: n_def)
    then show ?thesis
      unfolding civil_def Let_def by (simp only: yoe [symmetric] doy_def [symmetric] mp_def [symmetric] m_def [symmetric])
  qed
  have z': "n + 719468 = 146097 * e + doe" using z by (simp add: n_def)
  have era: "(146097 * e + doe) div 146097 = e" using doe by simp
  have 1: "add_or_panic (word64 n) (word64 719468) = Ok (word64 (146097 * e + doe))"
    unfolding z' [symmetric] using n by (intro add_word64) simp
  have 2: "word64 (146097 * e + doe) div word64 146097 = word64 e"
    using div_word64 [of "146097 * e + doe" 146097] e doe by simp
  have 3: "mul_or_panic (word64 e) (word64 146097) = Ok (word64 (e * 146097))"
    "mul_or_panic (word64 e) (word64 400) = Ok (word64 (e * 400))"
    using e by (auto intro: mul_word64)
  have 4: "sub_or_panic (word64 (146097 * e + doe)) (word64 (e * 146097)) = Ok (word64 doe)"
    using sub_word64 [of "e * 146097" "146097 * e + doe"] e doe by simp
  have 5: "word64 doe div word64 1460 = word64 (doe div 1460)" "word64 doe div word64 36524 = word64 (doe div 36524)"
    "word64 doe div word64 146096 = word64 (doe div 146096)"
    using doe by (auto intro: div_word64)
  have 6: "sub_or_panic (word64 doe) (word64 (doe div 1460)) = Ok (word64 (doe - doe div 1460))"
    using doe by (intro sub_word64) simp_all
  have 7: "add_or_panic (word64 (doe - doe div 1460)) (word64 (doe div 36524)) = Ok (word64 t)"
    using add_word64 [of "doe - doe div 1460" "doe div 36524"] t by (simp add: t_def)
  have 8: "sub_or_panic (word64 t) (word64 (doe div 146096)) = Ok (word64 (t - doe div 146096))"
    using t by (intro sub_word64) simp_all
  have 9: "word64 (t - doe div 146096) div word64 365 = word64 yoe"
    unfolding yoe t_def [symmetric] using t(1) less_imp_diff_less by (intro div_word64) simp_all
  have 10: "mul_or_panic (word64 365) (word64 yoe) = Ok (word64 (365 * yoe))"
    using y by (intro mul_word64) simp_all
  have 11: "word64 yoe div word64 4 = word64 (yoe div 4)" "word64 yoe div word64 100 = word64 (yoe div 100)"
    using y by (auto intro: div_word64)
  have 12: "add_or_panic (word64 (365 * yoe)) (word64 (yoe div 4)) = Ok (word64 (365 * yoe + yoe div 4))"
    by (rule add_word64 [OF y4])
  have 13: "sub_or_panic (word64 (365 * yoe + yoe div 4)) (word64 (yoe div 100))
      = Ok (word64 (365 * yoe + yoe div 4 - yoe div 100))"
    by (rule sub_word64 [OF le y4])
  have 14: "sub_or_panic (word64 doe) (word64 (365 * yoe + yoe div 4 - yoe div 100)) = Ok (word64 doy)"
    unfolding doy_def using before doe by (intro sub_word64) simp_all
  have 15: "mul_or_panic (word64 5) (word64 doy) = Ok (word64 (5 * doy))"
    using doy by (intro mul_word64) simp_all
  have 16: "add_or_panic (word64 (5 * doy)) (word64 2) = Ok (word64 (5 * doy + 2))"
    using doy by (intro add_word64) simp
  have 17: "word64 (5 * doy + 2) div word64 153 = word64 mp"
    unfolding mp_def using doy by (intro div_word64) simp_all
  have 18: "mul_or_panic (word64 153) (word64 mp) = Ok (word64 (153 * mp))"
    using mp by (intro mul_word64) simp_all
  have 19: "add_or_panic (word64 (153 * mp)) (word64 2) = Ok (word64 (153 * mp + 2))"
    using mp by (intro add_word64) simp
  have 20: "word64 (153 * mp + 2) div word64 5 = word64 ((153 * mp + 2) div 5)"
    using mp by (intro div_word64) simp_all
  have 21: "sub_or_panic (word64 doy) (word64 ((153 * mp + 2) div 5)) = Ok (word64 (doy - (153 * mp + 2) div 5))"
    using day doy by (intro sub_word64) simp_all
  have 22: "add_or_panic (word64 (doy - (153 * mp + 2) div 5)) (word64 1) = Ok (word64 (doy - (153 * mp + 2) div 5 + 1))"
    using doy by (intro add_word64) simp
  have 23: "(if word64 mp < word64 10 then add_or_panic (word64 mp) (word64 3) else sub_or_panic (word64 mp) (word64 9))
      = Ok (word64 m)"
    using mp by (simp add: m_def order_word64 add_word64 sub_word64)
  have 24: "add_or_panic (word64 yoe) (word64 (e * 400)) = Ok (word64 (yoe + e * 400))"
    using y e by (intro add_word64) simp
  have 25: "add_or_panic (word64 (yoe + e * 400)) (if word64 m \<le> word64 2 then word64 1 else word64 0)
      = Ok (word64 (yoe + e * 400 + (if m \<le> 2 then 1 else 0)))"
    using y e m by (simp add: order_word64 add_word64)
  have 26: "unat (word64 (yoe + e * 400 + (if m \<le> 2 then 1 else 0))) = yoe + e * 400 + (if m \<le> 2 then 1 else 0)"
    "unat (word64 m) = m" "unat (word64 (doy - (153 * mp + 2) div 5 + 1)) = doy - (153 * mp + 2) div 5 + 1"
    using y e m doy by simp_all
  show ?thesis
    unfolding utc_date_def Let_def word64_numeral word64_one word64_zero s n_def [symmetric] c
    by (simp only: 1 2 3 4 5 6 7 8 9 10 11 12 13 14 15 16 17 18 19 20 21 22 23 24 25 26 bind_outcome.simps prod.case)
qed

lemma utc_date_counted:
  "utc_date seconds = (case (next_day ^^ (unat seconds div 86400)) (1970, 1, 1) of (y, m, d) \<Rightarrow>
     Ok (dec_padded 4 y @ ''-'' @ dec_padded 2 m @ ''-'' @ dec_padded 2 d))"
proof -
  define x where "x = (next_day ^^ (unat seconds div 86400)) (1970, 1, 1)"
  have p: "proper_date x" and z: "march_days x = 719468 + unat seconds div 86400"
    using days_counted by (simp_all add: x_def)
  obtain e c q r doy where x: "march_days x = 146097 * e + (36524 * c + 1461 * q + 365 * r + doy)"
    and b: "c < 4" "q < 25" "r < 4" "doy \<le> 365" "doy = 365 \<longrightarrow> r = 3 \<and> (q \<noteq> 24 \<or> c = 3)"
    by (rule march_parts [OF p])
  have c: "civil (719468 + unat seconds div 86400) = x"
    using civil_march_days [OF p] z by simp
  have z: "719468 + unat seconds div 86400 = 146097 * e + (36524 * c + 1461 * q + 365 * r + doy)"
    using z x by simp
  have "365 * (100 * c + 4 * q + r) + (100 * c + 4 * q + r) div 4 - (100 * c + 4 * q + r) div 100
      \<le> 36524 * c + 1461 * q + 365 * r + doy"
    unfolding day_of_era(2) [OF b(1-4)] by simp
  from utc_date_civil [OF z day_of_era(1) [OF b(1-4)] this year_of_era [OF b refl, symmetric]]
  show ?thesis by (simp only: c x_def)
qed

text \<open>
  C34: The date of a number of seconds since the first of January 1970 is the one that day after day
  of the Gregorian calendar, leap years and all, leads to from there, for every 64-bit number, and
  none of the arithmetic overflows or goes below zero.
\<close>

theorem utc_date_counts:
  "utc_date seconds = (case (next_day ^^ (unat seconds div 86400)) (1970, 1, 1) of (y, m, d) \<Rightarrow>
     Ok (dec_padded 4 y @ ''-'' @ dec_padded 2 m @ ''-'' @ dec_padded 2 d))"
  by (rule utc_date_counted)


subsection \<open>Plain and coloured texts\<close>

text \<open>A text as it is meant: what is written, and the colours that are switched on the way.\<close>

datatype piece = Plain string | Colour string

fun marked :: "piece list \<Rightarrow> string" where
  "marked [] = []"
| "marked (Plain s # ps) = s @ marked ps"
| "marked (Colour c # ps) = backslash # c @ marked ps"

fun written :: "piece list \<Rightarrow> string" where
  "written [] = []"
| "written (Plain s # ps) = s @ written ps"
| "written (Colour c # ps) = written ps"

definition known_codes :: "string list" where
  "known_codes = [''0m'', ''1m'', ''4m'', ''32m'', ''33m'', ''1;31m'', ''1;32m'', ''1;33m'', ''1;4;34m'']"

definition no_codes :: "string \<Rightarrow> bool" where
  "no_codes s \<longleftrightarrow> backslash \<notin> set s \<and> CHR 0x1B \<notin> set s"

fun proper_piece :: "piece \<Rightarrow> bool" where
  "proper_piece (Plain s) \<longleftrightarrow> no_codes s"
| "proper_piece (Colour c) \<longleftrightarrow> c \<in> set known_codes"

text \<open>What a terminal without colours would show: the text without its escape sequences.\<close>

function remove_escapes :: "string \<Rightarrow> string" where
  "remove_escapes s =
     (case strip_prefix [CHR 0x1B, CHR ''[''] s of
        Some rest \<Rightarrow>
          if length rest < length s then remove_escapes (drop 1 (dropWhile (\<lambda>c. c \<noteq> CHR ''m'') rest)) else s
      | None \<Rightarrow> (case s of [] \<Rightarrow> [] | c # cs \<Rightarrow> c # remove_escapes cs))"
  by pat_completeness auto
termination
  by (relation "measure length") (auto intro: le_less_trans [OF diff_le_self] le_less_trans [OF length_dropWhile_le])

declare replace_str.simps [simp del] remove_escapes.simps [simp del]

lemma strip_prefix_append [simp]: "strip_prefix a (a @ s) = Some s"
  by (simp add: strip_prefix_Some_iff)

lemma replace_nothing [simp]: "replace_str (c # cs) to [] = []"
  by (simp add: replace_str.simps)

lemma replace_before: "c \<notin> set a \<Longrightarrow> replace_str (c # cs) to (a @ s) = a @ replace_str (c # cs) to s"
proof (induction a)
  case (Cons x a)
  then show ?case by (subst replace_str.simps) auto
qed simp

lemma replace_found: "replace_str (c # cs) to (c # cs @ s) = to @ replace_str (c # cs) to s"
  by (subst replace_str.simps) simp

lemma replace_other:
  "strip_prefix cs (a @ s) = None \<Longrightarrow> c \<notin> set a
     \<Longrightarrow> replace_str (c # cs) to (c # a @ s) = c # a @ replace_str (c # cs) to s"
  by (subst replace_str.simps) (simp add: replace_before)

lemma known_codes_apart:
  "a \<in> set known_codes \<Longrightarrow> b \<in> set known_codes \<Longrightarrow> a \<noteq> b \<Longrightarrow> strip_prefix a (b @ s) = None"
  by (auto simp: known_codes_def)

lemma known_codes_no_backslash: "a \<in> set known_codes \<Longrightarrow> backslash \<notin> set a"
  by (auto simp: known_codes_def backslash_def)

lemma strip_code:
  assumes "c \<in> set known_codes" and "list_all proper_piece ps"
  shows "replace_str (backslash # c) [] (marked ps) = marked (List.filter (\<lambda>p. p \<noteq> Colour c) ps)"
  using assms(2)
proof (induction ps)
  case (Cons p ps)
  show ?case
  proof (cases p)
    case (Plain s)
    with Cons show ?thesis by (simp add: no_codes_def replace_before)
  next
    case (Colour a)
    with Cons assms(1) show ?thesis
      by (simp add: replace_found replace_other known_codes_apart known_codes_no_backslash)
  qed
qed simp

lemma strip_all_codes:
  assumes "set cs \<subseteq> set known_codes" and "list_all proper_piece ps"
  shows "foldl (\<lambda>s code. replace_str (backslash # code) [] s) (marked ps) cs
    = marked (List.filter (\<lambda>p. \<forall>c\<in>set cs. p \<noteq> Colour c) ps)"
  using assms
proof (induction cs arbitrary: ps)
  case (Cons c cs)
  then have "list_all proper_piece (List.filter (\<lambda>p. p \<noteq> Colour c) ps)"
    by (auto simp: list_all_iff)
  from Cons.IH [OF _ this] Cons.prems show ?case
    by (simp add: strip_code conj_commute)
qed simp

lemma strip_codes_marked: "list_all proper_piece ps \<Longrightarrow> strip_codes (marked ps) = written ps"
proof -
  assume p: "list_all proper_piece ps"
  have "marked (List.filter (\<lambda>p. \<forall>c\<in>set known_codes. p \<noteq> Colour c) ps) = written ps"
    using p
  proof (induction ps)
    case (Cons p ps)
    then show ?case by (cases p) auto
  qed simp
  with strip_all_codes [OF subset_refl p] show ?thesis
    by (simp only: strip_codes_def known_codes_def)
qed

lemma escapes_before: "CHR 0x1B \<notin> set a \<Longrightarrow> remove_escapes (a @ s) = a @ remove_escapes s"
proof (induction a)
  case (Cons x a)
  then show ?case by (subst remove_escapes.simps) auto
qed simp

lemma escape_removed: "c \<in> set known_codes \<Longrightarrow> remove_escapes (CHR 0x1B # CHR ''['' # c @ s) = remove_escapes s"
  by (subst remove_escapes.simps) (auto simp: known_codes_def)

lemma remove_escapes_Nil [simp]: "remove_escapes [] = []"
  by (simp add: remove_escapes.simps)

lemma convert_codes_marked:
  "list_all proper_piece ps \<Longrightarrow> remove_escapes (convert_codes (marked ps) @ s) = written ps @ remove_escapes s"
proof (induction ps)
  case (Cons p ps)
  show ?case
  proof (cases p)
    case (Plain a)
    with Cons show ?thesis by (simp add: no_codes_def convert_codes_def replace_before escapes_before)
  next
    case (Colour c)
    with Cons show ?thesis
      using replace_found [of backslash "[]" "[CHR 0x1B, CHR ''['']" "c @ marked ps"]
      by (simp add: convert_codes_def replace_before known_codes_no_backslash escape_removed)
  qed
qed (simp add: convert_codes_def)


subsection \<open>The version\<close>

definition plain_tagline :: string where
  "plain_tagline = ''dog '' @ [CHR 0xE2, CHR 0x97, CHR 0x8F] @ '' command-line DNS client''"

definition version_pieces :: "Build \<Rightarrow> Provenance \<Rightarrow> piece list" where
  "version_pieces b p =
     [Plain ''dog '', Colour ''1;32m'', Plain [CHR 0xE2, CHR 0x97, CHR 0x8F], Colour ''0m'',
      Plain '' command-line DNS client'', Plain [CHR 0x0A], Plain ''v'', Plain (build_version b)]
     @ (if build_missing_features b \<noteq> [] then [Plain '' ['', Plain (build_missing_features b), Plain '']''] else [])
     @ (if build_profile b = ''debug''
        then [Plain '' '', Colour ''1;31m'', Plain ''(pre-release debug build!)'', Colour ''0m'']
        else if needs_provenance b
        then [Plain '' ['', Plain (prov_git_hash p), Plain ''] built on '', Plain (prov_date p),
              Plain '' '', Colour ''1;31m'', Plain ''(pre-release!)'', Colour ''0m'']
        else [])
     @ [Plain [CHR 0x0A], Colour ''1;4;34m'', Plain URL, Colour ''0m'']"

text \<open>What comes after the number of the version.\<close>

definition version_suffix :: "Build \<Rightarrow> Provenance \<Rightarrow> string" where
  "version_suffix b p =
     (if build_missing_features b \<noteq> [] then '' ['' @ build_missing_features b @ '']'' else [])
     @ (if build_profile b = ''debug'' then '' (pre-release debug build!)''
        else if needs_provenance b
        then '' ['' @ prov_git_hash p @ ''] built on '' @ prov_date p @ '' (pre-release!)''
        else [])"

lemma version_text_marked: "version_text b p = marked (version_pieces b p)"
  by (simp add: version_text_def version_pieces_def TAGLINE_def Let_def)

lemma version_pieces_proper:
  assumes "no_codes (build_version b)" and "no_codes (build_missing_features b)"
    and "needs_provenance b \<Longrightarrow> no_codes (prov_git_hash p) \<and> no_codes (prov_date p)"
  shows "list_all proper_piece (version_pieces b p)"
  using assms by (simp add: version_pieces_def known_codes_def no_codes_def backslash_def URL_def)

lemma version_pieces_written:
  "written (version_pieces b p) =
     plain_tagline @ [CHR 0x0A] @ ''v'' @ build_version b @ version_suffix b p @ [CHR 0x0A] @ URL"
  by (simp add: version_pieces_def version_suffix_def plain_tagline_def)

lemma no_codes_append [simp]: "no_codes (a @ b) \<longleftrightarrow> no_codes a \<and> no_codes b"
  by (auto simp: no_codes_def)

lemma no_codes_Nil [simp]: "no_codes []" and no_codes_Cons [simp]:
  "no_codes (c # s) \<longleftrightarrow> c \<noteq> backslash \<and> c \<noteq> CHR 0x1B \<and> no_codes s"
  by (auto simp: no_codes_def)

lemma no_codes_dec [simp]: "no_codes (dec n)" and no_codes_dec_padded [simp]: "no_codes (dec_padded w n)"
proof -
  have "c \<noteq> backslash \<and> c \<noteq> CHR 0x1B" if "is_ascii_digit c" for c
    using that by (auto simp: is_ascii_digit_def backslash_def)
  then show "no_codes (dec n)" "no_codes (dec_padded w n)"
    using dec_digits [of n] dec_padded_digits [of w n] by (auto simp: no_codes_def list_all_iff)
qed

lemma utc_date_no_codes: "utc_date s = Ok d \<Longrightarrow> no_codes d"
  by (auto simp: utc_date_counted backslash_def split: prod.splits)

lemma no_codes_missing_features: "no_codes (missing_features a b c)"
  by (cases a; cases b; cases c) (simp_all add: missing_features_def no_codes_def backslash_def)

end
