(* ===== verification/Build_Script.thy ===== *)
theory Build_Script
  imports Dog_Correct Version
begin

text \<open>
  The build script (\<open>build.rs\<close>): the texts that it writes for \<^verbatim>\<open>--version\<close> and \<^verbatim>\<open>--help\<close>, and what of
  them dog prints. The variables that Cargo sets, what the command \<^verbatim>\<open>git\<close> does, the files of the
  checkout and the clock are given. The script also prints lines to Cargo.
\<close>

subsection \<open>The code\<close>

text \<open>What becomes of a command: its status, with how that is shown, and output; or an error.\<close>

datatype command = Exited bool string "u8 list" | Not_Run string

record machine =
  env_var :: "string \<Rightarrow> string option"
  git_rev_parse :: command
  read_to_string :: "string \<Rightarrow> string option"
  path_exists :: "string \<Rightarrow> bool"
  unix_seconds :: "(string, u64) outcome"
  debug_text :: "string \<Rightarrow> string"
  parse_error :: "string \<Rightarrow> string"

text \<open>\<open>str::trim\<close>: the bytes of a character, and those of the blanks at either end.\<close>

definition char_width :: "nat \<Rightarrow> nat" where
  "char_width c = (if c < 0x80 then 1 else if c < 0x800 then 2 else if c < 0x10000 then 3 else 4)"

function trim_start :: "string \<Rightarrow> string" where
  "trim_start s =
     (case chars s of
        c # _ \<Rightarrow> if s \<noteq> [] \<and> is_whitespace c then trim_start (drop (char_width c) s) else s
      | [] \<Rightarrow> s)"
  by pat_completeness auto
termination
  by (relation "measure length") (auto simp: char_width_def)

definition last_blank :: "string \<Rightarrow> nat option" where
  "last_blank s =
     List.find (\<lambda>k. k \<le> length s \<and> (case chars (drop (length s - k) s) of
       [c] \<Rightarrow> is_whitespace c \<and> char_width c = k | _ \<Rightarrow> False)) [1, 2, 3, 4]"

function trim_end :: "string \<Rightarrow> string" where
  "trim_end s =
     (case last_blank s of
        Some k \<Rightarrow> if 0 < k \<and> s \<noteq> [] then trim_end (take (length s - k) s) else s
      | None \<Rightarrow> s)"
  by pat_completeness auto
termination
  by (relation "measure length") auto

definition trim_str :: "string \<Rightarrow> string" where
  "trim_str s = trim_end (trim_start s)"

text \<open>\<open>cargo_env\<close> fails with the name of the variable.\<close>

definition cargo_env :: "machine \<Rightarrow> string \<Rightarrow> (string, string) outcome" where
  "cargo_env mc name = (case env_var mc name of Some v \<Rightarrow> Ok v | None \<Rightarrow> Err name)"

definition feature_enabled :: "machine \<Rightarrow> string \<Rightarrow> bool" where
  "feature_enabled mc name =
     (case env_var mc (''CARGO_FEATURE_'' @ name) of Some v \<Rightarrow> v \<noteq> [] | None \<Rightarrow> False)"

definition git_head_files :: "string \<Rightarrow> string list" where
  "git_head_files head =
     (case strip_prefix ''ref: '' (trim_str head) of
        Some reference \<Rightarrow> [''HEAD'', reference, ''packed-refs'']
      | None \<Rightarrow> [''HEAD''])"

text \<open>\<open>Path::join\<close> on Unix.\<close>

definition path_join :: "string \<Rightarrow> string \<Rightarrow> string" where
  "path_join a b =
     (if b \<noteq> [] \<and> hd b = CHR ''/'' then b else if a = [] \<or> last a = CHR ''/'' then a @ b else a @ ''/'' @ b)"

definition watch_git_head :: "machine \<Rightarrow> (string, string list) outcome" where
  "watch_git_head mc =
     bind_outcome (cargo_env mc ''CARGO_MANIFEST_DIR'') (\<lambda>dir.
     let git = path_join dir ''.git'' in
     case read_to_string mc (path_join git ''HEAD'') of
       None \<Rightarrow> Ok []
     | Some head \<Rightarrow>
         Ok (map (\<lambda>path. ''cargo::rerun-if-changed='' @ path)
           (List.filter (path_exists mc) (map (path_join git) (git_head_files head)))))"

text \<open>The single quotation marks around the word, in UTF-8.\<close>

definition says_unknown :: string where
  "says_unknown = ''; the version will say '' @ [CHR 0xE2, CHR 0x80, CHR 0x98] @ ''unknown'' @ [CHR 0xE2, CHR 0x80, CHR 0x99]"

definition git_hash :: "machine \<Rightarrow> string \<times> string list" where
  "git_hash mc =
     (case git_rev_parse mc of
        Exited success status_text stdout \<Rightarrow>
          if success then (trim_str (lossy stdout), [])
          else (''unknown'', [''cargo::warning=git rev-parse failed ('' @ status_text @ '')'' @ says_unknown])
      | Not_Run e \<Rightarrow> (''unknown'', [''cargo::warning=could not run git ('' @ e @ '')'' @ says_unknown]))"

text \<open>A number to which \<open>trim\<close> leaves anything but ASCII is none.\<close>

definition parse_epoch :: "string \<Rightarrow> u64 option" where
  "parse_epoch epoch =
     map_option word_of_nat (Option.bind (trim_to_ascii epoch) (parse_unsigned (2 ^ 64)))"

definition date_now :: "machine \<Rightarrow> (string, string \<times> string list) outcome" where
  "date_now mc =
     (case unix_seconds mc of
        Ok elapsed \<Rightarrow> bind_outcome (utc_date elapsed) (\<lambda>date. Ok (date, []))
      | Err e \<Rightarrow>
          bind_outcome (utc_date 0) (\<lambda>date. Ok (date,
            [''cargo::warning=the system clock is before 1970 ('' @ e @ ''); using the epoch as the build date'']))
      | Panic \<Rightarrow> Panic)"

definition build_date :: "machine \<Rightarrow> (string, string \<times> string list) outcome" where
  "build_date mc =
     (case env_var mc ''SOURCE_DATE_EPOCH'' of
        Some epoch \<Rightarrow>
          (case parse_epoch epoch of
             Some seconds \<Rightarrow> bind_outcome (utc_date seconds) (\<lambda>date. Ok (date, []))
           | None \<Rightarrow>
               bind_outcome (date_now mc) (\<lambda>(date, out). Ok (date,
                 (''cargo::warning=ignoring SOURCE_DATE_EPOCH='' @ debug_text mc epoch @ '': '' @ parse_error mc epoch)
                   # out)))
      | None \<Rightarrow> date_now mc)"

definition provenance :: "machine \<Rightarrow> Build \<Rightarrow> (string, string \<times> string \<times> string list) outcome" where
  "provenance mc build =
     (if needs_provenance build then
        bind_outcome (watch_git_head mc) (\<lambda>watched.
        let (hash, git_out) = git_hash mc in
        bind_outcome (build_date mc) (\<lambda>(date, date_out).
        Ok (hash, date, watched @ git_out @ date_out)))
      else Ok ([], [], []))"

text \<open>
  The script, given the usage text: the four files that it writes, and its lines to Cargo. The messages
  of \<open>getopts\<close> are not among its texts, but part of the record of those that dog prints.
\<close>

definition build_script ::
  "machine \<Rightarrow> string \<Rightarrow> (getopts_fail \<Rightarrow> string) \<Rightarrow> (string, texts \<times> string list) outcome" where
  "build_script mc usage fails =
     bind_outcome (cargo_env mc ''PROFILE'') (\<lambda>profile.
     bind_outcome (cargo_env mc ''CARGO_PKG_VERSION'') (\<lambda>pkg_version.
     let missing = missing_features (feature_enabled mc ''WITH_IDNA'') (feature_enabled mc ''WITH_TLS'')
                     (feature_enabled mc ''WITH_HTTPS'');
         build = \<lparr>build_profile = profile, build_version = pkg_version, build_missing_features = missing\<rparr>
     in bind_outcome (provenance mc build) (\<lambda>(hash, date, out).
        let ver = version_text build \<lparr>prov_git_hash = hash, prov_date = date\<rparr>; nl = [CHR 0x0A] in
        bind_outcome (cargo_env mc ''OUT_DIR'') (\<lambda>_.
        Ok (\<lparr>usage_pretty = convert_codes TAGLINE @ nl @ nl @ convert_codes usage,
             usage_bland = strip_codes TAGLINE @ nl @ nl @ strip_codes usage,
             version_pretty = convert_codes ver @ nl, version_bland = strip_codes ver @ nl,
             fail_text = fails\<rparr>, out @ [''cargo::rerun-if-env-changed=SOURCE_DATE_EPOCH''])))))"


subsection \<open>What dog prints of it\<close>

lemma utc_date_total: "\<exists>d. utc_date s = Ok d"
  by (simp add: utc_date_counted split: prod.split)

lemma build_date_no_codes: "build_date mc = Ok (d, out) \<Longrightarrow> no_codes d"
  by (auto simp: build_date_def date_now_def bind_outcome_Ok_iff utc_date_no_codes split: option.splits outcome.splits)

text \<open>The build as the variables of Cargo describe it, and the lines of its version.\<close>

definition build_of :: "machine \<Rightarrow> string \<Rightarrow> string \<Rightarrow> Build" where
  "build_of mc profile version =
     \<lparr>build_profile = profile, build_version = version,
      build_missing_features = missing_features (feature_enabled mc ''WITH_IDNA'')
        (feature_enabled mc ''WITH_TLS'') (feature_enabled mc ''WITH_HTTPS'')\<rparr>"

definition version_lines :: "string \<Rightarrow> Build \<Rightarrow> Provenance \<Rightarrow> string" where
  "version_lines version b p =
     plain_tagline @ [CHR 0x0A] @ ''v'' @ version @ version_suffix b p @ [CHR 0x0A] @ URL @ [CHR 0x0A]"

lemma built_version:
  assumes "build_script mc usage fails = Ok (tx, cargo_lines)"
    and "env_var mc ''PROFILE'' = Some profile" and "env_var mc ''CARGO_PKG_VERSION'' = Some version"
    and "build_date mc = Ok (date, date_lines)" and "no_codes version" and "no_codes (fst (git_hash mc))"
  shows "version_bland tx = version_lines version (build_of mc profile version) \<lparr>prov_git_hash = fst (git_hash mc), prov_date = date\<rparr>"
    and "remove_escapes (version_pretty tx) = version_bland tx"
proof -
  let ?b = "build_of mc profile version"
  define p where "p = (if needs_provenance ?b then \<lparr>prov_git_hash = fst (git_hash mc), prov_date = date\<rparr>
    else \<lparr>prov_git_hash = [], prov_date = []\<rparr>)"
  obtain hash d out where prov: "provenance mc ?b = Ok (hash, d, out)"
    and tx: "version_bland tx = strip_codes (version_text ?b \<lparr>prov_git_hash = hash, prov_date = d\<rparr>) @ [CHR 0x0A]"
      "version_pretty tx = convert_codes (version_text ?b \<lparr>prov_git_hash = hash, prov_date = d\<rparr>) @ [CHR 0x0A]"
    using assms(1-3) by (auto simp: build_script_def cargo_env_def build_of_def Let_def bind_outcome_Ok_iff)
  have p: "\<lparr>prov_git_hash = hash, prov_date = d\<rparr> = p"
    using prov assms(4)
    by (cases "git_hash mc") (auto simp: provenance_def p_def bind_outcome_Ok_iff split: if_splits)
  have "list_all proper_piece (version_pieces ?b p)"
    using assms(5,6) build_date_no_codes [OF assms(4)]
    by (intro version_pieces_proper) (simp_all add: build_of_def no_codes_missing_features p_def)
  then show "version_bland tx = version_lines version ?b \<lparr>prov_git_hash = fst (git_hash mc), prov_date = date\<rparr>"
      "remove_escapes (version_pretty tx) = version_bland tx"
    using escapes_before [of "[CHR 0x0A]" "[]"]
    by (simp_all add: tx p version_text_marked strip_codes_marked convert_codes_marked version_pieces_written
          version_lines_def version_suffix_def p_def) (simp_all add: build_of_def)
qed

text \<open>
  C35: What \<^verbatim>\<open>dog --version\<close> prints is what the build script found: the tagline, the version of the
  package with the features left out of the build, whether it is a debug build, and for a build
  of a pre-release the commit and the date, and the web site. A terminal that wants colours is given
  the same with escape sequences in it, and nothing else.
\<close>

theorem version_is_shown:
  assumes "build_script mc usage fails = Ok (tx, cargo_lines)"
    and "env_var mc ''PROFILE'' = Some profile" and "env_var mc ''CARGO_PKG_VERSION'' = Some version"
    and "build_date mc = Ok (date, date_lines)" and "no_codes version" and "no_codes (fst (git_hash mc))"
    and "getopts parse_args (to_ascii_label su) args = Some (Version use_colours)"
    and "out_fails c = None" and "flush_fails c = None"
  shows "\<exists>out. dog os su tx parse_args args w c = (Some 0, w, c\<lparr>out_text := out_text c @ out\<rparr>)
    \<and> (if should_use_colours (terminal_environment su) use_colours then remove_escapes out else out)
      = version_lines version (build_of mc profile version) \<lparr>prov_git_hash = fst (git_hash mc), prov_date = date\<rparr>"
proof -
  define out where "out = pick (terminal_environment su) use_colours (version_pretty tx) (version_bland tx)"
  have "dog os su tx parse_args args w c = (Some 0, w, c\<lparr>out_text := out_text c @ out\<rparr>)"
    using assms(7-) by (simp add: dog_def emit_def write_out_def flush_def and_then_def out_def SUCCESS_def)
  moreover have "(if should_use_colours (terminal_environment su) use_colours then remove_escapes out else out)
      = version_lines version (build_of mc profile version) \<lparr>prov_git_hash = fst (git_hash mc), prov_date = date\<rparr>"
    using built_version [OF assms(1-6)] by (simp add: out_def pick_def)
  ultimately show ?thesis by blast
qed

definition sample_machine :: machine where
  "sample_machine =
     \<lparr>env_var = map_of [(''PROFILE'', ''release''), (''CARGO_PKG_VERSION'', ''0.2.0-pre''),
        (''CARGO_MANIFEST_DIR'', ''.''), (''OUT_DIR'', ''.'')],
      git_rev_parse = Not_Run ''not found'',
      read_to_string = (\<lambda>_. None), path_exists = (\<lambda>_. False), unix_seconds = Ok 0,
      debug_text = (\<lambda>s. s), parse_error = (\<lambda>_. [])\<rparr>"

lemma sample_date: "build_date sample_machine = Ok (''1970-01-01'', [])"
  by (simp add: build_date_def date_now_def sample_machine_def utc_date_counted dec_padded_def dec.simps digit_def)
    (simp add: char_of_def bit_0)

lemma sample_hash: "git_hash sample_machine =
    (''unknown'', [''cargo::warning=could not run git (not found)'' @ says_unknown])"
  by (simp add: git_hash_def sample_machine_def)

lemma sample_build: "\<exists>tx ls. build_script sample_machine [] (\<lambda>_. []) = Ok (tx, ls)"
proof -
  have env: "env_var sample_machine ''PROFILE'' = Some ''release''"
    "env_var sample_machine ''CARGO_PKG_VERSION'' = Some ''0.2.0-pre''" "env_var sample_machine ''OUT_DIR'' = Some ''.''"
    by (simp_all add: sample_machine_def)
  have "watch_git_head sample_machine = Ok []"
    by (simp add: watch_git_head_def cargo_env_def sample_machine_def)
  then show ?thesis
    by (simp add: build_script_def provenance_def cargo_env_def env Let_def sample_date sample_hash split: if_split)
qed

lemma version_is_shown_witness:
  "\<exists>tx ls. build_script sample_machine [] (\<lambda>_. []) = Ok (tx, ls) \<and>
     (\<forall>(os :: bool outside) (w :: unit secure_world_scheme) (su :: surroundings) (c :: console). \<exists>out.
        dog os su tx (\<lambda>_ _. Inr (sample_matches\<lparr>opt_present := \<lambda>name. name = ''version''\<rparr>)) () w
          (c\<lparr>out_fails := None, flush_fails := None\<rparr>)
          = (Some 0, w, c\<lparr>out_fails := None, flush_fails := None, out_text := out_text c @ out\<rparr>))"
proof -
  obtain tx ls where tx: "build_script sample_machine [] (\<lambda>_. []) = Ok (tx, ls)" using sample_build by blast
  have env: "env_var sample_machine ''PROFILE'' = Some ''release''"
    "env_var sample_machine ''CARGO_PKG_VERSION'' = Some ''0.2.0-pre''"
    by (simp_all add: sample_machine_def)
  have codes: "no_codes ''0.2.0-pre''" "no_codes (fst (git_hash sample_machine))"
    by (simp_all add: sample_hash backslash_def)
  have args: "getopts (\<lambda>_ _. Inr (sample_matches\<lparr>opt_present := \<lambda>name. name = ''version''\<rparr>)) to_ascii ()
      = Some (Version Automatic_Colours)" for to_ascii
    by (simp add: getopts_def options_result_def colours_deduce_def sample_matches_def or_else_def)
  have "\<exists>out. dog os su tx (\<lambda>_ _. Inr (sample_matches\<lparr>opt_present := \<lambda>name. name = ''version''\<rparr>)) () w
      (c\<lparr>out_fails := None, flush_fails := None\<rparr>)
      = (Some 0, w, c\<lparr>out_fails := None, flush_fails := None, out_text := out_text c @ out\<rparr>)"
    for os :: "bool outside" and w :: "unit secure_world_scheme" and su :: surroundings and c :: console
  proof -
    have "out_fails (c\<lparr>out_fails := None, flush_fails := None\<rparr>) = None"
      "flush_fails (c\<lparr>out_fails := None, flush_fails := None\<rparr>) = None" by simp_all
    from version_is_shown [OF tx env sample_date codes args this, of os su w]
    show ?thesis by auto
  qed
  with tx show ?thesis by blast
qed

end
