(* ===== verification/Logger.thy ===== *)
theory Logger
  imports Output
begin

text \<open>
  The log that the variable \<^verbatim>\<open>DOG_DEBUG\<close> turns on (\<open>src/logger.rs\<close>): how much of it, and how a line of
  it looks. The \<open>log\<close> package keeps the level and the logger that have been set; it takes a logger
  once. What is logged has no effect on anything else, so the other theories leave it out.
\<close>

datatype Level = Error_Level | Warn_Level | Info_Level | Debug_Level | Trace_Level

record log_record =
  rec_level :: Level
  rec_target :: string
  rec_args :: string

record Logger =
  logger_colour :: bool

definition COLOURED :: Logger where "COLOURED = \<lparr>logger_colour = True\<rparr>"
definition PLAIN :: Logger where "PLAIN = \<lparr>logger_colour = False\<rparr>"

text \<open>The state of the package, and its message for a second logger.\<close>

record log_state =
  max_level :: "Level option"
  logger_set :: "Logger option"

record 's log_terminal = "'s terminal" +
  fixed_colour :: "nat \<Rightarrow> 's"
  set_logger_text :: string

definition configure ::
  "'s log_terminal \<Rightarrow> environment \<Rightarrow> bool \<Rightarrow> string option \<Rightarrow> log_state \<Rightarrow> console \<Rightarrow> log_state \<times> console" where
  "configure t env stderr_is_terminal ev st c =
     (case ev of
        None \<Rightarrow> (st, c)
      | Some env_var \<Rightarrow>
          if env_var = [] then (st, c)
          else
            (let st = st\<lparr>max_level := Some (if env_var = ''trace'' then Trace_Level else Debug_Level)\<rparr>;
                 logger = (if wants_colour stderr_is_terminal (env_no_color env) (env_term env) then COLOURED else PLAIN)
             in case logger_set st of
                  Some _ \<Rightarrow> (st, stderr_line (''Failed to initialise logger: '' @ set_logger_text t) c)
                | None \<Rightarrow> (st\<lparr>logger_set := Some logger\<rparr>, c)))"

text \<open>The name of a level as the package shows it.\<close>

fun level_name :: "Level \<Rightarrow> string" where
  "level_name Error_Level = ''ERROR''"
| "level_name Warn_Level = ''WARN''"
| "level_name Info_Level = ''INFO''"
| "level_name Debug_Level = ''DEBUG''"
| "level_name Trace_Level = ''TRACE''"

fun level :: "'s log_terminal \<Rightarrow> Level \<Rightarrow> 's \<times> string" where
  "level t Error_Level = (normal t Red, ''ERROR'')"
| "level t Warn_Level = (normal t Yellow, ''WARN'')"
| "level t Info_Level = (normal t Cyan, ''INFO'')"
| "level t Debug_Level = (normal t Blue, ''DEBUG'')"
| "level t Trace_Level = (fixed_colour t 245, ''TRACE'')"

definition log_line :: "'s log_terminal \<Rightarrow> Logger \<Rightarrow> log_record \<Rightarrow> string" where
  "log_line t lg r =
     (if logger_colour lg then
        painted t (fixed_colour t 243, ''['') @ painted t (level t (rec_level r))
          @ '' '' @ rec_target r @ painted t (fixed_colour t 243, '']'') @ '' '' @ rec_args r
      else ''['' @ level_name (rec_level r) @ '' '' @ rec_target r @ ''] '' @ rec_args r)"

definition log_write :: "'s log_terminal \<Rightarrow> Logger \<Rightarrow> log_record \<Rightarrow> console \<Rightarrow> console" where
  "log_write t lg r = stderr_line (log_line t lg r)"

text \<open>Where painting leaves text as it is, both loggers write the same.\<close>

lemma log_line_unpainted:
  assumes "\<And>style s. painted t (style, s) = s"
  shows "log_line t COLOURED r = log_line t PLAIN r"
  by (cases "rec_level r") (simp_all add: log_line_def COLOURED_def PLAIN_def assms)

text \<open>The variable turns the log on exactly when it has a value, and then once.\<close>

lemma configure_on:
  assumes "logger_set st = None"
  shows "logger_set (fst (configure t env tty ev st c)) \<noteq> None \<longleftrightarrow> ev \<noteq> None \<and> ev \<noteq> Some []"
    and "snd (configure t env tty ev st c) = c"
  using assms by (auto simp: configure_def Let_def split: option.split)

end
