(* ===== verification/Ip_Text.thy ===== *)
theory Ip_Text
  imports Json Connect
begin

text \<open>
  The addresses that dog prints, and the ones it takes: an IP address that is displayed, in the short
  format of its records or in JSON, is read as the same address, so that it can be given to dog
  as a nameserver.
\<close>

subsection \<open>Numbers\<close>

text \<open>A text of digits, and the digits.\<close>

abbreviation digits_of :: "nat \<Rightarrow> string \<Rightarrow> nat list \<Rightarrow> bool" where
  "digits_of radix \<equiv> list_all2 (\<lambda>c d. to_digit radix c = Some d)"

abbreviation number_of :: "nat \<Rightarrow> nat list \<Rightarrow> nat" where
  "number_of radix \<equiv> foldl (\<lambda>v d. v * radix + d) 0"

abbreviation stops :: "nat \<Rightarrow> string \<Rightarrow> bool" where
  "stops radix rest \<equiv> rest = [] \<or> to_digit radix (hd rest) = None"

lemma read_digits_of: "digits_of radix s ds \<Longrightarrow> stops radix rest \<Longrightarrow> read_digits radix (s @ rest) = (ds, rest)"
proof (induction s ds rule: list_all2_induct)
  case Nil
  then show ?case by (cases rest) auto
qed auto

lemma read_number_of:
  assumes "digits_of radix s ds" and "stops radix rest" and "s \<noteq> []" and "length s \<le> max_digits"
    and "allow_zero_prefix \<or> length s = 1 \<or> hd s \<noteq> CHR ''0''" and "number_of radix ds < bound"
  shows "read_number radix max_digits allow_zero_prefix bound (s @ rest) = Some (number_of radix ds, rest)"
proof -
  have "length ds = length s" using assms(1) by (simp add: list_all2_lengthD)
  moreover have "hd (s @ rest) = hd s" using assms(3) by simp
  ultimately show ?thesis
    using read_digits_of [OF assms(1,2)] assms(3-6) by (auto simp: read_number_def)
qed

lemma to_digit_10: "d < 10 \<Longrightarrow> to_digit 10 (digit d) = Some d"
  by (simp add: to_digit_def of_char_digit)

lemma dec_number: "\<exists>ds. digits_of 10 (dec n) ds \<and> number_of 10 ds = n"
proof (induction n rule: dec.induct)
  case (1 n)
  show ?case
  proof (cases "n < 10")
    case True
    then show ?thesis by (intro exI [of _ "[n]"]) (simp add: dec.simps [of n] to_digit_10)
  next
    case False
    with 1 obtain ds where "digits_of 10 (dec (n div 10)) ds" "number_of 10 ds = n div 10" by blast
    with False show ?thesis
      by (intro exI [of _ "ds @ [n mod 10]"]) (simp add: dec.simps [of n] list_all2_appendI to_digit_10)
  qed
qed

lemma dec_no_zero_prefix: "0 < n \<Longrightarrow> hd (dec n) \<noteq> CHR ''0''"
proof (induction n rule: dec.induct)
  case (1 n)
  show ?case
  proof (cases "n < 10")
    case True
    with "1.prems" of_char_digit [OF True] show ?thesis by (auto simp: dec.simps [of n])
  next
    case False
    with 1 show ?thesis by (simp add: dec.simps [of n])
  qed
qed

lemma to_digit_16: "d < 16 \<Longrightarrow> to_digit 16 (hex_digit d) = Some d"
proof -
  assume "d < 16"
  then have "d \<in> set [0..<16]" by simp
  then show ?thesis
    by (simp add: upt_rec) (elim disjE; simp add: to_digit_def hex_digit_def)
qed

lemma hex_number: "\<exists>ds. digits_of 16 (hex_nat n) ds \<and> number_of 16 ds = n"
proof (induction n rule: hex_nat.induct)
  case (1 n)
  show ?case
  proof (cases "n < 16")
    case True
    then show ?thesis by (intro exI [of _ "[n]"]) (simp add: hex_nat.simps [of n] to_digit_16)
  next
    case False
    with 1 obtain ds where "digits_of 16 (hex_nat (n div 16)) ds" "number_of 16 ds = n div 16" by blast
    with False show ?thesis
      by (intro exI [of _ "ds @ [n mod 16]"]) (simp add: hex_nat.simps [of n] list_all2_appendI to_digit_16)
  qed
qed

lemma length_hex_nat: "n < 16 ^ k \<Longrightarrow> 0 < k \<Longrightarrow> length (hex_nat n) \<le> k"
proof (induction k arbitrary: n)
  case (Suc k)
  show ?case
  proof (cases "n < 16")
    case True
    then show ?thesis by (simp add: hex_nat.simps [of n])
  next
    case False
    with Suc.prems have "n div 16 < 16 ^ k" "0 < k"
      by (auto simp: less_mult_imp_div_less mult.commute intro: gr0I)
    with Suc.IH False show ?thesis by (simp add: hex_nat.simps [of n])
  qed
qed simp

lemma hex_nat_not_Nil [simp]: "hex_nat n \<noteq> []"
  by (subst hex_nat.simps) simp

lemma read_octet: "stops 10 rest \<Longrightarrow> read_number 10 3 False 256 (dec (unat (b :: u8)) @ rest) = Some (unat b, rest)"
proof -
  assume stops: "stops 10 rest"
  have small: "unat b < 256" by (rule unat_u8_less)
  obtain ds where ds: "digits_of 10 (dec (unat b)) ds" "number_of 10 ds = unat b" using dec_number by blast
  have "length (dec (unat b)) \<le> 3" using length_dec_le [of "unat b" 3] small by simp
  moreover have "length (dec (unat b)) = 1 \<or> hd (dec (unat b)) \<noteq> CHR ''0''"
    using dec_no_zero_prefix [of "unat b"] by (cases "unat b = 0") (auto simp: dec.simps [of 0])
  ultimately show ?thesis using read_number_of [OF ds(1) stops, of 3 False 256] ds(2) small by simp
qed

lemma read_group: "stops 16 rest \<Longrightarrow> read_number 16 4 True 65536 (hex_nat (unat (g :: u16)) @ rest) = Some (unat g, rest)"
proof -
  assume stops: "stops 16 rest"
  have small: "unat g < 65536" by (rule unat_u16_less)
  obtain ds where ds: "digits_of 16 (hex_nat (unat g)) ds" "number_of 16 ds = unat g" using hex_number by blast
  have "length (hex_nat (unat g)) \<le> 4" using length_hex_nat [of "unat g" 4] small by simp
  then show ?thesis using read_number_of [OF ds(1) stops, of 4 True 65536] ds(2) small by simp
qed


subsection \<open>Addresses\<close>

lemma read_ipv4_shown:
  assumes "length octets = 4" and "stops 10 rest"
  shows "read_ipv4_addr (show_ipv4 octets @ rest) = Some (octets, rest)"
proof -
  have dot: "stops 10 (CHR ''.'' # s)" for s by (simp add: to_digit_def)
  obtain a b c d where octets: "octets = [a, b, c, d]"
    using assms(1) by (auto simp: length_Suc_conv numeral_eq_Suc)
  have four: "(4 :: nat) = Suc (Suc (Suc (Suc 0)))" by simp
  show ?thesis
    unfolding read_ipv4_addr_def octets four show_ipv4_def
    using read_octet [OF dot] read_octet [OF assms(2)]
    by (simp add: read_separator_def read_given_char_def)
qed
text \<open>Without a dot there is no IPv4 address, in a text or after its first group.\<close>

lemma read_ipv4_dotless: "CHR ''.'' \<notin> set s \<Longrightarrow> read_ipv4_addr s = None"
proof -
  assume dotless: "CHR ''.'' \<notin> set s"
  have "read_octets 1 3 rest = None" if "CHR ''.'' \<notin> set rest" for rest
    using that by (cases rest) (auto simp: numeral_eq_Suc read_separator_def read_given_char_def)
  moreover have "CHR ''.'' \<notin> set rest" if "read_number 10 3 False 256 s = Some (n, rest)" for n rest
    using read_number_prefix [OF that] dotless by auto
  ultimately show ?thesis
    by (auto simp: read_ipv4_addr_def numeral_eq_Suc read_separator_def split: option.split)
qed

lemma separator_none: "scan s = None \<Longrightarrow> read_separator sep i scan (if 0 < i then sep # s else s) = None"
  by (simp add: read_separator_def read_given_char_def)

text \<open>The groups, each after a colon but the first.\<close>

fun groups_text :: "nat \<Rightarrow> u16 list \<Rightarrow> string" where
  "groups_text i [] = []"
| "groups_text i (g # gs) = (if 0 < i then [CHR '':''] else []) @ hex_nat (unat g) @ groups_text (Suc i) gs"

lemma show_groups_Cons:
  "show_groups (g # gs) = hex_nat (unat g) @ (if gs = [] then [] else CHR '':'' # show_groups gs)"
  by (cases gs) (simp_all add: show_groups_def)

lemma groups_text_Suc: "groups_text (Suc i) gs = (if gs = [] then [] else CHR '':'' # show_groups gs)"
  by (induction gs arbitrary: i) (simp_all add: show_groups_Cons)

lemma groups_text_show: "groups_text 0 gs = show_groups gs"
  by (cases gs) (simp_all add: show_groups_Cons groups_text_Suc, simp add: show_groups_def)

lemma hex_nat_chars: "list_all hex_char (hex_nat n)"
proof -
  obtain ds where "digits_of 16 (hex_nat n) ds" using hex_number by blast
  then show ?thesis
    by (induction rule: list_all2_induct) (auto simp: hex_char_def)
qed

text \<open>What can come after groups: nothing, or the two colons.\<close>

abbreviation after_groups :: "string \<Rightarrow> bool" where
  "after_groups rest \<equiv> rest = [] \<or> (\<exists>s. rest = CHR '':'' # CHR '':'' # s)"

lemma groups_text_stops: "after_groups rest \<Longrightarrow> stops 16 (groups_text (Suc i) gs @ rest)"
  by (cases gs) (auto simp: to_digit_def)

lemma groups_text_dotless: "CHR ''.'' \<notin> set (groups_text i gs)"
proof (induction gs arbitrary: i)
  case (Cons g gs)
  have "CHR ''.'' \<notin> set (hex_nat (unat g))"
    using hex_nat_chars [of "unat g"] by (auto simp: list_all_iff)
  with Cons show ?case by simp
qed simp

lemma read_groups_shown:
  assumes "length gs \<le> k" and "after_groups rest" and "CHR ''.'' \<notin> set rest" and "0 < i \<or> gs \<noteq> []"
  shows "read_groups i k (groups_text i gs @ rest) = (gs, False, rest)"
  using assms
proof (induction gs arbitrary: i k)
  case Nil
  then have i: "0 < i" by simp
  have none: "read_number 16 4 True 65536 (CHR '':'' # s) = None" for s
    by (simp add: read_number_def to_digit_def)
  from Nil i show ?case
    by (cases k) (auto simp: read_separator_def read_given_char_def none read_ipv4_dotless)
next
  case (Cons g gs)
  then obtain k' where k: "k = Suc k'" "length gs \<le> k'" by (cases k) auto
  let ?s = "hex_nat (unat g) @ groups_text (Suc i) gs @ rest"
  have split: "groups_text i (g # gs) @ rest = (if 0 < i then CHR '':'' # ?s else ?s)" by simp
  have "CHR ''.'' \<notin> set ?s"
    using groups_text_dotless [of i "g # gs"] groups_text_dotless [of "Suc i" gs] Cons.prems(3) by auto
  then have v4: "read_separator CHR '':'' i read_ipv4_addr (groups_text i (g # gs) @ rest) = None"
    unfolding split by (intro separator_none read_ipv4_dotless)
  have group: "read_number 16 4 True 65536 ?s = Some (unat g, groups_text (Suc i) gs @ rest)"
    by (rule read_group [OF groups_text_stops [OF Cons.prems(2)]])
  then have "read_separator CHR '':'' i (read_number 16 4 True 65536) (groups_text i (g # gs) @ rest)
      = Some (unat g, groups_text (Suc i) gs @ rest)"
    unfolding split by (cases "i = 0") (simp_all add: read_separator_def read_given_char_def)
  with v4 Cons.IH [of k' "Suc i"] k Cons.prems(2,3) show ?case by (cases k') simp_all
qed
lemma read_groups_none: "read_groups 0 k (CHR '':'' # s) = ([], False, CHR '':'' # s)"
proof (cases k)
  case (Suc k')
  have "read_ipv4_addr (CHR '':'' # s) = None"
    by (simp add: read_ipv4_addr_def numeral_eq_Suc read_separator_def read_number_def to_digit_def)
  moreover have "read_number 16 4 True 65536 (CHR '':'' # s) = None"
    by (simp add: read_number_def to_digit_def)
  ultimately show ?thesis by (simp add: Suc read_separator_def)
qed simp

lemma read_groups_start:
  assumes "length gs \<le> k" and "after_groups rest" and "CHR ''.'' \<notin> set rest" and "gs = [] \<longrightarrow> rest \<noteq> [] \<or> k = 0"
  shows "read_groups 0 k (show_groups gs @ rest) = (gs, False, rest)"
proof (cases "gs = []")
  case True
  with assms show ?thesis by (auto simp: show_groups_def read_groups_none)
next
  case False
  with read_groups_shown [OF assms(1-3), of 0] show ?thesis by (simp add: groups_text_show)
qed

lemma read_groups_Nil: "read_groups 0 k [] = ([], False, [])"
  by (cases k) (simp_all add: read_ipv4_dotless read_separator_def read_number_def)

text \<open>The run of zeros that is left out.\<close>

lemma zeros_at_run: "take (zeros_at gs i) (drop i gs) = replicate (zeros_at gs i) 0"
  unfolding zeros_at_def
  by (metis (mono_tags, lifting) replicate_eqI set_takeWhileD takeWhile_eq_take)

lemma longest_zeros_run:
  assumes "longest_zeros gs = (start, len)"
  shows "start + len \<le> length gs \<and> take len (drop start gs) = replicate len 0"
proof -
  let ?step = "\<lambda>(start, len) i. if len < zeros_at gs i then (i, zeros_at gs i) else (start, len)"
  let ?P = "\<lambda>(start, len). start + len \<le> length gs \<and> take len (drop start gs) = replicate len 0"
  have run: "?P (foldl ?step p is)" if "?P p" "set is \<subseteq> {..<length gs}" for p "is"
    using that
  proof (induction "is" arbitrary: p)
    case (Cons i "is")
    have "i + zeros_at gs i \<le> length gs"
      using Cons.prems(2) length_takeWhile_le [of "\<lambda>g. g = 0" "drop i gs"] by (auto simp: zeros_at_def)
    with Cons.prems zeros_at_run [of gs i] have "?P (?step p i)" by (auto split: prod.splits)
    with Cons show ?case by simp
  qed simp
  have "?P (longest_zeros gs)" unfolding longest_zeros_def by (rule run) auto
  with assms show ?thesis by simp
qed

lemma read_ipv6_mapped:
  "read_ipv6_addr (''::ffff:'' @ show_ipv4 [a, b, c, d]) = Some (replicate 5 0 @ [0xFFFF, be16 a b, be16 c d], [])"
proof -
  let ?v4 = "show_ipv4 [a, b, c, d]"
  have "read_ipv4_addr ?v4 = Some ([a, b, c, d], [])" using read_ipv4_shown [of "[a, b, c, d]" "[]"] by simp
  then have v4: "read_groups 1 6 (CHR '':'' # ?v4) = ([be16 a b, be16 c d], True, [])"
    by (simp add: numeral_eq_Suc read_separator_def read_given_char_def)
  have none: "read_ipv4_addr (''ffff:'' @ s) = None" for s
    by (simp add: read_ipv4_addr_def numeral_eq_Suc read_separator_def read_number_def to_digit_def)
  have "read_number 16 4 True 65536 (''ffff:'' @ s) = Some (0xFFFF, CHR '':'' # s)" for s
    by (simp add: read_number_def to_digit_def)
  with none v4 have "read_groups 0 (Suc 6) (''ffff:'' @ ?v4) = ([0xFFFF, be16 a b, be16 c d], True, [])"
    unfolding read_groups.simps(2) by (simp add: read_separator_def)
  then show ?thesis
    by (simp add: read_ipv6_addr_def read_groups_none read_given_char_def)
qed

lemma drop_groups_of: "drop k (groups_of octets) = groups_of (drop (2 * k) octets)"
proof (induction octets arbitrary: k rule: groups_of.induct)
  case (1 a b rest)
  then show ?case by (cases k) simp_all
qed (auto simp: drop_Cons' split: if_splits)

lemma read_ipv6_shown:
  assumes "length octets = 16"
  shows "read_ipv6_addr (show_ipv6 octets) = Some (groups_of octets, [])"
proof -
  let ?gs = "groups_of octets"
  have gs: "length ?gs = 8" using assms by (auto simp: length_Suc_conv numeral_eq_Suc)
  show ?thesis
  proof (cases "take 5 ?gs = replicate 5 0 \<and> ?gs ! 5 = 0xFFFF")
    case True
    obtain a b c d where octets: "drop 12 octets = [a, b, c, d]"
      using assms by (auto simp: length_Suc_conv numeral_eq_Suc)
    have "drop 6 ?gs = [be16 a b, be16 c d]" using drop_groups_of [of 6 octets] octets by simp
    with True id_take_nth_drop [of 5 ?gs] gs have all: "?gs = replicate 5 0 @ [0xFFFF, be16 a b, be16 c d]" by simp
    show ?thesis
      unfolding all using read_ipv6_mapped [of a b c d] by (simp add: True show_ipv6_def octets)
  next
    case plain: False
    obtain start len where run: "longest_zeros ?gs = (start, len)" by fastforce
    show ?thesis
    proof (cases "1 < len")
      case True
      let ?h = "take start ?gs" and ?t = "drop (start + len) ?gs"
      from longest_zeros_run [OF run] gs have bound: "start + len \<le> 8"
        and zeros: "take len (drop start ?gs) = replicate len 0" by simp_all
      then have all: "?gs = ?h @ replicate len 0 @ ?t"
        by (metis append_take_drop_id drop_drop add.commute)
      have "read_groups 0 8 (show_groups ?h @ ''::'' @ show_groups ?t) = (?h, False, ''::'' @ show_groups ?t)"
        using gs groups_text_dotless [of 0 ?t] by (intro read_groups_start) (auto simp: groups_text_show)
      moreover have "read_groups 0 (8 - (start + 1)) (show_groups ?t) = (?t, False, [])"
      proof (cases "?t = []")
        case False
        with True gs bound read_groups_start [of ?t "8 - (start + 1)" "[]"] show ?thesis by simp
      qed (simp add: show_groups_def read_groups_Nil)
      moreover have "8 - start - length ?t = len" "length ?h = start" using gs bound by simp_all
      moreover have "show_ipv6 octets = show_groups ?h @ ''::'' @ show_groups ?t"
        using run True by (simp only: show_ipv6_def Let_def if_not_P [OF plain]) simp
      ultimately show ?thesis
        using all bound True by (simp add: read_ipv6_addr_def read_given_char_def)
    next
      case short: False
      have "read_groups 0 8 (show_groups ?gs @ []) = (?gs, False, [])"
        using gs by (intro read_groups_start) auto
      moreover have "show_ipv6 octets = show_groups ?gs"
        using run short by (simp only: show_ipv6_def Let_def if_not_P [OF plain]) simp
      ultimately show ?thesis using gs by (simp add: read_ipv6_addr_def)
    qed
  qed
qed

subsection \<open>Either kind of address\<close>

text \<open>The \<open>Display\<close> of \<open>IpAddr\<close>, the bytes of an address on the wire, and how many there are.\<close>

fun ip_octets :: "IpAddr \<Rightarrow> u8 list" where
  "ip_octets (V4 octets) = octets"
| "ip_octets (V6 groups) = concat (map be_bytes16 groups)"

fun show_ip :: "IpAddr \<Rightarrow> string" where
  "show_ip (V4 octets) = show_ipv4 octets"
| "show_ip (V6 groups) = show_ipv6 (ip_octets (V6 groups))"

fun ip_sized :: "IpAddr \<Rightarrow> bool" where
  "ip_sized (V4 octets) \<longleftrightarrow> length octets = 4"
| "ip_sized (V6 groups) \<longleftrightarrow> length groups = 8"

lemma groups_of_octets: "groups_of (concat (map be_bytes16 groups)) = groups"
  by (induction groups) (auto simp: be_bytes16_def be16_be_bytes16 [unfolded be_bytes16_def])

lemma octets_of_groups: "even (length octets) \<Longrightarrow> concat (map be_bytes16 (groups_of octets)) = octets"
  by (induction octets rule: groups_of.induct) (auto simp: be_bytes16_be16 neq_Nil_conv)

text \<open>An IPv6 address has no IPv4 address at its start: it has no dot, or starts with a colon.\<close>

lemma show_groups_dotless: "CHR ''.'' \<notin> set (show_groups gs)"
  using groups_text_dotless [of 0 gs] by (simp add: groups_text_show)

lemma ipv6_is_not_ipv4: "read_ipv4_addr (show_ipv6 octets) = None"
proof (cases "take 5 (groups_of octets) = replicate 5 0 \<and> groups_of octets ! 5 = 0xFFFF")
  case True
  then show ?thesis
    by (simp add: show_ipv6_def read_ipv4_addr_def numeral_eq_Suc read_separator_def read_number_def to_digit_def)
next
  case False
  have "CHR ''.'' \<notin> set (show_ipv6 octets)"
    unfolding show_ipv6_def Let_def if_not_P [OF False] by (simp add: show_groups_dotless split: prod.split)
  then show ?thesis by (rule read_ipv4_dotless)
qed

text \<open>So an address that is displayed is read as itself.\<close>

lemma parse_ip_show_ipv4: "length octets = 4 \<Longrightarrow> parse_ip (show_ipv4 octets) = Some (V4 octets)"
  using read_ipv4_shown [of octets "[]"] by (simp add: parse_ip_def)

lemma parse_ip_show_ipv6: "length octets = 16 \<Longrightarrow> parse_ip (show_ipv6 octets) = Some (V6 (groups_of octets))"
  by (simp add: parse_ip_def ipv6_is_not_ipv4 read_ipv6_shown)

lemma length_octets_of: "length (concat (map be_bytes16 groups)) = 2 * length groups"
  by (induction groups) (simp_all add: be_bytes16_def)

lemma parse_ip_show_ip: "ip_sized ip \<Longrightarrow> parse_ip (show_ip ip) = Some ip"
  by (cases ip) (simp_all add: parse_ip_show_ipv4 parse_ip_show_ipv6 length_octets_of groups_of_octets)


subsection \<open>What is printed can be asked\<close>

text \<open>An address is a nameserver of every protocol but HTTPS, and is connected to as it is.\<close>

lemma address_is_nameserver:
  assumes "parse_ip s = Some ip"
  shows "check_nameserver Automatic s = Ok () \<and> check_nameserver UDP s = Ok ()
    \<and> check_nameserver TCP s = Ok () \<and> check_nameserver TLS s = Ok ()
    \<and> (\<forall>L addr. nameserver_address L s addr \<longleftrightarrow> addr = (ip, 53))"
  using parse_ip_host_port [OF assms] assms
  by (auto simp: nameserver_address_def host_address_def prod_eq_iff)


text \<open>An address for the example.\<close>

lemma show_ipv6_example: "show_ipv6 [0x20, 1, 0x0d, 0xb8, 0, 0, 0, 0, 0, 0, 0, 0, 0, 0, 0, 1] = ''2001:db8::1''"
proof -
  let ?gs = "[0x2001, 0x0db8, 0, 0, 0, 0, 0, 1] :: u16 list"
  have "[0..<8] = [0, 1, 2, 3, 4, 5, 6, 7]" by (simp add: upt_rec)
  then have "longest_zeros ?gs = (2, 5)" by (simp add: longest_zeros_def zeros_at_def)
  moreover have "show_groups [0x2001, 0x0db8] = ''2001:db8''" "show_groups [1] = ''1''"
    by (simp_all add: show_groups_def hex_nat.simps hex_digit_def)
  ultimately show ?thesis by (simp add: show_ipv6_def be16_def)
qed


end
