(* ===== verification/Resolve_Windows.thy ===== *)
theory Resolve_Windows
  imports Resolve Ip_Text
begin

text \<open>
  Where the nameservers come from on other systems than Unix (\<open>src/resolve.rs\<close>): on Windows, from
  the network adapters, and nowhere on the rest. What the operating system says is a parameter:
  the adapters, as the \<open>ipconfig\<close> crate lists them, and the sockets that are bound, connected
  and asked for their own address to find out which adapter is used.
\<close>

subsection \<open>The code\<close>

text \<open>What is asked of an adapter of \<open>ipconfig\<close>.\<close>

record Adapter =
  oper_status_up :: bool
  gateways :: "IpAddr list"
  ip_addresses :: "IpAddr list"
  dns_servers :: "IpAddr list"

text \<open>
  Datagram sockets: binding one to an address, connecting it from there to another, and the address
  that it then has.
\<close>

record udp_sockets =
  udp_bind :: "string \<Rightarrow> (io_kind, unit) outcome"
  udp_connect :: "string \<Rightarrow> string \<Rightarrow> (io_kind, unit) outcome"
  udp_local_addr :: "string \<Rightarrow> string \<Rightarrow> (io_kind, SocketAddr) outcome"

text \<open>The errors of these builds: one more kind on Windows, of an adapter that cannot be read.\<close>

datatype 'e windows_lookup_error = Win_NoNameserver | Win_IO io_kind | Windows 'e

datatype other_lookup_error = Other_NoNameserver | Other_IO io_kind | UnsupportedPlatform

datatype ForceIPFamily = Force_V4 | Force_V6 | Force_None

definition local_ip :: "udp_sockets \<Rightarrow> string \<Rightarrow> string \<Rightarrow> (io_kind, IpAddr) outcome" where
  "local_ip os own peer =
     bind_outcome (udp_bind os own) (\<lambda>_.
     bind_outcome (udp_connect os own peer) (\<lambda>_.
     bind_outcome (udp_local_addr os own peer) (\<lambda>addr. Ok (fst addr))))"

definition get_ipv4 :: "udp_sockets \<Rightarrow> (io_kind, IpAddr) outcome" where
  "get_ipv4 os = local_ip os ''0.0.0.0:0'' ''8.8.8.8:53''"

definition get_ipv6 :: "udp_sockets \<Rightarrow> (io_kind, IpAddr) outcome" where
  "get_ipv6 os = local_ip os ''[::1]:0'' ''[2001:4860:4860::8888]:53''"

text \<open>\<open>Result::or\<close> and \<open>Result::ok\<close>; sockets do not panic.\<close>

fun or_outcome :: "('e, 'a) outcome \<Rightarrow> ('e, 'a) outcome \<Rightarrow> ('e, 'a) outcome" where
  "or_outcome (Err e) y = y"
| "or_outcome x y = x"

fun ok_value :: "('e, 'a) outcome \<Rightarrow> 'a option" where
  "ok_value (Ok x) = Some x"
| "ok_value _ = None"

definition used_ip :: "udp_sockets \<Rightarrow> ForceIPFamily \<Rightarrow> IpAddr option" where
  "used_ip os force_ip_family =
     (case force_ip_family of
        Force_V4 \<Rightarrow> ok_value (get_ipv4 os)
      | Force_V6 \<Rightarrow> ok_value (get_ipv6 os)
      | Force_None \<Rightarrow> ok_value (or_outcome (get_ipv6 os) (get_ipv4 os)))"

definition active_adapter :: "Adapter \<Rightarrow> bool" where
  "active_adapter a \<longleftrightarrow> oper_status_up a \<and> gateways a \<noteq> []"

fun is_ipv4 :: "IpAddr \<Rightarrow> bool" where
  "is_ipv4 (V4 _) = True"
| "is_ipv4 (V6 _) = False"

definition windows_nameservers ::
  "udp_sockets \<Rightarrow> ('e, Adapter list) outcome \<Rightarrow> ('e windows_lookup_error, Resolver) outcome" where
  "windows_nameservers os get_adapters =
     (let force_ip_family = Force_None;
          ip = used_ip os force_ip_family in
      bind_outcome (map_err Windows get_adapters) (\<lambda>adapters.
        let active_adapters = filter active_adapter adapters in
        case Option.bind
               (List.find (\<lambda>a. case ip of Some ip \<Rightarrow> ip \<in> set (ip_addresses a) | None \<Rightarrow> False) active_adapters)
               (\<lambda>a. case dns_servers a of [] \<Rightarrow> None | d # _ \<Rightarrow> Some d) of
          Some dns_server \<Rightarrow> Ok \<lparr>nameservers = [show_ip dns_server], search_list = []\<rparr>
        | None \<Rightarrow>
            (case List.find (\<lambda>d. is_ipv4 d \<and> force_ip_family \<noteq> Force_V6 \<or> \<not> is_ipv4 d)
                    (concat (map dns_servers active_adapters)) of
               Some dns_server \<Rightarrow> Ok \<lparr>nameservers = [show_ip dns_server], search_list = []\<rparr>
             | None \<Rightarrow> Err Win_NoNameserver)))"

text \<open>A system that is neither, and the messages of the errors.\<close>

definition other_nameservers :: "SystemPaths \<Rightarrow> (other_lookup_error, Resolver) outcome" where
  "other_nameservers paths = Err UnsupportedPlatform"

fun display_windows_error :: "(io_kind \<Rightarrow> string) \<Rightarrow> ('e \<Rightarrow> string) \<Rightarrow> 'e windows_lookup_error \<Rightarrow> string" where
  "display_windows_error show_io show_ipconfig Win_NoNameserver = ''No nameserver found''"
| "display_windows_error show_io show_ipconfig (Win_IO ioe) =
     ''Error reading network configuration: '' @ show_io ioe"
| "display_windows_error show_io show_ipconfig (Windows ipe) =
     ''Error reading network configuration: '' @ show_ipconfig ipe"

fun display_other_error :: "(io_kind \<Rightarrow> string) \<Rightarrow> other_lookup_error \<Rightarrow> string" where
  "display_other_error show_io Other_NoNameserver = ''No nameserver found''"
| "display_other_error show_io (Other_IO ioe) = ''Error reading network configuration: '' @ show_io ioe"
| "display_other_error show_io UnsupportedPlatform =
     ''dog cannot automatically detect nameservers on this platform; ''
       @ ''you will have to provide one explicitly''"


subsection \<open>The nameserver of Windows\<close>

text \<open>
  What is found is a server of an adapter in use, and can be used as a nameserver; nothing is
  found only when no such adapter has one.
\<close>

definition server_of :: "Adapter list \<Rightarrow> IpAddr \<Rightarrow> bool" where
  "server_of adapters d \<longleftrightarrow> (\<exists>a \<in> set adapters. active_adapter a \<and> d \<in> set (dns_servers a))"

lemma windows_nameservers_cases:
  assumes "windows_nameservers os (Ok adapters) = result"
  shows "(\<exists>d. server_of adapters d \<and> result = Ok \<lparr>nameservers = [show_ip d], search_list = []\<rparr>)
    \<or> result = Err Win_NoNameserver \<and> (\<forall>d. \<not> server_of adapters d)"
proof -
  let ?active = "filter active_adapter adapters"
  let ?used = "\<lambda>a. case used_ip os Force_None of Some ip \<Rightarrow> ip \<in> set (ip_addresses a) | None \<Rightarrow> False"
  let ?first = "Option.bind (List.find ?used ?active) (\<lambda>a. case dns_servers a of [] \<Rightarrow> None | d # _ \<Rightarrow> Some d)"
  show ?thesis
  proof (cases ?first)
    case (Some d)
    then obtain a where a: "List.find ?used ?active = Some a"
      and "(case dns_servers a of [] \<Rightarrow> None | d # _ \<Rightarrow> Some d) = Some d" by (auto simp: bind_eq_Some_conv)
    then have "d \<in> set (dns_servers a)" by (cases "dns_servers a") auto
    moreover from a have "a \<in> set ?active" unfolding find_Some_iff by (metis nth_mem)
    ultimately have "server_of adapters d" by (auto simp: server_of_def)
    with Some assms show ?thesis by (auto simp add: windows_nameservers_def Let_def)
  next
    case None
    show ?thesis
    proof (cases "concat (map dns_servers ?active)")
      case Nil
      with None assms show ?thesis by (auto simp: windows_nameservers_def Let_def server_of_def)
    next
      case (Cons d ds)
      then have "d \<in> set (concat (map dns_servers ?active))" by simp
      then have "server_of adapters d" by (auto simp: server_of_def)
      with None Cons assms show ?thesis by (auto simp: windows_nameservers_def Let_def)
    qed
  qed
qed

theorem windows_nameserver_usable:
  assumes "list_all (\<lambda>a. list_all ip_sized (dns_servers a)) adapters"
    and "windows_nameservers os (Ok adapters) = Ok r"
  shows "\<exists>d. server_of adapters d \<and> nameservers r = [show_ip d] \<and> search_list r = []
    \<and> parse_ip (show_ip d) = Some d \<and> check_nameserver Automatic (show_ip d) = Ok ()
    \<and> (\<forall>L addr. nameserver_address L (show_ip d) addr \<longleftrightarrow> addr = (d, 53))"
proof -
  from windows_nameservers_cases [OF assms(2)] obtain d where
    d: "server_of adapters d" "r = \<lparr>nameservers = [show_ip d], search_list = []\<rparr>" by auto
  from d(1) assms(1) have "ip_sized d" by (auto simp: server_of_def list_all_iff)
  from address_is_nameserver [OF parse_ip_show_ip [OF this]] parse_ip_show_ip [OF this] d
  show ?thesis by (intro exI [of _ d]) simp
qed

text \<open>
  The adapter that is used to access the Internet is preferred. But the IPv6 address is asked of a
  socket that was bound to the loopback address, and such a socket has that address. So wherever it
  can be connected, no adapter is preferred: the server is the one that would be found if there were
  no sockets at all, whatever the IPv4 address is.
\<close>

abbreviation loopback :: IpAddr where
  "loopback \<equiv> V6 [0, 0, 0, 0, 0, 0, 0, 1]"

abbreviation no_sockets :: udp_sockets where
  "no_sockets \<equiv> \<lparr>udp_bind = \<lambda>_. Err K_NotFound, udp_connect = \<lambda>_ _. Err K_NotFound,
     udp_local_addr = \<lambda>_ _. Err K_NotFound\<rparr>"

theorem ipv6_never_preferred:
  assumes "get_ipv6 os = Ok ip" and "\<And>peer addr. udp_local_addr os ''[::1]:0'' peer = Ok addr \<Longrightarrow> fst addr = loopback"
    and "list_all (\<lambda>a. loopback \<notin> set (ip_addresses a)) (filter active_adapter adapters)"
  shows "windows_nameservers os (Ok adapters) = windows_nameservers no_sockets (Ok adapters)"
proof -
  have "ip = loopback"
    using assms(1,2) by (auto simp: get_ipv6_def local_ip_def bind_outcome_Ok_iff)
  then have "used_ip os Force_None = Some loopback" by (simp add: used_ip_def assms(1))
  moreover have "used_ip no_sockets Force_None = None"
    by (simp add: used_ip_def get_ipv4_def get_ipv6_def local_ip_def)
  moreover have "List.find (\<lambda>a. loopback \<in> set (ip_addresses a)) (filter active_adapter adapters) = None"
    using assms(3) by (simp add: find_None_iff list_all_iff)
  moreover have "List.find (\<lambda>_. False) as = None" for as :: "Adapter list"
    by (simp add: find_None_iff)
  ultimately show ?thesis
    by (simp add: windows_nameservers_def Let_def)
qed

end
