(* ===== verification/Test_Wire.thy ===== *)
theory Test_Wire
  imports Rdata H2_Request Files
begin

text \<open>
  The helpers that walk and change messages in the tests (\<open>test-support/src/wire.rs\<close>): DNS messages
  by offset, the heads and bodies of HTTP/1.1 messages, and the frames of HTTP/2. They are written
  without the parsers of dog, so the theorems here compare two programs: on a message that dog
  parses, the walker finds the records that dog finds, and the frames it takes apart are the ones
  that dog puts together.

  What is indexed out of range, or expected and missing, is \<open>Panic\<close>; there are no other errors.
\<close>

type_synonym 'a checked = "(unit, 'a) outcome"


subsection \<open>The header\<close>

definition HEADER_LEN :: nat where "HEADER_LEN = 12"

definition QR :: u16 where "QR = 0x8000"
definition AA :: u16 where "AA = 0x0400"
definition TC :: u16 where "TC = 0x0200"

definition get_u16 :: "u8 list \<Rightarrow> nat \<Rightarrow> u16 checked" where
  "get_u16 buf at = (if at + 1 < length buf then Ok (be16 (buf ! at) (buf ! (at + 1))) else Panic)"

definition set_u16 :: "u8 list \<Rightarrow> nat \<Rightarrow> u16 \<Rightarrow> u8 list checked" where
  "set_u16 buf at v =
     (if at + 2 \<le> length buf then Ok (take at buf @ be_bytes16 v @ drop (at + 2) buf) else Panic)"

definition txid :: "u8 list \<Rightarrow> u16 checked" where
  "txid message = get_u16 message 0"

definition with_txid :: "u8 list \<Rightarrow> u16 \<Rightarrow> u8 list checked" where
  "with_txid message i = set_u16 message 0 i"

definition flags :: "u8 list \<Rightarrow> u16 checked" where
  "flags message = get_u16 message 2"

definition without_flag :: "u8 list \<Rightarrow> u16 \<Rightarrow> u8 list checked" where
  "without_flag message flag = bind_outcome (flags message) (\<lambda>fs. set_u16 message 2 (fs AND NOT flag))"

definition with_flag :: "u8 list \<Rightarrow> u16 \<Rightarrow> u8 list checked" where
  "with_flag message flag = bind_outcome (flags message) (\<lambda>fs. set_u16 message 2 (fs OR flag))"

definition with_rcode :: "u8 list \<Rightarrow> u16 \<Rightarrow> u8 list checked" where
  "with_rcode message rcode =
     bind_outcome (flags message) (\<lambda>fs. set_u16 message 2 ((fs AND NOT 0xF) OR (rcode AND 0xF)))"

definition counts :: "u8 list \<Rightarrow> (u16 \<times> u16 \<times> u16 \<times> u16) checked" where
  "counts message =
     bind_outcome (get_u16 message 4) (\<lambda>a. bind_outcome (get_u16 message 6) (\<lambda>b.
     bind_outcome (get_u16 message 8) (\<lambda>c. bind_outcome (get_u16 message 10) (\<lambda>d.
     Ok (a, b, c, d)))))"

definition with_count :: "u8 list \<Rightarrow> nat \<Rightarrow> u16 \<Rightarrow> u8 list checked" where
  "with_count message section_number count = set_u16 message (4 + 2 * section_number) count"


subsection \<open>Names, questions and records\<close>

function skip_name :: "u8 list \<Rightarrow> nat \<Rightarrow> nat checked" where
  "skip_name buf at =
     (if length buf \<le> at then Panic
      else
        let len = buf ! at in
        if len = 0 then Ok (at + 1)
        else if len AND 0xC0 = 0xC0 then Ok (at + 2)
        else skip_name buf (at + (1 + unat len)))"
  by pat_completeness auto
termination by (relation "measure (\<lambda>(buf, at). length buf - at)") auto

declare skip_name.simps [simp del]

fun skip_questions :: "u8 list \<Rightarrow> nat \<Rightarrow> nat \<Rightarrow> nat checked" where
  "skip_questions message 0 at = Ok at"
| "skip_questions message (Suc k) at =
     bind_outcome (skip_name message at) (\<lambda>at. skip_questions message k (at + 4))"

definition question_end :: "u8 list \<Rightarrow> nat checked" where
  "question_end message =
     bind_outcome (counts message) (\<lambda>(questions, _). skip_questions message (unat questions) HEADER_LEN)"

datatype RrSection = Answer | Authority | Additional

record RrSpan =
  span_section :: RrSection
  span_name_at :: nat
  span_rtype :: u16
  span_rdlength_at :: nat
  span_rdata :: "nat \<times> nat"

definition rr_span_at :: "u8 list \<Rightarrow> nat \<Rightarrow> RrSection \<Rightarrow> RrSpan checked" where
  "rr_span_at message at sect =
     bind_outcome (skip_name message at) (\<lambda>type_at.
     let rdlength_at = type_at + 8; start = rdlength_at + 2 in
     bind_outcome (get_u16 message rdlength_at) (\<lambda>len.
     bind_outcome (get_u16 message type_at) (\<lambda>rtype.
     Ok \<lparr>span_section = sect, span_name_at = at, span_rtype = rtype,
         span_rdlength_at = rdlength_at, span_rdata = (start, start + unat len)\<rparr>)))"

fun section_spans :: "u8 list \<Rightarrow> RrSection \<Rightarrow> nat \<Rightarrow> nat \<Rightarrow> RrSpan list \<Rightarrow> (nat \<times> RrSpan list) checked" where
  "section_spans message sect 0 at spans = Ok (at, spans)"
| "section_spans message sect (Suc k) at spans =
     bind_outcome (rr_span_at message at sect) (\<lambda>span.
     section_spans message sect k (snd (span_rdata span)) (spans @ [span]))"

fun sections_spans :: "u8 list \<Rightarrow> (RrSection \<times> u16) list \<Rightarrow> nat \<Rightarrow> RrSpan list \<Rightarrow> RrSpan list checked" where
  "sections_spans message [] at spans = Ok spans"
| "sections_spans message ((sect, count) # sections) at spans =
     bind_outcome (section_spans message sect (unat count) at spans) (\<lambda>(at, spans).
     sections_spans message sections at spans)"

definition rr_spans :: "u8 list \<Rightarrow> RrSpan list checked" where
  "rr_spans message =
     bind_outcome (counts message) (\<lambda>(_, answers, authorities, additionals).
     let sections = [(Answer, answers), (Authority, authorities), (Additional, additionals)] in
     bind_outcome (question_end message) (\<lambda>at. sections_spans message sections at []))"

definition first_rr :: "u8 list \<Rightarrow> u16 \<Rightarrow> RrSpan checked" where
  "first_rr message rtype =
     bind_outcome (rr_spans message) (\<lambda>spans.
     case List.find (\<lambda>span. span_rtype span = rtype) spans of Some span \<Rightarrow> Ok span | None \<Rightarrow> Panic)"

definition with_rdlength :: "u8 list \<Rightarrow> RrSpan \<Rightarrow> u16 \<Rightarrow> u8 list checked" where
  "with_rdlength message span rdlength = set_u16 message (span_rdlength_at span) rdlength"

definition splice :: "u8 list \<Rightarrow> nat \<times> nat \<Rightarrow> u8 list \<Rightarrow> u8 list checked" where
  "splice message rg replacement =
     (if fst rg \<le> length message \<and> snd rg \<le> length message
      then Ok (take (fst rg) message @ replacement @ drop (snd rg) message) else Panic)"

definition truncate_to :: "u8 list \<Rightarrow> nat \<Rightarrow> u8 list checked" where
  "truncate_to message len = (if len \<le> length message then Ok (take len message) else Panic)"

subsection \<open>Fields\<close>

lemma bind_outcome_Ok [simp]: "bind_outcome m Ok = m"
  by (cases m) auto

lemma get_u16_Ok_iff: "get_u16 buf at = Ok v \<longleftrightarrow> at + 1 < length buf \<and> v = be16 (buf ! at) (buf ! (at + 1))"
  by (auto simp: get_u16_def)

lemma set_u16_Ok_iff:
  "set_u16 buf at v = Ok buf' \<longleftrightarrow>
     at + 2 \<le> length buf \<and> buf' = take at buf @ be_bytes16 v @ drop (at + 2) buf"
  by (auto simp: set_u16_def)

lemma set_u16_length: "set_u16 buf at v = Ok buf' \<Longrightarrow> length buf' = length buf"
  by (auto simp: set_u16_Ok_iff)

lemma be16_nth_be_bytes16: "be16 (be_bytes16 v ! 0) (be_bytes16 v ! 1) = v"
  by (simp add: be_bytes16_def be16_be_bytes16)

lemma get_set_u16: "set_u16 buf at v = Ok buf' \<Longrightarrow> get_u16 buf' at = Ok v"
  using be16_nth_be_bytes16 [of v] by (auto simp: set_u16_Ok_iff get_u16_Ok_iff nth_append min_def)

lemma get_u16_at: "length pre = k \<Longrightarrow> get_u16 (pre @ be_bytes16 v @ post) k = Ok v"
  using be16_nth_be_bytes16 [of v] by (auto simp: get_u16_Ok_iff nth_append)

lemma get_set_u16_other:
  assumes "set_u16 buf at v = Ok buf'" and "a + 2 \<le> at \<or> at + 2 \<le> a"
  shows "get_u16 buf' a = get_u16 buf a"
proof -
  have *: "buf' ! i = buf ! i" if "i < at \<or> at + 2 \<le> i" "i < length buf" for i
  proof (cases "i < at")
    case True
    with assms(1) that show ?thesis by (auto simp: set_u16_Ok_iff nth_append min_def)
  next
    case False
    with that obtain k where "i = at + 2 + k" using le_Suc_ex [of "at + 2" i] by blast
    with assms(1) that show ?thesis by (auto simp: set_u16_Ok_iff nth_append min_def)
  qed
  show ?thesis
  proof (cases "a + 1 < length buf")
    case True
    with assms(2) have "buf' ! a = buf ! a" "buf' ! (a + 1) = buf ! (a + 1)" by (auto intro!: *)
    then show ?thesis using set_u16_length [OF assms(1)] by (simp add: get_u16_def)
  next
    case False
    then show ?thesis using set_u16_length [OF assms(1)] by (simp add: get_u16_def)
  qed
qed

lemma with_txid_eq: "2 \<le> length m \<Longrightarrow> with_txid m i = Ok (be_bytes16 i @ drop 2 m)"
  by (simp add: with_txid_def set_u16_def numeral_2_eq_2)


subsection \<open>The walker and the parser\<close>

lemma and_top_bits: "(b :: u8) AND 0xC0 = 0xC0 \<longleftrightarrow> 0xC0 \<le> b"
proof -
  have high: "(0xC0 :: u8) = NOT (mask 6)" by (simp add: mask_eq_exp_minus_1)
  have "b AND NOT (mask 6) = push_bit 6 (drop_bit 6 b)"
    by (rule bit_word_eqI) (auto simp: bit_simps simp del: push_bit_of_1 drop_bit_numeral_bit0)
  then have eq: "b AND 0xC0 = push_bit 6 (drop_bit 6 b)" unfolding high .
  have "unat (drop_bit 6 b) = unat b div 64"
    using unat_drop_bit_eq [of 6 b] by (simp add: drop_bit_eq_div del: drop_bit_numeral_bit0)
  then have "unat (push_bit 6 (drop_bit 6 b)) = unat b div 64 * 64"
    using unat_u8_less [of b] by (simp add: push_bit_eq_mult unat_word_ariths)
  then have "b AND 0xC0 = 0xC0 \<longleftrightarrow> unat b div 64 * 64 = 192"
    unfolding eq word_unat_eq_iff by simp
  also have "\<dots> \<longleftrightarrow> 3 \<le> unat b div 64" using unat_u8_less [of b] by (auto simp: div_less_iff_less_mult)
  also have "\<dots> \<longleftrightarrow> 192 \<le> unat b" by (simp add: less_eq_div_iff_mult_less_eq)
  finally show ?thesis by (simp add: word_le_nat_alt)
qed

lemma skip_name_at: "name_at buf p hops segs n \<Longrightarrow> skip_name buf p = Ok (p + n)"
proof (induction rule: name_at.induct)
  case (name_end p)
  then show ?case by (simp add: skip_name.simps [of buf p] Let_def)
next
  case (name_label p hops segs n)
  then show ?case
    by (auto simp: skip_name.simps [of buf p] Let_def and_top_bits ac_simps dest: leD)
next
  case (name_pointer p offset hops segs n)
  then have "buf ! p \<noteq> 0" by auto
  with name_pointer show ?case by (simp add: skip_name.simps [of buf p] Let_def and_top_bits)
qed

lemma read_labels_skips:
  assumes "length buf < 65536" and "read_labels buf p = Ok ((ls, n), q)"
  shows "skip_name buf p = Ok q"
  using name_at_read_labels [OF assms] by (metis skip_name_at)

lemma record_from_bytes_kind:
  "record_from_bytes rt len buf p = Ok (rec, q) \<Longrightarrow> record_kind rec = rt"
  by (cases rt) (auto simp: map_reader_def bind_def ret_def split: outcome.splits prod.splits)

lemma read_u16_Ok_iff:
  "read_u16 buf p = Ok (v, q) \<longleftrightarrow> get_u16 buf p = Ok v \<and> q = p + 2"
  by (auto simp: read_u16_def bind_def ret_def read_exact_def get_u16_Ok_iff)

text \<open>The type of an entry, and the bytes that a span says are its data.\<close>

fun answer_type :: "Answer \<Rightarrow> u16" where
  "answer_type (Standard _ _ _ rec) = type_number (record_kind rec)"
| "answer_type (Pseudo _ _) = OPT_RR_TYPE"

fun is_caa :: "Answer \<Rightarrow> bool" where
  "is_caa (Standard _ _ _ (R_CAA _)) = True"
| "is_caa _ = False"

definition holds_data :: "u8 list \<Rightarrow> Answer \<Rightarrow> nat \<times> nat \<Rightarrow> bool" where
  "holds_data bytes a = (\<lambda>(start, end). start \<le> end \<and> end \<le> length bytes \<and>
     (case a of
        Standard _ _ _ rec \<Rightarrow>
          record_from_bytes (record_kind rec) (word_of_nat (end - start)) bytes start = Ok (rec, end)
      | Pseudo _ opt \<Rightarrow> opt_data opt = take (end - start) (drop start bytes)))"


lemma read_u32_Ok_iff:
  "read_u32 buf p = Ok (v, q) \<longleftrightarrow>
     p + 4 \<le> length buf \<and> v = be32 (buf ! p) (buf ! (p + 1)) (buf ! (p + 2)) (buf ! (p + 3)) \<and> q = p + 4"
  by (auto simp: read_u32_def bind_def ret_def read_exact_def)

lemma bind_Ok_iff: "bind m f buf p = Ok (y, r) \<longleftrightarrow> (\<exists>x q. m buf p = Ok (x, q) \<and> f x buf q = Ok (y, r))"
  by (auto simp: bind_def split: outcome.splits)

lemma OPT_read_fields:
  "OPT_read buf p = Ok (opt, q) \<Longrightarrow>
     \<exists>len. get_u16 buf (p + 6) = Ok len \<and> q = p + 8 + unat len \<and> q \<le> length buf
       \<and> opt_data opt = take (unat len) (drop (p + 8) buf)"
  by (auto simp: OPT_read_def bind_Ok_iff read_u16_Ok_iff ret_def read_u8_def read_exact_def eval_nat_numeral
      get_u16_Ok_iff       split: if_splits)

lemma answer_from_bytes_fields:
  assumes "in_message buf p" and "12 < p" and "answer_from_bytes qname buf p = Ok (a, q)" and "\<not> is_caa a"
  shows "\<exists>len. get_u16 buf p = Ok (answer_type a) \<and> get_u16 buf (p + 8) = Ok len
    \<and> q = p + 10 + unat len \<and> holds_data buf a (p + 10, q)"
proof -
  from assms(3) obtain ty where ty: "get_u16 buf p = Ok ty"
    by (auto simp: answer_from_bytes_def bind_Ok_iff read_u16_Ok_iff)
  show ?thesis
  proof (cases "ty = OPT_RR_TYPE")
    case True
    with assms(3) ty obtain opt where opt: "OPT_read buf (p + 2) = Ok (opt, q)" "a = Pseudo qname opt"
      by (auto simp: answer_from_bytes_def bind_Ok_iff read_u16_Ok_iff ret_def)
    from OPT_read_fields [OF opt(1)] opt(2) True ty show ?thesis
      by (auto simp: holds_data_def ac_simps)
  next
    case False
    with assms(3) ty obtain cls ttl len rec where
      parts: "get_u16 buf (p + 8) = Ok len" "a = Standard qname cls ttl rec"
        "record_from_bytes (record_type_from ty) len buf (p + 10) = Ok (rec, q)"
      by (auto simp: answer_from_bytes_def Let_def bind_Ok_iff read_u16_Ok_iff read_u32_Ok_iff ret_def ac_simps)
    have kind: "record_kind rec = record_type_from ty" using record_from_bytes_kind [OF parts(3)] .
    have "p + 10 \<le> length buf" using parts(1) by (auto simp: get_u16_Ok_iff)
    moreover from this have reach: "in_reach buf (p + 10)"
      using assms(1,2) by (simp add: in_message_def in_reach_def max_safe_message_def)
    ultimately have q: "q = p + 10 + unat len" "q \<le> length buf"
      using record_from_bytes_consumes [OF _ _ parts(3)] wp_OkD [OF wp_record_from_bytes parts(3)]
        assms(4) parts(2) by (auto split: Record.splits)
    have "answer_type a = ty" using parts(2) kind by (simp add: type_number_record_type_from)
    with q parts kind ty show ?thesis by (simp add: holds_data_def)
  qed
qed

text \<open>The spans of a section are those of the entries that the parser reads from it.\<close>

definition span_of :: "u8 list \<Rightarrow> RrSection \<Rightarrow> Answer \<Rightarrow> RrSpan \<Rightarrow> bool" where
  "span_of bytes sect a span \<longleftrightarrow>
     span_section span = sect \<and> span_rtype span = answer_type a \<and> holds_data bytes a (span_rdata span)"

lemma entry_spans:
  "in_message buf p \<Longrightarrow> read_entries answer_from_bytes k acc buf p = Ok (as', q) \<Longrightarrow> \<not> list_ex is_caa as' \<Longrightarrow>
     \<exists>xs ys. as' = acc @ xs \<and> in_message buf q \<and> list_all2 (span_of buf sect) xs ys
       \<and> (\<forall>spans. section_spans buf sect k p spans = Ok (q, spans @ ys))"
proof (induction k arbitrary: acc p)
  case 0
  then show ?case by (auto simp: ret_def)
next
  case (Suc k)
  from Suc.prems(2) obtain ls n r a r' where
    name: "read_labels buf p = Ok ((ls, n), r)" and entry: "answer_from_bytes ls buf r = Ok (a, r')"
    and rest: "read_entries answer_from_bytes k (acc @ [a]) buf r' = Ok (as', q)"
    by (auto simp: bind_Ok_iff)
  have small: "length buf < 65536" using Suc.prems(1) by (simp add: in_message_def max_safe_message_def)
  obtain hops where "name_at buf p hops (segments ls) (unat n)" "r = p + unat n"
    using name_at_read_labels [OF small name] by blast
  with name_at_bound have r: "p < r" "r \<le> length buf" by auto
  with Suc.prems(1) have in_r: "in_message buf r" "12 < r" by (auto simp: in_message_def)
  have "r \<le> r'" "r' \<le> length buf" using wp_OkD [OF answer.entry_within [OF in_r] entry] by simp_all
  with in_r have in_r': "in_message buf r'" by (simp add: in_message_def)
  from Suc.IH [OF in_r' rest Suc.prems(3)] obtain xs ys where
    ih: "as' = (acc @ [a]) @ xs" "in_message buf q" "list_all2 (span_of buf sect) xs ys"
    "\<And>spans. section_spans buf sect k r' spans = Ok (q, spans @ ys)"
    by blast
  have "\<not> is_caa a" using Suc.prems(3) ih(1) by simp
  from answer_from_bytes_fields [OF in_r entry this] obtain len where
    fields: "get_u16 buf r = Ok (answer_type a)" "get_u16 buf (r + 8) = Ok len"
      "r' = r + 10 + unat len" "holds_data buf a (r + 10, r')"
    by blast
  let ?span = "\<lparr>span_section = sect, span_name_at = p, span_rtype = answer_type a,
         span_rdlength_at = r + 8, span_rdata = (r + 10, r')\<rparr>"
  have "rr_span_at buf p sect = Ok ?span"
    using fields by (simp add: rr_span_at_def read_labels_skips [OF small name] Let_def)
  moreover have "span_of buf sect a ?span" using fields by (simp add: span_of_def)
  ultimately show ?case
    using ih by (intro exI [of _ "a # xs"] exI [of _ "?span # ys"]) simp
qed

lemma section_spans_agree:
  assumes "in_message buf p" and "read_section count answer_from_bytes buf p = Ok (as', q)"
    and "\<not> list_ex is_caa as'"
  obtains ys where "in_message buf q" "list_all2 (span_of buf sect) as' ys"
    "\<And>spans. section_spans buf sect (unat count) p spans = Ok (q, spans @ ys)"
  using entry_spans [OF assms(1) assms(2) [unfolded read_section_def] assms(3), of sect] by auto

lemma query_entries_skip:
  "in_message buf p \<Longrightarrow> read_entries query_from_bytes k acc buf p = Ok (qs, q) \<Longrightarrow>
     skip_questions buf k p = Ok q \<and> in_message buf q"
proof (induction k arbitrary: acc p)
  case 0
  then show ?case by (simp add: ret_def)
next
  case (Suc k)
  from Suc.prems(2) obtain ls n r x r' where
    name: "read_labels buf p = Ok ((ls, n), r)" and entry: "query_from_bytes ls buf r = Ok (x, r')"
    and rest: "read_entries query_from_bytes k (acc @ [x]) buf r' = Ok (qs, q)"
    by (auto simp: bind_Ok_iff)
  have small: "length buf < 65536" using Suc.prems(1) by (simp add: in_message_def max_safe_message_def)
  obtain hops where "name_at buf p hops (segments ls) (unat n)" "r = p + unat n"
    using name_at_read_labels [OF small name] by blast
  with name_at_bound have r: "p < r" "r \<le> length buf" by auto
  from entry have r': "r' = r + 4" "r' \<le> length buf"
    by (auto simp: query_from_bytes_def Let_def bind_Ok_iff read_u16_Ok_iff get_u16_Ok_iff ret_def)
  with Suc.prems(1) r have "in_message buf r'" by (simp add: in_message_def)
  with Suc.IH [OF this rest] read_labels_skips [OF small name] r' show ?case by simp
qed

text \<open>
  The walker of the tests and the parser of dog agree: on every message that dog parses, the
  walker finds the records that dog finds, in their order, in their sections, with their types, and
  with bytes that are read as the same data. CAA records are left out, since dog may read one from
  more bytes than the message says it has.
\<close>

lemma spans_agree:
  assumes "length bytes \<le> max_safe_message" and "response_from_bytes bytes = Ok r"
    and "\<not> list_ex is_caa (resp_answers r @ resp_authorities r @ resp_additionals r)"
  shows "\<exists>as us xs. rr_spans bytes = Ok (as @ us @ xs)
    \<and> list_all2 (span_of bytes Answer) (resp_answers r) as
    \<and> list_all2 (span_of bytes Authority) (resp_authorities r) us
    \<and> list_all2 (span_of bytes Additional) (resp_additionals r) xs"
proof -
  from assms(2) obtain q where "read_response bytes 0 = Ok (r, q)"
    by (auto simp: response_from_bytes_def bind_outcome_Ok_iff)
  then obtain qc ac uc xc p1 p2 p3 where
    header: "read_counts bytes 4 = Ok ((qc, ac, uc, xc), 12)"
    and qs: "read_section qc query_from_bytes bytes 12 = Ok (resp_queries r, p1)"
    and as: "read_section ac answer_from_bytes bytes p1 = Ok (resp_answers r, p2)"
    and us: "read_section uc answer_from_bytes bytes p2 = Ok (resp_authorities r, p3)"
    and xs: "read_section xc answer_from_bytes bytes p3 = Ok (resp_additionals r, q)"
    by (auto simp: read_response_def read_counts_def Let_def bind_Ok_iff read_u16_Ok_iff ret_def
        eval_nat_numeral)
  from header have counts: "counts bytes = Ok (qc, ac, uc, xc)"
    by (auto simp: counts_def read_counts_def bind_Ok_iff read_u16_Ok_iff ret_def eval_nat_numeral)
  then have "in_message bytes 12"
    using assms(1) by (auto simp: counts_def bind_outcome_Ok_iff get_u16_Ok_iff in_message_def)
  from query_entries_skip [OF this qs [unfolded read_section_def]]
  have q: "question_end bytes = Ok p1" "in_message bytes p1"
    by (simp_all add: question_end_def counts HEADER_LEN_def)
  obtain ys1 where 1: "in_message bytes p2" "list_all2 (span_of bytes Answer) (resp_answers r) ys1"
    "\<And>spans. section_spans bytes Answer (unat ac) p1 spans = Ok (p2, spans @ ys1)"
    using section_spans_agree [OF q(2) as] assms(3) by auto
  obtain ys2 where 2: "in_message bytes p3" "list_all2 (span_of bytes Authority) (resp_authorities r) ys2"
    "\<And>spans. section_spans bytes Authority (unat uc) p2 spans = Ok (p3, spans @ ys2)"
    using section_spans_agree [OF 1(1) us] assms(3) by auto
  obtain ys3 where 3: "in_message bytes q" "list_all2 (span_of bytes Additional) (resp_additionals r) ys3"
    "\<And>spans. section_spans bytes Additional (unat xc) p3 spans = Ok (q, spans @ ys3)"
    using section_spans_agree [OF 2(1) xs] assms(3) by auto
  have "rr_spans bytes = Ok (ys1 @ ys2 @ ys3)"
    by (simp add: rr_spans_def counts q(1) 1(3) 2(3) 3(3))
  with 1(2) 2(2) 3(2) show ?thesis by blast
qed

subsection \<open>HTTP messages\<close>

definition http_header_end :: "u8 list \<Rightarrow> nat option" where
  "http_header_end message = map_option (\<lambda>p. p + 4) (find_blank message)"

text \<open>\<open>head.split("\r\n")\<close>.\<close>

fun split_crlf :: "string \<Rightarrow> string list" where
  "split_crlf [] = [[]]"
| "split_crlf [c] = [[c]]"
| "split_crlf (c # d # s) =
     (if c = CHR 0x0D \<and> d = CHR 0x0A then [] # split_crlf s
      else case split_crlf (d # s) of [] \<Rightarrow> [[c]] | p # ps \<Rightarrow> (c # p) # ps)"

definition http_head_lines :: "u8 list \<Rightarrow> string list checked" where
  "http_head_lines message =
     (case http_header_end message of
        None \<Rightarrow> Panic
      | Some end \<Rightarrow>
          (case from_utf8 (take (end - 4) message) of None \<Rightarrow> Panic | Some head \<Rightarrow> Ok (split_crlf head)))"

definition http_body :: "u8 list \<Rightarrow> u8 list checked" where
  "http_body message =
     (case http_header_end message of None \<Rightarrow> Panic | Some end \<Rightarrow> Ok (drop end message))"

definition http_message :: "string list \<Rightarrow> u8 list \<Rightarrow> u8 list" where
  "http_message ls body = bytes_of (join crlf ls) @ blank_line @ body"

definition map_http_headers :: "(string \<Rightarrow> string option) \<Rightarrow> u8 list \<Rightarrow> u8 list checked" where
  "map_http_headers f message =
     bind_outcome (http_head_lines message) (\<lambda>ls.
     case ls of
       [] \<Rightarrow> Panic
     | first # ls \<Rightarrow>
         let kept = [first] @ List.map_filter f ls in
         bind_outcome (http_body message) (\<lambda>body. Ok (http_message kept body)))"

text \<open>\<open>text.trim().eq_ignore_ascii_case(name)\<close>.\<close>

definition trimmed_is :: "string \<Rightarrow> string \<Rightarrow> bool" where
  "trimmed_is s name = (case trim_to_ascii s of None \<Rightarrow> False | Some t \<Rightarrow> eq_ignore_ascii_case t name)"

definition http_is_dns :: "u8 list \<Rightarrow> bool checked" where
  "http_is_dns message =
     (if http_header_end message = None then Ok False
      else
        bind_outcome (http_head_lines message) (\<lambda>ls.
        Ok (list_ex (\<lambda>line. case split_once CHR '':'' line of
              None \<Rightarrow> False
            | Some (name, val) \<Rightarrow>
                trimmed_is name ''content-type'' \<and> trimmed_is val ''application/dns-message'')
          (drop 1 ls))))"

definition patch_body_txid :: "u8 list \<Rightarrow> u16 \<Rightarrow> u8 list checked" where
  "patch_body_txid message i =
     (case http_header_end message of
        None \<Rightarrow> Panic
      | Some end \<Rightarrow> if end + 2 \<le> length message then set_u16 message end i else Panic)"


subsection \<open>HTTP/2 frames\<close>

definition H2_PREFACE :: "u8 list" where
  "H2_PREFACE = bytes_of (''PRI * HTTP/2.0'' @ crlf @ crlf @ ''SM'' @ crlf @ crlf)"

definition H2_DATA :: u8 where "H2_DATA = 0x0"
definition H2_HEADERS :: u8 where "H2_HEADERS = 0x1"
definition H2_RST_STREAM :: u8 where "H2_RST_STREAM = 0x3"
definition H2_SETTINGS :: u8 where "H2_SETTINGS = 0x4"
definition H2_PUSH_PROMISE :: u8 where "H2_PUSH_PROMISE = 0x5"
definition H2_PING :: u8 where "H2_PING = 0x6"
definition H2_GOAWAY :: u8 where "H2_GOAWAY = 0x7"

definition H2_END_STREAM :: u8 where "H2_END_STREAM = 0x1"
definition H2_ACK :: u8 where "H2_ACK = 0x1"
definition H2_END_HEADERS :: u8 where "H2_END_HEADERS = 0x4"
definition H2_PADDED :: u8 where "H2_PADDED = 0x8"
definition H2_PRIORITY :: u8 where "H2_PRIORITY = 0x20"

record H2Frame =
  h2_kind :: u8
  h2_flags :: u8
  h2_stream :: u32
  h2_payload :: "u8 list"

definition to_bytes :: "H2Frame \<Rightarrow> u8 list checked" where
  "to_bytes f =
     (if length (h2_payload f) < 2 ^ 24
      then Ok (drop 1 (be_bytes32 (word_of_nat (length (h2_payload f)))) @ [h2_kind f, h2_flags f]
               @ be_bytes32 (h2_stream f) @ h2_payload f)
      else Panic)"

function h2_frames_from :: "u8 list \<Rightarrow> nat \<Rightarrow> H2Frame list" where
  "h2_frames_from bytes at =
     (if at + 9 \<le> length bytes then
        let head = take 9 (drop at bytes);
            len = push_bit 16 (unat (head ! 0)) OR push_bit 8 (unat (head ! 1)) OR unat (head ! 2) in
        if at + 9 + len \<le> length bytes then
          \<lparr>h2_kind = head ! 3, h2_flags = head ! 4,
           h2_stream = be32 (head ! 5) (head ! 6) (head ! 7) (head ! 8) AND 0x7FFFFFFF,
           h2_payload = take len (drop (at + 9) bytes)\<rparr>
          # h2_frames_from bytes (at + (9 + len))
        else []
      else [])"
  by pat_completeness auto
termination by (relation "measure (\<lambda>(bytes, at). length bytes - at)") auto

declare h2_frames_from.simps [simp del]

definition after_preface :: "u8 list \<Rightarrow> nat" where
  "after_preface bytes = (if strip_prefix H2_PREFACE bytes \<noteq> None then length H2_PREFACE else 0)"

definition h2_frames :: "u8 list \<Rightarrow> H2Frame list" where
  "h2_frames bytes = h2_frames_from bytes (after_preface bytes)"

text \<open>The function that is mapped over the frames may keep a state, as a closure does.\<close>

fun flat_map_frames ::
  "('s \<Rightarrow> H2Frame \<Rightarrow> ('s \<times> H2Frame list) checked) \<Rightarrow> 's \<Rightarrow> H2Frame list \<Rightarrow> ('s \<times> H2Frame list) checked" where
  "flat_map_frames f s [] = Ok (s, [])"
| "flat_map_frames f s (fr # frames) =
     bind_outcome (f s fr) (\<lambda>(s, put).
     bind_outcome (flat_map_frames f s frames) (\<lambda>(s, rest). Ok (s, put @ rest)))"

definition map_h2_frames ::
  "('s \<Rightarrow> H2Frame \<Rightarrow> ('s \<times> H2Frame list) checked) \<Rightarrow> 's \<Rightarrow> u8 list \<Rightarrow> ('s \<times> u8 list) checked" where
  "map_h2_frames f s bytes =
     (let preface = (if strip_prefix H2_PREFACE bytes \<noteq> None then H2_PREFACE else []) in
      bind_outcome (flat_map_frames f s (h2_frames bytes)) (\<lambda>(s, frames).
      bind_outcome (collect_outcome to_bytes frames) (\<lambda>parts. Ok (s, preface @ concat parts))))"

definition h2_body :: "u8 list \<Rightarrow> u8 list" where
  "h2_body bytes =
     concat (map h2_payload (filter (\<lambda>f. h2_kind f = H2_DATA \<and> h2_stream f = 1) (h2_frames bytes)))"

definition h2_request_txid :: "u8 list \<Rightarrow> u16 option checked" where
  "h2_request_txid request =
     (let body = h2_body request in
      if 2 \<le> length body then bind_outcome (get_u16 body 0) (\<lambda>i. Ok (Some i)) else Ok None)"

definition h2_patch_body_txid :: "u8 list \<Rightarrow> u16 \<Rightarrow> u8 list checked" where
  "h2_patch_body_txid response i =
     bind_outcome
       (map_h2_frames (\<lambda>patched frame.
          if \<not> patched \<and> h2_kind frame = H2_DATA \<and> h2_stream frame = 1 \<and> 2 \<le> length (h2_payload frame)
          then bind_outcome (set_u16 (h2_payload frame) 0 i) (\<lambda>bytes. Ok (True, [frame\<lparr>h2_payload := bytes\<rparr>]))
          else Ok (patched, [frame])) False response)
       (\<lambda>(patched, out). if patched then Ok out else Panic)"

subsection \<open>The frames of the tests are the frames of dog\<close>

definition frame_of :: "H2Frame \<Rightarrow> Frame" where
  "frame_of f =
     \<lparr>frame_kind = h2_kind f, frame_flags = h2_flags f, frame_stream = h2_stream f,
      frame_payload = h2_payload f\<rparr>"

lemma frame_of_inject [simp]: "frame_of f = frame_of g \<longleftrightarrow> f = g"
  by (auto simp: frame_of_def)

lemma map_frame_of_inject [simp]: "map frame_of fs = map frame_of gs \<longleftrightarrow> fs = gs"
  by (rule inj_map_eq_map) (simp add: inj_def)

lemma frame_of_surj: "\<exists>f. g = frame_of f"
  by (rule exI [of _ "\<lparr>h2_kind = frame_kind g, h2_flags = frame_flags g, h2_stream = frame_stream g,
      h2_payload = frame_payload g\<rparr>"]) (simp add: frame_of_def)

lemma to_bytes_frame:
  "length (h2_payload f) < 2 ^ 24 \<Longrightarrow> to_bytes f = Ok (frame_bytes (frame_of f))"
  by (simp add: to_bytes_def frame_bytes_def frame_of_def be_bytes32_def word_unat_eq_iff unat_of_nat)

lemma length_frame_bytes: "length (frame_bytes f) = 9 + length (frame_payload f)"
  by (simp add: frame_bytes_def)

text \<open>Where the head of a frame stands, the frame is found if it is all there.\<close>

lemma h2_frames_from_head:
  assumes "proper_frame (frame_of f)" and "at + 9 \<le> length bytes"
    and "take 9 (drop at bytes) = take 9 (frame_bytes (frame_of f))"
  shows "h2_frames_from bytes at =
    (if at + 9 + length (h2_payload f) \<le> length bytes
     then f\<lparr>h2_payload := take (length (h2_payload f)) (drop (at + 9) bytes)\<rparr>
       # h2_frames_from bytes (at + (9 + length (h2_payload f)))
     else [])"
proof -
  let ?n = "length (h2_payload f)"
  let ?head = "[word_of_nat (?n div 65536), word_of_nat (?n div 256), word_of_nat ?n, h2_kind f, h2_flags f]
      @ be_bytes32 (h2_stream f)"
  have "frame_bytes (frame_of f) = ?head @ h2_payload f" by (simp add: frame_bytes_def frame_of_def)
  moreover have "length ?head = 9" by simp
  ultimately have head: "take 9 (drop at bytes) = ?head" using assms(3) by simp
  have small: "?n \<le> MAX_FRAME" and stream: "h2_stream f AND 0x7FFFFFFF = h2_stream f"
    using assms(1) by (simp_all add: proper_frame_def frame_of_def)
  have len: "push_bit 16 (unat (?head ! 0)) OR push_bit 8 (unat (?head ! 1)) OR unat (?head ! 2) = ?n"
    using length_bits [OF small] by simp
  have be: "be32 (?head ! 5) (?head ! 6) (?head ! 7) (?head ! 8) AND 0x7FFFFFFF = h2_stream f"
    using be32_be_bytes32_nth [of "h2_stream f"] stream by simp
  show ?thesis
    unfolding h2_frames_from.simps [of bytes at] head Let_def len be using assms(2) by simp
qed

lemma h2_frames_from_Cons:
  assumes "proper_frame (frame_of f)"
  shows "h2_frames_from (pre @ frame_bytes (frame_of f) @ rest) (length pre) =
    f # h2_frames_from ((pre @ frame_bytes (frame_of f)) @ rest) (length (pre @ frame_bytes (frame_of f)))"
proof -
  have n: "length (frame_bytes (frame_of f)) = 9 + length (h2_payload f)"
    by (simp add: length_frame_bytes frame_of_def)
  have "drop 9 (frame_bytes (frame_of f)) = h2_payload f"
    by (simp add: frame_bytes_def frame_of_def)
  then have "take (length (h2_payload f)) (drop (length pre + 9) (pre @ frame_bytes (frame_of f) @ rest)) = h2_payload f"
    using n by simp
  with n show ?thesis
    by (subst h2_frames_from_head [OF assms]) simp_all
qed

lemma h2_frames_from_partial:
  assumes "proper_frame (frame_of f)" and "k < length (frame_bytes (frame_of f))"
  shows "h2_frames_from (pre @ take k (frame_bytes (frame_of f))) (length pre) = []"
proof (cases "k < 9")
  case True
  then show ?thesis by (simp add: h2_frames_from.simps [of _ "length pre"])
next
  case False
  have "length (frame_bytes (frame_of f)) = 9 + length (h2_payload f)"
    by (simp add: length_frame_bytes frame_of_def)
  with assms(2) False show ?thesis
    by (subst h2_frames_from_head [OF assms(1)]) (simp_all add: min_def)
qed

abbreviation frames_bytes :: "H2Frame list \<Rightarrow> u8 list" where
  "frames_bytes fs \<equiv> concat (map (\<lambda>f. frame_bytes (frame_of f)) fs)"

text \<open>Of a stream that is cut off, the frames before the cut are found.\<close>

lemma h2_frames_from_take:
  "list_all (\<lambda>f. proper_frame (frame_of f)) fs \<Longrightarrow>
     \<exists>j. h2_frames_from (pre @ take k (frames_bytes fs)) (length pre) = take j fs
       \<and> (k < length (frames_bytes fs) \<longrightarrow> j < length fs) \<and> (length (frames_bytes fs) \<le> k \<longrightarrow> j = length fs)"
proof (induction fs arbitrary: pre k)
  case Nil
  then show ?case by (simp add: h2_frames_from.simps [of _ "length pre"])
next
  case (Cons f fs)
  let ?fb = "frame_bytes (frame_of f)"
  from Cons.prems have f: "proper_frame (frame_of f)" by simp
  show ?case
  proof (cases "k < length ?fb")
    case True
    with h2_frames_from_partial [OF f True, of pre] show ?thesis by (intro exI [of _ 0]) simp
  next
    case False
    from Cons.IH [of "pre @ ?fb" "k - length ?fb"] Cons.prems obtain j where
      "h2_frames_from ((pre @ ?fb) @ take (k - length ?fb) (frames_bytes fs)) (length (pre @ ?fb)) = take j fs"
      "k - length ?fb < length (frames_bytes fs) \<longrightarrow> j < length fs"
      "length (frames_bytes fs) \<le> k - length ?fb \<longrightarrow> j = length fs"
      by auto
    with h2_frames_from_Cons [OF f, of pre "take (k - length ?fb) (frames_bytes fs)"] False
    show ?thesis
      by (intro exI [of _ "Suc j"]) auto
  qed
qed

lemma H2_PREFACE_bytes:
  "H2_PREFACE = [80, 82, 73, 32, 42, 32, 72, 84, 84, 80, 47, 50, 46, 48, 13, 10, 13, 10, 83, 77, 13, 10, 13, 10]"
  by (simp add: H2_PREFACE_def crlf_def bytes_of_def byte_of_char_def)

lemma strip_prefix_same [simp]: "strip_prefix p (p @ s) = Some s"
  by (simp add: strip_prefix_Some_iff)

lemma h2_frames_after_preface:
  "h2_frames (H2_PREFACE @ bs) = h2_frames_from (H2_PREFACE @ bs) (length H2_PREFACE)"
  by (simp add: h2_frames_def after_preface_def)

text \<open>A frame that is not too long does not begin as the preface does.\<close>

lemma no_preface:
  assumes "list_all (\<lambda>f. proper_frame (frame_of f)) fs"
  shows "strip_prefix H2_PREFACE (frames_bytes fs) = None"
proof (cases fs)
  case Nil
  then show ?thesis by (simp add: H2_PREFACE_bytes)
next
  case (Cons f gs)
  then have "length (h2_payload f) div 65536 = 0"
    using assms by (simp add: proper_frame_def frame_of_def MAX_FRAME_def)
  with Cons show ?thesis by (simp add: H2_PREFACE_bytes frame_bytes_def frame_of_def)
qed

lemma h2_frames_frames_bytes:
  assumes "list_all (\<lambda>f. proper_frame (frame_of f)) fs"
  shows "h2_frames (frames_bytes fs) = fs" and "h2_frames (H2_PREFACE @ frames_bytes fs) = fs"
  using h2_frames_from_take [OF assms, of "[]" "length (frames_bytes fs)"]
    h2_frames_from_take [OF assms, of H2_PREFACE "length (frames_bytes fs)"] no_preface [OF assms]
  by (auto simp: h2_frames_def after_preface_def h2_frames_after_preface)

lemma collect_to_bytes:
  "list_all (\<lambda>f. proper_frame (frame_of f)) fs \<Longrightarrow>
     collect_outcome to_bytes fs = Ok (map (\<lambda>f. frame_bytes (frame_of f)) fs)"
  by (induction fs) (auto simp: proper_frame_def frame_of_def MAX_FRAME_def to_bytes_frame)

lemma flat_map_frames_pure:
  "flat_map_frames (\<lambda>s f. Ok (s, g f)) s fs = Ok (s, concat (map g fs))"
  by (induction fs) auto

text \<open>
  The frames of the tests are the frames of dog: any frames that dog would send or accept are
  written by the tests as dog writes them, are read back whole from a stream of them, with the
  client's preface before it or not, and a stream mapped frame by frame has in each frame's place
  what was put there.
\<close>

theorem h2_frames_round_trip:
  assumes "list_all (\<lambda>f. proper_frame (frame_of f)) fs"
    and "list_all (\<lambda>f. list_all (\<lambda>g. proper_frame (frame_of g)) (put f)) fs"
  shows "collect_outcome to_bytes fs = Ok (map (\<lambda>f. frame_bytes (frame_of f)) fs)
    \<and> h2_frames (frames_bytes fs) = fs \<and> h2_frames (H2_PREFACE @ frames_bytes fs) = fs
    \<and> map_h2_frames (\<lambda>s f. Ok (s, put f)) s (frames_bytes fs) = Ok (s, frames_bytes (concat (map put fs)))
    \<and> map_h2_frames (\<lambda>s f. Ok (s, put f)) s (H2_PREFACE @ frames_bytes fs)
      = Ok (s, H2_PREFACE @ frames_bytes (concat (map put fs)))"
proof -
  have "list_all (\<lambda>f. proper_frame (frame_of f)) (concat (map put fs))"
    using assms(2) by (auto simp: list_all_iff)
  from collect_to_bytes [OF this] collect_to_bytes [OF assms(1)] h2_frames_frames_bytes [OF assms(1)]
    no_preface [OF assms(1)]
  show ?thesis by (simp add: map_h2_frames_def flat_map_frames_pure)
qed

lemma h2_frames_round_trip_witness:
  "h2_frames [0, 0, 1, 0, 1, 0, 0, 0, 1, 9] = [\<lparr>h2_kind = 0, h2_flags = 1, h2_stream = 1, h2_payload = [9]\<rparr>]"
proof -
  let ?f = "\<lparr>h2_kind = 0, h2_flags = 1, h2_stream = 1, h2_payload = [9]\<rparr>"
  have f: "proper_frame (frame_of ?f)" by (simp add: proper_frame_def frame_of_def MAX_FRAME_def)
  have "frames_bytes [?f] = [0, 0, 1, 0, 1, 0, 0, 0, 1, 9]"
    by (simp add: frame_bytes_def frame_of_def be_bytes32_def)
  with h2_frames_round_trip [of "[?f]" "\<lambda>f. [f]" "()"] f show ?thesis by simp
qed

subsection \<open>The request over HTTP/2, as the tests read it\<close>

definition ends_stream :: "H2Frame \<Rightarrow> bool" where
  "ends_stream f \<longleftrightarrow> h2_stream f = 1 \<and> h2_flags f AND H2_END_STREAM \<noteq> 0"

lemmas sent_defs = frame_types frame_flags_defs STREAM_def H2_DATA_def H2_END_STREAM_def

definition sent :: "u8 \<Rightarrow> u8 \<Rightarrow> u32 \<Rightarrow> u8 list \<Rightarrow> H2Frame" where
  "sent kind fs stream bytes = \<lparr>h2_kind = kind, h2_flags = fs, h2_stream = stream, h2_payload = bytes\<rparr>"

lemma frame_of_sent: "frame_of (sent kind fs stream bytes) = sent_frame kind fs stream bytes"
  by (simp add: sent_def frame_of_def sent_frame_def)

lemma ends_stream_sent: "ends_stream (sent kind fs stream bytes) \<longleftrightarrow> stream = 1 \<and> fs AND H2_END_STREAM \<noteq> 0"
  by (simp add: ends_stream_def sent_def)

fun sent_parts :: "u8 list list \<Rightarrow> H2Frame list" where
  "sent_parts [] = []"
| "sent_parts [part] = [sent DATA END_STREAM STREAM part]"
| "sent_parts (part # parts) = sent DATA 0 STREAM part # sent_parts parts"

lemma map_frame_of_sent_parts: "map frame_of (sent_parts parts) = body_frames parts"
  by (induction parts rule: sent_parts.induct) (simp_all add: frame_of_sent)

lemma sent_parts_proper:
  "list_all (\<lambda>part. length part \<le> MAX_FRAME) parts \<Longrightarrow> list_all (\<lambda>f. proper_frame (frame_of f)) (sent_parts parts)"
  by (induction parts rule: sent_parts.induct) (simp_all add: sent_def frame_of_def proper_frame_def STREAM_def)

lemma sent_parts_body:
  "concat (map h2_payload (filter (\<lambda>f. h2_kind f = H2_DATA \<and> h2_stream f = 1) (sent_parts parts))) = concat parts"
  by (induction parts rule: sent_parts.induct) (simp_all add: sent_def sent_defs)

lemma sent_parts_end:
  "parts \<noteq> [] \<Longrightarrow> \<exists>fs f. sent_parts parts = fs @ [f] \<and> \<not> list_ex ends_stream fs \<and> ends_stream f"
proof (induction parts rule: sent_parts.induct)
  case (2 part)
  then show ?case by (simp add: ends_stream_sent sent_defs)
next
  case (3 part p parts)
  then obtain fs f where "sent_parts (p # parts) = fs @ [f]" "\<not> list_ex ends_stream fs" "ends_stream f" by auto
  then show ?case
    by (intro exI [of _ "sent DATA 0 STREAM part # fs"] exI [of _ f])
      (simp add: ends_stream_sent sent_defs)
qed simp

lemma h2_request_walked:
  assumes "h2_request_bytes url body = Ok bytes"
  obtains fs f where "bytes = H2_PREFACE @ frames_bytes (fs @ [f])"
    "list_all (\<lambda>f. proper_frame (frame_of f)) (fs @ [f])"
    "\<not> list_ex ends_stream fs" "ends_stream f" "h2_body bytes = body"
proof -
  let ?block = "header_block url (length body)"
  obtain parts where fits: "length ?block \<le> MAX_FRAME"
    and bytes: "bytes = PREFACE @ concat (map frame_bytes
           (sent_frame SETTINGS 0 0 NO_PUSH # sent_frame HEADERS END_HEADERS STREAM ?block # body_frames parts))"
    and parts: "concat parts = body" "parts \<noteq> []" "list_all (\<lambda>part. length part \<le> MAX_FRAME) parts"
    using h2_request_frames [of url body] assms by (auto split: if_splits)
  from sent_parts_end [OF parts(2)] obtain fs f where
    last: "sent_parts parts = fs @ [f]" "\<not> list_ex ends_stream fs" "ends_stream f" by blast
  let ?fs = "sent SETTINGS 0 0 NO_PUSH # sent HEADERS END_HEADERS STREAM ?block # fs"
  have all: "?fs @ [f] = sent SETTINGS 0 0 NO_PUSH # sent HEADERS END_HEADERS STREAM ?block # sent_parts parts"
    by (simp add: last)
  have bytes': "bytes = H2_PREFACE @ frames_bytes (?fs @ [f])"
    unfolding all bytes map_frame_of_sent_parts [symmetric]
    by (simp add: frame_of_sent H2_PREFACE_def PREFACE_def comp_def)
  have proper: "list_all (\<lambda>f. proper_frame (frame_of f)) (?fs @ [f])"
    unfolding all using fits sent_parts_proper [OF parts(3)]
    by (simp add: sent_def frame_of_def proper_frame_def STREAM_def NO_PUSH_def MAX_FRAME_def)
  have "h2_frames bytes = ?fs @ [f]" unfolding bytes' using h2_frames_frames_bytes(2) [OF proper] .
  then have "h2_body bytes = body"
    unfolding all h2_body_def using sent_parts_body [of parts] parts(1) by (simp add: sent_def sent_defs)
  moreover have "\<not> list_ex ends_stream ?fs"
    using last(2) by (simp add: ends_stream_sent sent_defs)
  ultimately show ?thesis using bytes' proper last(3) that by blast
qed

text \<open>The frame that takes the transaction ID: the first on stream 1 with room for it.\<close>

definition takes_txid :: "H2Frame \<Rightarrow> bool" where
  "takes_txid f \<longleftrightarrow> h2_kind f = H2_DATA \<and> h2_stream f = 1 \<and> 2 \<le> length (h2_payload f)"

lemma h2_txid_patched:
  assumes "list_all (\<lambda>f. proper_frame (frame_of f)) (before @ fs)" and "\<not> list_ex takes_txid before"
    and "fs = [] \<or> takes_txid (hd fs)"
  shows "h2_patch_body_txid (frames_bytes (before @ fs)) i =
    (case fs of
       [] \<Rightarrow> Panic
     | f # after \<Rightarrow>
         Ok (frames_bytes (before @ f\<lparr>h2_payload := be_bytes16 i @ drop 2 (h2_payload f)\<rparr> # after)))"
proof -
  let ?g = "\<lambda>patched frame.
          if \<not> patched \<and> h2_kind frame = H2_DATA \<and> h2_stream frame = 1 \<and> 2 \<le> length (h2_payload frame)
          then bind_outcome (set_u16 (h2_payload frame) 0 i) (\<lambda>bytes. Ok (True, [frame\<lparr>h2_payload := bytes\<rparr>]))
          else Ok (patched, [frame])"
  have skip: "flat_map_frames ?g s (xs @ ys) =
      bind_outcome (flat_map_frames ?g s ys) (\<lambda>(t, zs). Ok (t, xs @ zs))"
    if "s \<or> \<not> list_ex takes_txid xs" for s xs ys
    using that
  proof (induction xs)
    case Nil
    then show ?case by (cases "flat_map_frames ?g s ys") auto
  next
    case (Cons x xs)
    then have "?g s x = Ok (s, [x])" by (auto simp: takes_txid_def)
    with Cons show ?case by (cases "flat_map_frames ?g s ys") auto
  qed
  have walk: "h2_patch_body_txid (frames_bytes (before @ fs)) i =
      bind_outcome (bind_outcome (flat_map_frames ?g False (before @ fs)) (\<lambda>(s, frames).
        bind_outcome (collect_outcome to_bytes frames) (\<lambda>parts. Ok (s, concat parts))))
      (\<lambda>(patched, out). if patched then Ok out else Panic)"
    unfolding h2_patch_body_txid_def map_h2_frames_def h2_frames_frames_bytes(1) [OF assms(1)] no_preface [OF assms(1)]
    by simp
  show ?thesis
  proof (cases fs)
    case Nil
    with walk skip [of False before "[]"] assms show ?thesis by (simp add: collect_to_bytes)
  next
    case (Cons f after)
    let ?f = "f\<lparr>h2_payload := be_bytes16 i @ drop 2 (h2_payload f)\<rparr>"
    have takes: "takes_txid f" using assms(3) Cons by simp
    then have step: "?g False f = Ok (True, [?f])"
      by (auto simp: takes_txid_def set_u16_def numeral_2_eq_2)
    have "flat_map_frames ?g False (before @ fs) = Ok (True, before @ ?f # after)"
      using skip [of False before fs] skip [of True after "[]"] assms(2) step Cons by simp
    moreover have "proper_frame (frame_of ?f)"
      using assms(1) Cons takes by (auto simp: proper_frame_def frame_of_def takes_txid_def)
    then have "list_all (\<lambda>f. proper_frame (frame_of f)) (before @ ?f # after)"
      using assms(1) Cons by simp
    ultimately show ?thesis
      unfolding walk by (simp add: collect_to_bytes Cons del: list_all_append)
  qed
qed

text \<open>
  Writing a transaction ID into a response over HTTP/2 changes the first two bytes of the first
  frame of its body that has as many, and nothing else in the stream; where there is no such frame
  it panics.
\<close>

theorem h2_patch_body_txid_spec:
  assumes "list_all (\<lambda>f. proper_frame (frame_of f)) (before @ fs)" and "\<not> list_ex takes_txid before"
    and "fs = [] \<or> takes_txid (hd fs)"
  shows "h2_patch_body_txid (frames_bytes (before @ fs)) i =
    (case fs of
       [] \<Rightarrow> Panic
     | f # after \<Rightarrow>
         Ok (frames_bytes (before @ f\<lparr>h2_payload := be_bytes16 i @ drop 2 (h2_payload f)\<rparr> # after)))"
  using assms by (rule h2_txid_patched)

lemma h2_patch_body_txid_spec_witness:
  "h2_patch_body_txid [0, 0, 3, 0, 1, 0, 0, 0, 1, 0xAA, 0xAA, 9] 0x1234 =
     Ok [0, 0, 3, 0, 1, 0, 0, 0, 1, 0x12, 0x34, 9]"
proof -
  let ?f = "\<lambda>bs. \<lparr>h2_kind = 0, h2_flags = 1, h2_stream = 1, h2_payload = bs\<rparr>"
  have f: "proper_frame (frame_of (?f [0xAA, 0xAA, 9]))" "takes_txid (?f [0xAA, 0xAA, 9])"
    by (simp_all add: proper_frame_def frame_of_def MAX_FRAME_def takes_txid_def H2_DATA_def)
  have "frames_bytes [?f [a, b, 9]] = [0, 0, 3, 0, 1, 0, 0, 0, 1, a, b, 9]" for a b
    by (simp add: frame_bytes_def frame_of_def be_bytes32_def)
  with h2_patch_body_txid_spec [of "[]" "[?f [0xAA, 0xAA, 9]]" "0x1234"] f show ?thesis
    by (simp add: be_bytes16_def)
qed


subsection \<open>The records of a message, as the tests find them\<close>

text \<open>
  C33: The walker of the tests and the parser of dog agree: on every message that dog parses, the
  walker finds the records that dog finds, in their order, in their sections, with their types, and
  with bytes that are read as the same data. CAA records are left out, since dog may read one from
  more bytes than the message says it has.
\<close>

theorem rr_spans_agree:
  assumes "length bytes \<le> max_safe_message" and "response_from_bytes bytes = Ok r"
    and "\<not> list_ex is_caa (resp_answers r @ resp_authorities r @ resp_additionals r)"
  shows "\<exists>as us xs. rr_spans bytes = Ok (as @ us @ xs)
    \<and> list_all2 (span_of bytes Answer) (resp_answers r) as
    \<and> list_all2 (span_of bytes Authority) (resp_authorities r) us
    \<and> list_all2 (span_of bytes Additional) (resp_additionals r) xs"
  using assms by (rule spans_agree)

lemma rr_spans_agree_witness:
  "\<exists>span. rr_spans [0xBE, 0xEF, 0x81, 0x80, 0, 0, 0, 1, 0, 0, 0, 0, 0, 0, 1, 0, 1, 0, 0, 0, 60, 0, 4, 192, 0, 2, 1]
     = Ok [span] \<and> span_section span = Answer \<and> span_rtype span = 1"
proof -
  let ?m = "[0xBE, 0xEF, 0x81, 0x80, 0, 0, 0, 1, 0, 0, 0, 0, 0, 0, 1, 0, 1, 0, 0, 0, 60, 0, 4, 192, 0, 2, 1] :: u8 list"
  let ?a = "Standard root IN 60 (R_A \<lparr>a_address = [192, 0, 2, 1]\<rparr>)"
  let ?ab = "name_bytes root @ be_bytes16 1 @ be_bytes16 1 @ be_bytes32 60
    @ be_bytes16 (word_of_nat (length [192, 0, 2, 1 :: u8])) @ [192, 0, 2, 1]"
  have t: "canonical_type T_A" by (simp add: canonical_type_def record_type_from_def known_types_def)
  have c: "canonical_class IN" by (simp add: canonical_class_def qclass_from_u16_def)
  have a: "answer_bytes ?a ?ab"
    using standard_bytes [OF root_name(2) c, of "R_A \<lparr>a_address = [192, 0, 2, 1]\<rparr>" "[192, 0, 2, 1]" 60] t
    by (simp add: OPT_RR_TYPE_def rdata_A)
  have m: "message_bytes 0xBEEF 0x8180 [] [?ab] [] [] = ?m"
    by (simp add: message_bytes_def root_name be_bytes16_def be_bytes32_def)
  obtain r where r: "response_from_bytes ?m = Ok r" "resp_answers r = [?a]" "resp_authorities r = []"
    "resp_additionals r = []"
    using response_from_message_bytes [OF parses_response [of "[]" "[]" "[?a]" "[?ab]" "[]" "[]" "[]" "[]" "0xBEEF" "0x8180"]]
      answer_entry_parses [OF a] unfolding m by simp
  with rr_spans_agree [OF _ r(1)] show ?thesis
    by (auto simp: max_safe_message_def span_of_def list_all2_Cons1)
qed

end
