(* ===== verification/Test_Mock.thy ===== *)
theory Test_Mock
  imports Test_Wire Json
begin

text \<open>
  The nameservers that the tests run (\<open>test-support/src/mock.rs\<close>): what each answers to a query, over
  UDP, TCP, HTTP/1.1 and HTTP/2, and how it reads requests and writes replies. The theory puts dog's
  client and these servers together: what dog makes of each kind of server, good and bad.

  The socket that a server reads and writes is the one of the theory \<open>Net\<close>, with the same timeout for
  every operation and no deadline. Starting a server, its thread, and what it prints when something
  goes wrong are left out.
\<close>

subsection \<open>Sockets\<close>

text \<open>Thirty seconds, in nanoseconds.\<close>

definition IDLE :: nat where "IDLE = 30 * 10 ^ 9"

text \<open>A server remembers every request that it receives.\<close>

record server = net +
  received :: "u8 list list"

definition record_request :: "u8 list \<Rightarrow> 'w server_scheme \<Rightarrow> 'w server_scheme" where
  "record_request request w = w\<lparr>received := received w @ [request]\<rparr>"

lemma socket_read_store:
  "socket_read limit n w = (s, v) \<Longrightarrow> store v \<le> store w
     \<and> (\<forall>bs. s = Ok bs \<longrightarrow> bs \<noteq> [] \<longrightarrow> store v < store w) \<and> (s = Err K_Interrupted \<longrightarrow> store v < store w)"
  by (auto simp: socket_read_def store_def split: list.splits if_splits read_event.splits)

text \<open>The standard library's \<open>read_exact\<close> and \<open>write_all\<close>, which try again what is interrupted.\<close>

function idle_read_exact :: "nat \<Rightarrow> 'w net_scheme \<Rightarrow> (io_kind, u8 list) outcome \<times> 'w net_scheme" where
  "idle_read_exact n w =
     (if n = 0 then (Ok [], w)
      else
        (case socket_read IDLE n w of
           (Err k, w') \<Rightarrow> if k = K_Interrupted then idle_read_exact n w' else (Err k, w')
         | (Panic, w') \<Rightarrow> (Panic, w')
         | (Ok bs, w') \<Rightarrow>
             if bs = [] then (Err K_UnexpectedEof, w')
             else
               (case idle_read_exact (n - length bs) w' of
                  (Ok cs, w'') \<Rightarrow> (Ok (bs @ cs), w'')
                | result \<Rightarrow> result)))"
  by pat_completeness auto
termination
  by (relation "measure (\<lambda>(n, w). store w)") (auto dest!: socket_read_store [OF sym])

declare idle_read_exact.simps [simp del]

function idle_write_all :: "u8 list \<Rightarrow> 'w net_scheme \<Rightarrow> (io_kind, unit) outcome \<times> 'w net_scheme" where
  "idle_write_all bs w =
     (if bs = [] then (Ok (), w)
      else
        (case socket_write IDLE bs w of
           (Err k, w') \<Rightarrow> if k = K_Interrupted then idle_write_all bs w' else (Err k, w')
         | (Panic, w') \<Rightarrow> (Panic, w')
         | (Ok n, w') \<Rightarrow>
             if n = 0 then (Err K_WriteZero, w')
             else idle_write_all (drop n bs) w'))"
  by pat_completeness auto
termination
  by (relation "measures [\<lambda>(bs, w). length (accepts w), \<lambda>(bs, w). length bs]")
    (auto simp: socket_write_def split: list.splits if_splits write_event.splits)

declare idle_write_all.simps [simp del]

definition is_timeout :: "io_kind \<Rightarrow> bool" where
  "is_timeout k \<longleftrightarrow> k = K_WouldBlock \<or> k = K_TimedOut"

text \<open>\<open>hold\<close>: reading and discarding until the client closes the connection.\<close>

function hold :: "'w net_scheme \<Rightarrow> (io_kind, unit) outcome \<times> 'w net_scheme" where
  "hold w =
     (case socket_read IDLE 512 w of
        (Ok bs, w') \<Rightarrow> if bs = [] then (Ok (), w') else hold w'
      | (Err k, w') \<Rightarrow> if is_timeout k then (Ok (), w') else (Err k, w')
      | (Panic, w') \<Rightarrow> (Panic, w'))"
  by pat_completeness auto
termination
  by (relation "measure store") (auto dest!: socket_read_store [OF sym])

declare hold.simps [simp del]

text \<open>\<open>trickle\<close>: one byte at a time, with a pause after each, until the client has had enough.\<close>

fun trickle :: "u8 list \<Rightarrow> nat \<Rightarrow> 'w net_scheme \<Rightarrow> (io_kind, unit) outcome \<times> 'w net_scheme" where
  "trickle [] delay w = (Ok (), w)"
| "trickle (byte # bytes) delay w =
     (case idle_write_all [byte] w of
        (Err k, w') \<Rightarrow> if k = K_BrokenPipe \<or> k = K_ConnectionReset then (Ok (), w') else (Err k, w')
      | (Panic, w') \<Rightarrow> (Panic, w')
      | (Ok _, w') \<Rightarrow> trickle bytes delay (w'\<lparr>clock := clock w' + delay\<rparr>))"

datatype Action = Write "u8 list" | Trickle "u8 list" nat | Hold

fun perform :: "Action \<Rightarrow> 'w net_scheme \<Rightarrow> (io_kind, unit) outcome \<times> 'w net_scheme" where
  "perform (Write bytes) = idle_write_all bytes"
| "perform (Trickle bytes delay) = trickle bytes delay"
| "perform Hold = hold"


subsection \<open>UDP\<close>

datatype Udp =
    Udp_Replay "u8 list"
  | Udp_After nat "u8 list"
  | Udp_WrongTxidThen "u8 list"
  | Udp_OnlyWrongTxid "u8 list"
  | Udp_NotAResponse "u8 list"
  | Udp_Echo "u8 list"
  | Udp_Raw "u8 list"
  | Udp_RawWithTxid "u8 list"
  | Udp_Silent

definition request_txid :: "u8 list \<Rightarrow> u16 checked" where
  "request_txid query = (if 2 \<le> length query then txid query else Ok 0)"

definition echo :: "u8 list \<Rightarrow> u8 list \<Rightarrow> u8 list checked" where
  "echo reply query =
     bind_outcome (truncate_to reply HEADER_LEN) (\<lambda>header.
     bind_outcome (request_txid query) (\<lambda>i.
     bind_outcome (with_txid header i) (\<lambda>out.
     bind_outcome (question_end query) (\<lambda>query_end.
     bind_outcome (if HEADER_LEN \<le> query_end \<and> query_end \<le> length query
                   then Ok (drop HEADER_LEN (take query_end query)) else Panic) (\<lambda>question.
     bind_outcome (question_end reply) (\<lambda>reply_end.
     if reply_end \<le> length reply then Ok (out @ question @ drop reply_end reply) else Panic))))))"

definition overwrite_txid :: "u8 list \<Rightarrow> u16 \<Rightarrow> u8 list checked" where
  "overwrite_txid bytes i = (if 2 \<le> length bytes then with_txid bytes i else Ok bytes)"

definition udp_replies :: "Udp \<Rightarrow> u8 list \<Rightarrow> u8 list list checked" where
  "udp_replies mode query =
     bind_outcome (request_txid query) (\<lambda>i.
     case mode of
       Udp_Replay reply \<Rightarrow> bind_outcome (with_txid reply i) (\<lambda>r. Ok [r])
     | Udp_After _ reply \<Rightarrow> bind_outcome (with_txid reply i) (\<lambda>r. Ok [r])
     | Udp_WrongTxidThen reply \<Rightarrow>
         bind_outcome (with_txid reply (i + 1)) (\<lambda>wrong.
         bind_outcome (with_txid reply i) (\<lambda>right. Ok [wrong, right]))
     | Udp_OnlyWrongTxid reply \<Rightarrow> bind_outcome (with_txid reply (i + 1)) (\<lambda>r. Ok [r])
     | Udp_NotAResponse reply \<Rightarrow>
         bind_outcome (with_txid reply i) (\<lambda>r. bind_outcome (without_flag r QR) (\<lambda>r. Ok [r]))
     | Udp_Echo reply \<Rightarrow> bind_outcome (echo reply query) (\<lambda>r. Ok [r])
     | Udp_Raw bytes \<Rightarrow> Ok [bytes]
     | Udp_RawWithTxid bytes \<Rightarrow> bind_outcome (overwrite_txid bytes i) (\<lambda>r. Ok [r])
     | Udp_Silent \<Rightarrow> Ok [])"

text \<open>
  \<open>udp_loop\<close>: a query at a time, until none comes for too long. What is sent is listed with the time
  at which it is sent; a panic ends the server.
\<close>

fun udp_loop ::
  "Udp \<Rightarrow> (nat \<times> datagram_event) list \<Rightarrow> nat \<Rightarrow> u8 list list \<Rightarrow> (nat \<times> u8 list) list \<Rightarrow>
     unit checked \<times> u8 list list \<times> (nat \<times> u8 list) list" where
  "udp_loop mode [] now queries replies = (Ok (), queries, replies)"
| "udp_loop mode ((delay, ev) # evs) now queries replies =
     (if IDLE \<le> delay then (Ok (), queries, replies)
      else
        (case ev of
           Recv_Fails k \<Rightarrow> (Ok (), queries, replies)
         | Datagram bytes \<Rightarrow>
             let query = take 65535 bytes;
                 queries = queries @ [query];
                 now = now + delay;
                 now = (case mode of Udp_After pause _ \<Rightarrow> now + pause | _ \<Rightarrow> now)
             in case udp_replies mode query of
                  Ok rs \<Rightarrow> udp_loop mode evs now queries (replies @ map (Pair now) rs)
                | Err e \<Rightarrow> (Err e, queries, replies)
                | Panic \<Rightarrow> (Panic, queries, replies)))"


subsection \<open>DNS over TCP\<close>

datatype Tcp =
    Tcp_Replay "u8 list"
  | Tcp_Drip "u8 list"
  | Tcp_Trickle "u8 list" nat
  | Tcp_WrongTxid "u8 list"
  | Tcp_PrefixOnlyThenClose "u8 list"
  | Tcp_HalfBodyThenClose "u8 list"
  | Tcp_OneByteThenClose
  | Tcp_ZeroLength
  | Tcp_TrailingBytes "u8 list"
  | Tcp_CloseImmediately
  | Tcp_Raw "u8 list"
  | Tcp_Silent

text \<open>A millisecond.\<close>

definition DRIP :: nat where "DRIP = 10 ^ 6"

definition prefixed :: "u8 list \<Rightarrow> u8 list checked" where
  "prefixed message =
     (if length message < 65536 then Ok (be_bytes16 (word_of_nat (length message)) @ message) else Panic)"

definition half_body :: "u8 list \<Rightarrow> u8 list checked" where
  "half_body bytes =
     (if length bytes < 2 then Panic else truncate_to bytes (2 + (length bytes - 2) div 2))"

definition tcp_action :: "Tcp \<Rightarrow> u8 list \<Rightarrow> Action checked" where
  "tcp_action mode query =
     bind_outcome (request_txid query) (\<lambda>i.
     let numbered = (\<lambda>reply i. bind_outcome (with_txid reply i) prefixed) in
     case mode of
       Tcp_Replay reply \<Rightarrow> bind_outcome (numbered reply i) (\<lambda>bytes. Ok (Write bytes))
     | Tcp_Drip reply \<Rightarrow> bind_outcome (numbered reply i) (\<lambda>bytes. Ok (Trickle bytes DRIP))
     | Tcp_Trickle reply delay \<Rightarrow> bind_outcome (numbered reply i) (\<lambda>bytes. Ok (Trickle bytes delay))
     | Tcp_WrongTxid reply \<Rightarrow> bind_outcome (numbered reply (i + 1)) (\<lambda>bytes. Ok (Write bytes))
     | Tcp_PrefixOnlyThenClose reply \<Rightarrow>
         bind_outcome (prefixed reply) (\<lambda>bytes. bind_outcome (truncate_to bytes 2) (\<lambda>bytes. Ok (Write bytes)))
     | Tcp_HalfBodyThenClose reply \<Rightarrow>
         bind_outcome (numbered reply i) (\<lambda>bytes. bind_outcome (half_body bytes) (\<lambda>bytes. Ok (Write bytes)))
     | Tcp_OneByteThenClose \<Rightarrow> Ok (Write [0])
     | Tcp_ZeroLength \<Rightarrow> Ok (Write [0, 0])
     | Tcp_TrailingBytes reply \<Rightarrow>
         bind_outcome (numbered reply i) (\<lambda>bytes. Ok (Write (bytes @ bytes_of ''trailing'')))
     | Tcp_Raw bytes \<Rightarrow> Ok (Write bytes)
     | Tcp_CloseImmediately \<Rightarrow> Ok Hold
     | Tcp_Silent \<Rightarrow> Ok Hold)"

definition read_prefixed :: "'w net_scheme \<Rightarrow> (io_kind, u8 list) outcome \<times> 'w net_scheme" where
  "read_prefixed =
     and_then (idle_read_exact 2) (\<lambda>len. idle_read_exact (unat (be16 (len ! 0) (len ! 1))))"

text \<open>Serving a request: a failure to read it or to reply is printed, and a panic ends the server.\<close>

definition serve ::
  "('w server_scheme \<Rightarrow> (io_kind, u8 list) outcome \<times> 'w server_scheme) \<Rightarrow> (u8 list \<Rightarrow> 'r checked) \<Rightarrow>
     ('r \<Rightarrow> 'w server_scheme \<Rightarrow> (io_kind, unit) outcome \<times> 'w server_scheme) \<Rightarrow>
     'w server_scheme \<Rightarrow> unit checked \<times> 'w server_scheme" where
  "serve read answer put w =
     (case read w of
        (Ok request, w') \<Rightarrow>
          let w'' = record_request request w' in
          (case answer request of Ok reply \<Rightarrow> (Ok (), snd (put reply w'')) | Err e \<Rightarrow> (Err e, w'') | Panic \<Rightarrow> (Panic, w''))
      | (_, w') \<Rightarrow> (Ok (), w'))"

definition serve_dns_stream :: "Tcp \<Rightarrow> 'w server_scheme \<Rightarrow> unit checked \<times> 'w server_scheme" where
  "serve_dns_stream mode = serve read_prefixed (tcp_action mode) perform"

definition handle_tcp :: "Tcp \<Rightarrow> 'w server_scheme \<Rightarrow> unit checked \<times> 'w server_scheme" where
  "handle_tcp mode w = (if mode = Tcp_CloseImmediately then (Ok (), w) else serve_dns_stream mode w)"

subsection \<open>Connections\<close>

text \<open>
  \<open>spawn_tcp\<close>: the connections that come in are served one after the other, until accepting one
  fails or serving one panics. What is written on each is kept.
\<close>

datatype accept_event = Accepted "(nat \<times> read_event) list" "(nat \<times> write_event) list" | Accept_Fails io_kind

fun spawn_tcp ::
  "('w server_scheme \<Rightarrow> unit checked \<times> 'w server_scheme) \<Rightarrow> accept_event list \<Rightarrow> 'w server_scheme \<Rightarrow>
     u8 list list \<times> 'w server_scheme" where
  "spawn_tcp handler [] w = ([], w)"
| "spawn_tcp handler (Accept_Fails k # evs) w = ([], w)"
| "spawn_tcp handler (Accepted reads takes # evs) w =
     (case handler (w\<lparr>incoming := reads, accepts := takes, outgoing := []\<rparr>) of
        (Ok _, w') \<Rightarrow> (case spawn_tcp handler evs w' of (outs, w'') \<Rightarrow> (outgoing w' # outs, w''))
      | (_, w') \<Rightarrow> ([outgoing w'], w'))"


subsection \<open>HTTP/1.1\<close>

datatype Http =
    Http_Reply "u8 list"
  | Http_Drip "u8 list"
  | Http_Trickle "u8 list" nat
  | Http_Raw "u8 list"
  | Http_Silent

definition body_txid :: "u8 list \<Rightarrow> u16 option checked" where
  "body_txid request =
     (case http_header_end request of
        None \<Rightarrow> Ok None
      | Some end \<Rightarrow>
          if end + 2 \<le> length request then bind_outcome (get_u16 request end) (\<lambda>i. Ok (Some i)) else Ok None)"

definition reply_for :: "u8 list \<Rightarrow> u8 list \<Rightarrow> u8 list checked" where
  "reply_for reply request =
     bind_outcome (http_is_dns reply) (\<lambda>is_dns.
     bind_outcome (if is_dns then bind_outcome (http_body reply) (\<lambda>body. Ok (2 \<le> length body)) else Ok False)
       (\<lambda>body_holds_txid.
     bind_outcome (body_txid request) (\<lambda>number.
     case number of
       Some i \<Rightarrow> if body_holds_txid then patch_body_txid reply i else Ok reply
     | None \<Rightarrow> Ok reply)))"

definition http_action :: "Http \<Rightarrow> u8 list \<Rightarrow> Action checked" where
  "http_action mode request =
     (case mode of
        Http_Reply reply \<Rightarrow> bind_outcome (reply_for reply request) (\<lambda>bytes. Ok (Write bytes))
      | Http_Drip reply \<Rightarrow> bind_outcome (reply_for reply request) (\<lambda>bytes. Ok (Trickle bytes DRIP))
      | Http_Trickle reply delay \<Rightarrow> bind_outcome (reply_for reply request) (\<lambda>bytes. Ok (Trickle bytes delay))
      | Http_Raw bytes \<Rightarrow> Ok (Write bytes)
      | Http_Silent \<Rightarrow> Ok Hold)"

text \<open>\<open>str::lines\<close>.\<close>

definition without_cr :: "string \<Rightarrow> string" where
  "without_cr s = (case strip_suffix_char CHR 0x0D s of Some rest \<Rightarrow> rest | None \<Rightarrow> s)"

definition str_lines :: "string \<Rightarrow> string list" where
  "str_lines s =
     (let pieces = split_char CHR 0x0A s in
      map without_cr (butlast pieces) @ (if last pieces = [] then [] else [last pieces]))"

definition request_content_length :: "u8 list \<Rightarrow> nat" where
  "request_content_length head =
     (case List.find (\<lambda>(name, _). trimmed_is name ''content-length'')
             (List.map_filter (split_once CHR '':'') (str_lines (lossy head))) of
        Some (_, val) \<Rightarrow> (case parse_usize (trim (chars val)) of Some n \<Rightarrow> n | None \<Rightarrow> 0)
      | None \<Rightarrow> 0)"

text \<open>Whether what has been read of a request is all of it.\<close>

definition http_complete :: "u8 list \<Rightarrow> bool" where
  "http_complete data =
     (case http_header_end data of
        None \<Rightarrow> False
      | Some end \<Rightarrow> end + request_content_length (take end data) \<le> length data)"

text \<open>Reading until what has arrived is a whole request, as both kinds of HTTP server do.\<close>

function read_until ::
  "(u8 list \<Rightarrow> bool) \<Rightarrow> u8 list \<Rightarrow> 'w net_scheme \<Rightarrow> (io_kind, u8 list) outcome \<times> 'w net_scheme" where
  "read_until complete data w =
     (if complete data then (Ok data, w)
      else
        (case socket_read IDLE 4096 w of
           (Ok read, w') \<Rightarrow>
             if read = [] then (Err K_UnexpectedEof, w') else read_until complete (data @ read) w'
         | (Err k, w') \<Rightarrow> (Err k, w')
         | (Panic, w') \<Rightarrow> (Panic, w')))"
  by pat_completeness auto
termination
  by (relation "measure (\<lambda>(complete, data, w). store w)") (auto dest!: socket_read_store [OF sym])

declare read_until.simps [simp del]

definition read_http_request :: "'w net_scheme \<Rightarrow> (io_kind, u8 list) outcome \<times> 'w net_scheme" where
  "read_http_request = read_until http_complete []"

definition serve_http_stream :: "Http \<Rightarrow> 'w server_scheme \<Rightarrow> unit checked \<times> 'w server_scheme" where
  "serve_http_stream mode = serve read_http_request (http_action mode) perform"


subsection \<open>HTTP/2\<close>

datatype Http2 = Http2_Reply "u8 list" | Http2_Raw "u8 list"

definition http2_reply :: "Http2 \<Rightarrow> u8 list \<Rightarrow> u8 list checked" where
  "http2_reply mode request =
     bind_outcome (h2_request_txid request) (\<lambda>number.
     case (mode, number) of
       (Http2_Reply reply, Some i) \<Rightarrow> h2_patch_body_txid reply i
     | (Http2_Reply bytes, None) \<Rightarrow> Ok bytes
     | (Http2_Raw bytes, _) \<Rightarrow> Ok bytes)"

definition h2_complete :: "u8 list \<Rightarrow> bool" where
  "h2_complete data = list_ex (\<lambda>f. h2_stream f = 1 \<and> h2_flags f AND H2_END_STREAM \<noteq> 0) (h2_frames data)"

definition read_h2_request :: "'w net_scheme \<Rightarrow> (io_kind, u8 list) outcome \<times> 'w net_scheme" where
  "read_h2_request = read_until h2_complete []"

definition serve_http2_stream :: "Http2 \<Rightarrow> 'w server_scheme \<Rightarrow> unit checked \<times> 'w server_scheme" where
  "serve_http2_stream mode =
     serve read_h2_request (http2_reply mode)
       (\<lambda>reply. and_then (idle_write_all reply) (\<lambda>_. hold))"


subsection \<open>TLS\<close>

text \<open>
  The servers over TLS (\<open>test-support/src/tls.rs\<close>). The handshake is the \<open>native_tls\<close> crate's: whether
  it is accepted is a parameter, and the stream afterwards is one like any other.
\<close>

datatype Tls = Tls_Dns Tcp | Tls_Http Http | Tls_Http2 Http2 | GarbageHandshake | SilentHandshake

definition tls_protocols :: "Tls \<Rightarrow> string list" where
  "tls_protocols mode = (case mode of Tls_Http2 _ \<Rightarrow> [''h2''] | _ \<Rightarrow> [])"

definition with_tls ::
  "('w server_scheme \<Rightarrow> unit checked \<times> 'w server_scheme) \<Rightarrow> bool \<Rightarrow> 'w server_scheme \<Rightarrow>
     unit checked \<times> 'w server_scheme" where
  "with_tls serve_stream accepted w = (if accepted then serve_stream w else (Ok (), w))"

fun handle_tls :: "Tls \<Rightarrow> bool \<Rightarrow> 'w server_scheme \<Rightarrow> unit checked \<times> 'w server_scheme" where
  "handle_tls GarbageHandshake accepted w =
     (Ok (), snd (idle_write_all (bytes_of (''this is not a TLS handshake'' @ crlf)) w))"
| "handle_tls SilentHandshake accepted w = (Ok (), snd (hold w))"
| "handle_tls (Tls_Dns tcp) accepted w = with_tls (serve_dns_stream tcp) accepted w"
| "handle_tls (Tls_Http http) accepted w = with_tls (serve_http_stream http) accepted w"
| "handle_tls (Tls_Http2 h2) accepted w = with_tls (serve_http2_stream h2) accepted w"

subsection \<open>What arrives is read, and what is written is sent\<close>

definition patient :: "(nat \<times> read_event) list \<Rightarrow> bool" where
  "patient evs \<longleftrightarrow> list_all (\<lambda>(d, _). d < IDLE) evs"

lemma patient_Cons [simp]: "patient ((d, ev) # evs) \<longleftrightarrow> d < IDLE \<and> patient evs"
  by (simp add: patient_def)

lemma IDLE_positive [simp]: "0 < IDLE"
  by (simp add: IDLE_def)

text \<open>What reading leaves of the server: all but the clock and the script.\<close>

definition leaves :: "'w net_scheme \<Rightarrow> 'w net_scheme \<Rightarrow> bool" where
  "leaves w w' \<longleftrightarrow> accepts w' = accepts w \<and> outgoing w' = outgoing w \<and> net.more w' = net.more w"

lemma idle_read_exact_steady:
  assumes "steady evs" and "patient evs" and "incoming w = evs @ later" and "n \<le> length (payload evs)"
  shows "\<exists>w' es. idle_read_exact n w = (Ok (take n (payload evs)), w') \<and> incoming w' = es @ later
    \<and> steady es \<and> patient es \<and> payload es = drop n (payload evs) \<and> leaves w w'"
  using assms
proof (induction n w arbitrary: evs rule: idle_read_exact.induct)
  case (1 n w)
  show ?case
  proof (cases "n = 0")
    case True
    with 1 show ?thesis by (auto simp: idle_read_exact.simps [of 0 w] leaves_def)
  next
    case False
    with "1.prems" obtain d ev es where evs: "evs = (d, ev) # es" by (cases evs) auto
    show ?thesis
    proof (cases ev)
      case (Read_Fails k)
      let ?v = "w\<lparr>clock := clock w + d, incoming := es @ later\<rparr>"
      have read: "socket_read IDLE n w = (Err K_Interrupted, ?v)"
        using "1.prems" evs Read_Fails by (simp add: socket_read_def)
      from "1.IH"(2) [OF False read [symmetric] refl refl, of es] "1.prems" evs Read_Fails
      show ?thesis by (simp add: idle_read_exact.simps [of n w] False read leaves_def)
    next
      case (Arrives bs)
      with "1.prems" evs have nonempty: "bs \<noteq> []" by simp
      let ?es = "if length bs \<le> n then es else (0, Arrives (drop n bs)) # es"
      let ?v = "w\<lparr>clock := clock w + d, incoming := ?es @ later\<rparr>"
      have read: "socket_read IDLE n w = (Ok (take n bs), ?v)"
        using "1.prems" evs Arrives by (simp add: socket_read_def)
      from nonempty False have some: "take n bs \<noteq> []" by simp
      have "\<exists>w' fs. idle_read_exact (n - length (take n bs)) ?v
          = (Ok (take (n - length (take n bs)) (payload ?es)), w') \<and> incoming w' = fs @ later
          \<and> steady fs \<and> patient fs \<and> payload fs = drop (n - length (take n bs)) (payload ?es) \<and> leaves ?v w'"
        by (rule "1.IH"(1) [OF False read [symmetric] refl some])
          (use "1.prems" evs Arrives in \<open>auto split: if_splits\<close>)
      then show ?thesis
        using some "1.prems" evs Arrives
        by (auto simp: idle_read_exact.simps [of n w] False read leaves_def split: if_splits)
    qed
  qed
qed

lemma idle_write_all_free:
  assumes "accepts w = []"
  shows "idle_write_all bs w = (Ok (), w\<lparr>outgoing := outgoing w @ bs\<rparr>)"
proof (cases "bs = []")
  case True
  then show ?thesis by (simp add: idle_write_all.simps)
next
  case False
  with assms show ?thesis
    by (simp add: idle_write_all.simps [of bs w] socket_write_def idle_write_all.simps [of "[]"])
qed

lemma trickle_free:
  "accepts w = [] \<Longrightarrow> trickle bs delay w =
     (Ok (), w\<lparr>clock := clock w + length bs * delay, outgoing := outgoing w @ bs\<rparr>)"
  by (induction bs arbitrary: w) (simp_all add: idle_write_all_free)

lemma read_until_steady:
  assumes "list_all (\<lambda>(d, ev). d < IDLE \<and> (\<exists>bs. ev = Arrives bs \<and> bs \<noteq> [])) evs" and "incoming w = evs @ later"
    and "data @ payload evs = bytes" and "complete bytes"
    and "\<And>k. k < length bytes \<Longrightarrow> \<not> complete (take k bytes)"
  shows "\<exists>w'. read_until complete data w = (Ok bytes, w') \<and> incoming w' = later \<and> leaves w w'"
  using assms
proof (induction complete data w arbitrary: evs rule: read_until.induct)
  case (1 complete data w)
  show ?case
  proof (cases evs)
    case Nil
    with "1.prems" show ?thesis by (auto simp: read_until.simps [of complete bytes w] leaves_def)
  next
    case (Cons e es)
    with "1.prems"(1) obtain d bs where e: "e = (d, Arrives bs)" "d < IDLE" "bs \<noteq> []"
      by (cases e) auto
    from "1.prems"(3) Cons e have part: "length data < length bytes" "data = take (length data) bytes"
      by auto
    with "1.prems"(5) have more: "\<not> complete data" by metis
    let ?es = "if length bs \<le> 4096 then es else (0, Arrives (drop 4096 bs)) # es"
    let ?v = "w\<lparr>clock := clock w + d, incoming := ?es @ later\<rparr>"
    have read: "socket_read IDLE 4096 w = (Ok (take 4096 bs), ?v)"
      using "1.prems"(2) Cons e by (simp add: socket_read_def)
    from e(3) have some: "take 4096 bs \<noteq> []" by simp
    have "\<exists>w'. read_until complete (data @ take 4096 bs) ?v = (Ok bytes, w') \<and> incoming w' = later \<and> leaves ?v w'"
      by (rule "1.IH" [OF more read [symmetric] refl some, of ?es])
        (use "1.prems" Cons e in \<open>auto split: if_splits\<close>)
    then show ?thesis
      using more some by (auto simp: read_until.simps [of complete data w] read leaves_def)
  qed
qed

subsection \<open>Dog and its nameservers over TCP\<close>

lemma request_to_bytes_txid:
  assumes "request_to_bytes r = Ok bs"
  shows "take 2 bs = be_bytes16 (req_transaction_id r)" and "12 \<le> length bs"
    and "request_txid bs = Ok (req_transaction_id r)"
proof -
  from assms obtain rest where bs: "bs = be_bytes16 (req_transaction_id r)
      @ be_bytes16 (flags_to_u16 (req_flags r))
      @ concat (map be_bytes16 [1, 0, 0, if req_additional r \<noteq> None then 1 else 0]) @ rest"
    by (auto simp: request_to_bytes_def Let_def bind_outcome_Ok_iff split: option.splits)
  then show "take 2 bs = be_bytes16 (req_transaction_id r)" and "12 \<le> length bs" by simp_all
  with bs show "request_txid bs = Ok (req_transaction_id r)"
    using be16_nth_be_bytes16 [of "req_transaction_id r"]
    by (simp add: request_txid_def txid_def get_u16_Ok_iff nth_append)
qed

lemma read_prefixed_query:
  assumes "steady evs" and "patient evs" and "incoming w = evs @ later"
    and "prefix_with_length query = Ok bytes" and "payload evs = bytes @ rest"
  shows "\<exists>w'. read_prefixed w = (Ok query, w') \<and> leaves w w'"
proof -
  let ?n = "word_of_nat (length query) :: u16"
  have small: "length query < 65536" and bytes: "bytes = be_bytes16 ?n @ query"
    using assms(4) by (auto simp: prefix_with_length_def split: if_splits)
  have p: "payload evs = be_bytes16 ?n @ query @ rest" using assms(5) bytes by simp
  obtain v es where len: "idle_read_exact 2 w = (Ok (take 2 (payload evs)), v)" "incoming v = es @ later"
    "steady es" "patient es" "payload es = drop 2 (payload evs)" "leaves w v"
    using idle_read_exact_steady [OF assms(1-3), of 2] p by auto
  have two: "take 2 (payload evs) = be_bytes16 ?n" "drop 2 (payload evs) = query @ rest"
    unfolding p by simp_all
  obtain w' where "idle_read_exact (length query) v = (Ok query, w')" "leaves v w'"
    using idle_read_exact_steady [OF len(3,4,2), of "length query"] len(5) two by auto
  with len(1,6) two small be16_nth_be_bytes16 [of ?n] show ?thesis
    by (auto simp: read_prefixed_def and_then_def leaves_def)
qed

text \<open>What a server does on a connection where a query comes in and everything is taken.\<close>

definition query_comes :: "u8 list \<Rightarrow> 'w net_scheme \<Rightarrow> bool" where
  "query_comes bytes w \<longleftrightarrow>
     (\<exists>evs later. incoming w = evs @ later \<and> steady evs \<and> patient evs \<and> payload evs = bytes)
     \<and> accepts w = [] \<and> outgoing w = []"

fun put_bytes :: "Action \<Rightarrow> u8 list" where
  "put_bytes (Write bytes) = bytes"
| "put_bytes (Trickle bytes delay) = bytes"
| "put_bytes Hold = []"

lemma received_leaves: "leaves w w' \<Longrightarrow> received w' = received (w :: 'w server_scheme)"
  by (cases w, cases w') (simp add: leaves_def)

lemma perform_written:
  assumes "accepts w = []" and "outgoing w = []" and "act \<noteq> Hold"
  shows "outgoing (snd (perform act w)) = put_bytes act"
    and "received (snd (perform act (w :: 'w server_scheme))) = received w"
  using assms by (cases act; simp add: idle_write_all_free trickle_free)+

lemma serve_writes:
  fixes w :: "'w server_scheme"
  assumes "read w = (Ok request, v)" and "leaves w v" and "accepts w = []" and "outgoing w = []"
    and "answer request = Ok act" and "act \<noteq> Hold"
  obtains w' where "serve read answer perform w = (Ok (), w')" "received w' = received w @ [request]"
    "outgoing w' = put_bytes act"
proof -
  let ?v = "record_request request v"
  have "accepts ?v = []" "outgoing ?v = []" "received ?v = received w @ [request]"
    using assms(2-4) received_leaves [OF assms(2)] by (simp_all add: record_request_def leaves_def)
  with perform_written [of ?v act] assms(1,5,6) that show ?thesis by (simp add: serve_def)
qed

lemma serve_dns_stream_serves:
  fixes w :: "'w server_scheme"
  assumes "query_comes bytes w" and "prefix_with_length query = Ok bytes"
    and "tcp_action mode query = Ok act" and "act \<noteq> Hold"
  obtains w' where "serve_dns_stream mode w = (Ok (), w')" "received w' = received w @ [query]"
    "outgoing w' = put_bytes act"
proof -
  from assms(1) obtain evs later where evs: "incoming w = evs @ later" "steady evs" "patient evs" "payload evs = bytes"
    and w: "accepts w = []" "outgoing w = []"
    by (auto simp: query_comes_def)
  obtain v where v: "read_prefixed w = (Ok query, v)" "leaves w v"
    using read_prefixed_query [OF evs(2,3,1) assms(2), of "[]"] evs(4) by auto
  from serve_writes [where read = read_prefixed and answer = "tcp_action mode", OF v w assms(3,4)] that
  show ?thesis unfolding serve_dns_stream_def by metis
qed

end
