(* ===== verification/Mock_Dns.thy ===== *)
theory Mock_Dns
  imports Test_Mock
begin

text \<open>
  Dog's client against the nameservers of its tests: what one writes, the other reads. Each theorem
  puts a model of \<open>dns-transport/src/\<close> at one end and a model of \<open>test-support/src/mock.rs\<close> at the
  other, with the bytes between them cut up in any way.
\<close>

subsection \<open>TCP\<close>

lemma prefixed_Ok: "prefix_with_length message = Ok bytes \<Longrightarrow> prefixed message = Ok bytes"
  by (simp add: prefix_with_length_def prefixed_def split: if_splits)

lemma numbered_reply:
  assumes "2 \<le> length reply" and "length reply < 65536"
  obtains bytes where "bind_outcome (with_txid reply i) prefixed = Ok bytes"
    and "prefix_with_length (be_bytes16 i @ drop 2 reply) = Ok bytes"
proof -
  have "length (be_bytes16 i @ drop 2 reply) < 65536" using assms by simp
  with assms(1) that show ?thesis by (simp add: with_txid_eq prefixed_def prefix_with_length_def)
qed

text \<open>The response that a server is to replay, of the servers that replay all of one.\<close>

fun replayed :: "Tcp \<Rightarrow> u8 list option" where
  "replayed (Tcp_Replay reply) = Some reply"
| "replayed (Tcp_Drip reply) = Some reply"
| "replayed (Tcp_Trickle reply delay) = Some reply"
| "replayed (Tcp_TrailingBytes reply) = Some reply"
| "replayed _ = None"

lemma tcp_action_replays:
  assumes "replayed mode = Some reply" and "2 \<le> length reply" and "length reply < 65536"
    and "request_txid query = Ok i"
  obtains act bytes rest where "tcp_action mode query = Ok act" and "act \<noteq> Hold"
    and "prefix_with_length (be_bytes16 i @ drop 2 reply) = Ok bytes" and "put_bytes act = bytes @ rest"
proof -
  obtain bytes where "bind_outcome (with_txid reply i) prefixed = Ok bytes"
    and bytes: "prefix_with_length (be_bytes16 i @ drop 2 reply) = Ok bytes"
    using numbered_reply [OF assms(2,3)] .
  then have "\<exists>act rest. tcp_action mode query = Ok act \<and> act \<noteq> Hold \<and> put_bytes act = bytes @ rest"
    using assms(1,4) by (cases mode) (auto simp: tcp_action_def)
  with bytes that show ?thesis by blast
qed

text \<open>
  C27: Dog and the nameservers of its tests understand each other over TCP. A server that is given a
  response to replay, however it cuts it up and whatever it writes after it, receives exactly the
  query that dog sends, and dog returns the response it replays, with the query's transaction ID in
  it, if that answers the query and arrives in time, cut up and interrupted in any way.
\<close>

theorem tcp_mock_answers:
  fixes w :: "'w world_scheme" and s :: "'s server_scheme"
  assumes "parse_host_port addr 53 = Ok (host, port)" and "parse_ip host = Some ip"
    and "request_to_bytes request = Ok query" and "prefix_with_length query = Ok asked"
    and "replayed mode = Some reply" and "2 \<le> length reply" and "length reply < 65536"
    and "query_comes asked s"
    and "connects w = (d, Connects None (evs @ later) []) # others" and "steady evs"
    and "payload evs = outgoing (snd (serve_dns_stream mode s))" and "d + delays evs < timeout"
    and "response_from_bytes (be_bytes16 (req_transaction_id request) @ drop 2 reply) = Ok response"
    and "answers_request request response"
  shows "(\<exists>w'. tcp_send addr timeout request w = (Ok response, w') \<and> outgoing w' = asked)
    \<and> received (snd (serve_dns_stream mode s)) = received s @ [query]"
proof -
  from tcp_action_replays [OF assms(5,6,7) request_to_bytes_txid(3) [OF assms(3)]]
  obtain act bytes rest where act: "tcp_action mode query = Ok act" "act \<noteq> Hold"
    and bytes: "prefix_with_length (be_bytes16 (req_transaction_id request) @ drop 2 reply) = Ok bytes"
    and wrote: "put_bytes act = bytes @ rest" by blast
  from serve_dns_stream_serves [OF assms(8,4) act] obtain s' where
    s': "serve_dns_stream mode s = (Ok (), s')" "received s' = received s @ [query]" "outgoing s' = bytes @ rest"
    using wrote by metis
  from assms(4) have "length query < 65536" "asked = be_bytes16 (word_of_nat (length query)) @ query"
    by (auto simp: prefix_with_length_def split: if_splits)
  with tcp_send_succeeds [OF assms(1-3) _ assms(9) bytes assms(10) _ assms(12-14), of rest] s' assms(11)
  show ?thesis by auto
qed

lemma query_7_bytes:
  "request_to_bytes query_7 = Ok [0, 7, 1, 0, 0, 1, 0, 0, 0, 0, 0, 0, 0, 0, 2, 0, 1]"
proof -
  have "flags_to_u16 flags_query = 0x100"
    by (simp add: flags_query_def flags_to_from_u16 header_flag_mask_def)
  then show ?thesis
    by (simp add: request_to_bytes_def write_labels_def root_def Let_def be_bytes16_def)
qed

lemma query_comes_at_once:
  assumes "d < IDLE" and "bs \<noteq> []" and "incoming w = [(d, Arrives bs)]" and "accepts w = []" and "outgoing w = []"
  shows "query_comes bs w"
proof -
  have "incoming w = [(d, Arrives bs)] @ []" "steady [(d, Arrives bs)]" "patient [(d, Arrives bs)]"
    "payload [(d, Arrives bs)] = bs"
    using assms by (simp_all add: patient_def)
  with assms(4,5) show ?thesis unfolding query_comes_def by blast
qed

text \<open>For the examples: the query as it is sent, a server that it comes to, and a client of it.\<close>

abbreviation query_7_sent :: "u8 list" where
  "query_7_sent \<equiv> [0, 7, 1, 0, 0, 1, 0, 0, 0, 0, 0, 0, 0, 0, 2, 0, 1]"

abbreviation server_7 :: server where
  "server_7 \<equiv> \<lparr>clock = 0, incoming = [(1, Arrives (0 # 17 # query_7_sent))], accepts = [], outgoing = [], received = []\<rparr>"

abbreviation client_7 :: "(nat \<times> read_event) list \<Rightarrow> world" where
  "client_7 evs \<equiv> \<lparr>clock = 100, incoming = [], accepts = [], outgoing = [], lookups = [],
     connects = [(1, Connects None evs [])], opens = [], datagrams = [], send_fails = None, nodelay_fails = None,
     dialled = []\<rparr>"

lemma server_7_asked:
  "query_comes (0 # 17 # query_7_sent) server_7"
  "prefix_with_length query_7_sent = Ok (0 # 17 # query_7_sent)"
  by (rule query_comes_at_once [of 1]) (simp_all add: IDLE_def prefix_with_length_def be_bytes16_def)

lemma server_7_writes:
  assumes "tcp_action mode query_7_sent = Ok (Write bytes)"
  shows "outgoing (snd (serve_dns_stream mode server_7)) = bytes"
  using serve_dns_stream_serves [OF server_7_asked assms] by (metis Action.distinct(3) snd_conv put_bytes.simps(1))

lemma tcp_mock_answers_witness:
  "\<exists>response w'. tcp_send ''1.1.1.1'' 10 query_7
      (client_7 [(2, Arrives (outgoing (snd (serve_dns_stream
         (Tcp_TrailingBytes [0xAA, 0xAA, 0x80, 5, 0, 0, 0, 0, 0, 0, 0, 0]) server_7))))])
    = (Ok response, w') \<and> outgoing w' = 0 # 17 # query_7_sent"
proof -
  let ?mode = "Tcp_TrailingBytes [0xAA, 0xAA, 0x80, 5, 0, 0, 0, 0, 0, 0, 0, 0]"
  let ?es = "[(2, Arrives (outgoing (snd (serve_dns_stream ?mode server_7))))]"
  have "tcp_action ?mode query_7_sent = Ok (Write (0 # 12 # refusal_7 @ bytes_of ''trailing''))"
    by (simp add: tcp_action_def request_txid_def txid_def get_u16_def be16_def with_txid_eq prefixed_def
        be_bytes16_def)
  from server_7_writes [OF this] have some: "outgoing (snd (serve_dns_stream ?mode server_7)) \<noteq> []" by simp
  obtain response where response: "response_from_bytes refusal_7 = Ok response" "answers_request query_7 response"
    using refusal_answers .
  have "(\<exists>w'. tcp_send ''1.1.1.1'' 10 query_7 (client_7 ?es) = (Ok response, w') \<and> outgoing w' = 0 # 17 # query_7_sent)
    \<and> received (snd (serve_dns_stream ?mode server_7)) = received server_7 @ [query_7_sent]"
    by (rule tcp_mock_answers [where w = "client_7 ?es" and d = 1 and evs = ?es and later = "[]" and others = "[]",
          OF parse_ip_host_port [OF parse_ip_1111] parse_ip_1111 query_7_bytes server_7_asked(2) replayed.simps(4) _ _
             server_7_asked(1)])
      (use some response in \<open>simp_all add: be_bytes16_def\<close>)
  then show ?thesis by blast
qed

text \<open>The servers that close a connection before the whole of a response.\<close>

fun cut_short :: "Tcp \<Rightarrow> bool" where
  "cut_short (Tcp_PrefixOnlyThenClose reply) = (reply \<noteq> [] \<and> length reply < 65536)"
| "cut_short (Tcp_HalfBodyThenClose reply) = (2 \<le> length reply \<and> length reply < 65536)"
| "cut_short Tcp_OneByteThenClose = True"
| "cut_short Tcp_CloseImmediately = True"
| "cut_short _ = False"

lemma prefixed_two: "prefix_with_length [0] = Ok [0, 1, 0]"
  by (simp add: prefix_with_length_def be_bytes16_def)

lemma tcp_action_cut_short:
  assumes "cut_short mode" and "mode \<noteq> Tcp_CloseImmediately" and "request_txid query = Ok i"
  obtains bytes message k where "tcp_action mode query = Ok (Write (take k bytes))"
    and "prefix_with_length message = Ok bytes" and "k < length bytes"
proof (cases mode)
  case (Tcp_PrefixOnlyThenClose reply)
  with assms have n: "length reply < 65536" "reply \<noteq> []" by simp_all
  let ?bytes = "be_bytes16 (word_of_nat (length reply)) @ reply"
  from n have "prefixed reply = Ok ?bytes" "prefix_with_length reply = Ok ?bytes"
    by (simp_all add: prefixed_def prefix_with_length_def)
  moreover have "2 < length ?bytes" using n by (cases reply) simp_all
  ultimately show ?thesis
    using that [of 2 ?bytes reply] assms(3) Tcp_PrefixOnlyThenClose by (simp add: tcp_action_def truncate_to_def)
next
  case (Tcp_HalfBodyThenClose reply)
  with assms have n: "2 \<le> length reply" "length reply < 65536" by simp_all
  obtain bytes where b: "bind_outcome (with_txid reply i) prefixed = Ok bytes"
    "prefix_with_length (be_bytes16 i @ drop 2 reply) = Ok bytes"
    using numbered_reply [OF n] .
  from b(2) n have len: "length bytes = 2 + length reply"
    by (auto simp: prefix_with_length_def split: if_splits)
  then have "half_body bytes = Ok (take (2 + length reply div 2) bytes)" "2 + length reply div 2 < length bytes"
    using n by (simp_all add: half_body_def truncate_to_def)
  then show ?thesis
    using that [of "2 + length reply div 2" bytes] b assms(3) Tcp_HalfBodyThenClose by (simp add: tcp_action_def)
next
  case Tcp_OneByteThenClose
  then show ?thesis
    using that [of 1 "[0, 1, 0]" "[0]"] assms(3) prefixed_two by (simp add: tcp_action_def)
qed (use assms in auto)
lemma tcp_send_cut_short:
  fixes w :: "'w world_scheme"
  assumes "parse_host_port addr 53 = Ok (host, port)" and "parse_ip host = Some ip"
    and "request_to_bytes request = Ok query" and "length query < 65536"
    and "connects w = (d, Connects None (evs @ (d', Arrives []) # later) []) # others"
    and "prefix_with_length message = Ok bytes" and "steady evs" and "payload evs = take k bytes" and "k < length bytes"
    and "d + delays evs + d' < timeout"
  shows "fst (tcp_send addr timeout request w) = Err E_TruncatedResponse"
proof -
  let ?dl = "deadline_after (clock w) timeout"
  have early: "d < timeout" using assms(10) by simp
  from tcp_send_connected [OF assms(1-5) early] obtain u where
    u: "tcp_send addr timeout request w = and_then (length_prefixed_read ?dl)
        (\<lambda>read_bytes. just (checked_response request read_bytes)) u"
      "clock u = clock w + d" "incoming u = evs @ (d', Arrives []) # later"
    by blast
  have "clock u + delays evs + d' < dl_at ?dl" using u(2) assms(10) by (simp add: deadline_after_def)
  with tcp_message_cut_short [OF assms(6-9) u(3)] obtain w' where
    "length_prefixed_read ?dl u = (Err E_TruncatedResponse, w')" by blast
  with u(1) show ?thesis by (simp add: and_then_def)
qed

lemma response_txid:
  assumes "response_from_bytes bytes = Ok response"
  shows "resp_transaction_id response = header_field bytes 0"
proof -
  from assms obtain r where "read_response bytes 0 = Ok (response, r)"
    by (auto simp: response_from_bytes_def bind_outcome_Ok_iff)
  then show ?thesis
    unfolding read_response_def Let_def ret_def
    by (auto simp: bind_Ok_iff read_u16_Ok_iff get_u16_Ok_iff header_field_def split: prod.splits)
qed

lemma wrong_txid_refused:
  assumes "response_from_bytes (be_bytes16 (i + 1) @ rest) = Ok response" and "req_transaction_id request = i"
  shows "checked_response request (be_bytes16 (i + 1) @ rest)
    = Err (E_MismatchedResponse (Mismatch_TransactionId i (i + 1)))"
proof -
  have "resp_transaction_id response = i + 1"
    using assms(1) be16_nth_be_bytes16 [of "i + 1"] by (simp add: response_txid header_field_def nth_append)
  with assms show ?thesis by (simp add: checked_response_def check_response_def)
qed

lemma cut_short_payload:
  fixes s :: "'s server_scheme"
  assumes "cut_short mode" and "request_to_bytes request = Ok query" and "prefix_with_length query = Ok asked"
    and "query_comes asked s" and "out = outgoing (snd (handle_tcp mode s))"
  obtains message bytes k where "prefix_with_length message = Ok bytes" and "out = take k bytes" and "k < length bytes"
proof (cases "mode = Tcp_CloseImmediately")
  case True
  with assms(4,5) have "out = take 0 [0, 1, 0]" by (simp add: handle_tcp_def query_comes_def)
  with prefixed_two that show ?thesis by fastforce
next
  case False
  obtain bytes message k where act: "tcp_action mode query = Ok (Write (take k bytes))"
    and message: "prefix_with_length message = Ok bytes" "k < length bytes"
    using tcp_action_cut_short [OF assms(1) False request_to_bytes_txid(3) [OF assms(2)]] .
  obtain s' where "serve_dns_stream mode s = (Ok (), s')" "outgoing s' = take k bytes"
    using serve_dns_stream_serves [OF assms(4,3) act Action.distinct(3)] by (metis put_bytes.simps(1))
  with assms(5) False have "out = take k bytes" by (simp add: handle_tcp_def)
  with message that show ?thesis by blast
qed

text \<open>
  C28: Dog refuses what the bad nameservers of its tests send over TCP, and says why: a connection
  closed before the whole of a response is a truncated response, wherever it is cut; a response of
  no bytes is one that ends too soon; and a response to another query is one whose transaction ID
  does not match. So it is however what they write is cut up and interrupted, in time.
\<close>

theorem tcp_mock_refused:
  fixes w :: "'w world_scheme" and s :: "'s server_scheme"
  assumes "parse_host_port addr 53 = Ok (host, port)" and "parse_ip host = Some ip"
    and "request_to_bytes request = Ok query" and "prefix_with_length query = Ok asked" and "query_comes asked s"
    and "connects w = (d, Connects None (evs @ (d', Arrives []) # later) []) # others" and "steady evs"
    and "payload evs = outgoing (snd (handle_tcp mode s))" and "d + delays evs + d' < timeout"
    and "cut_short mode \<and> expected = E_TruncatedResponse
      \<or> mode = Tcp_ZeroLength \<and> expected = E_WireError IO
      \<or> (\<exists>reply i response. mode = Tcp_WrongTxid reply \<and> 2 \<le> length reply \<and> length reply < 65536
          \<and> i = req_transaction_id request \<and> response_from_bytes (be_bytes16 (i + 1) @ drop 2 reply) = Ok response
          \<and> expected = E_MismatchedResponse (Mismatch_TransactionId i (i + 1)))"
  shows "fst (tcp_send addr timeout request w) = Err expected"
proof -
  let ?i = "req_transaction_id request"
  have i: "request_txid query = Ok ?i" by (rule request_to_bytes_txid(3) [OF assms(3)])
  have small: "length query < 65536" using assms(4) by (simp add: prefix_with_length_def split: if_splits)
  have wrote: "payload evs = bytes" if "tcp_action mode query = Ok (Write bytes)" "mode \<noteq> Tcp_CloseImmediately" for bytes
    using serve_dns_stream_serves [OF assms(5,4) that(1)] assms(8) that(2)
    by (metis Action.distinct(3) handle_tcp_def snd_conv put_bytes.simps(1))
  have answered: "fst (tcp_send addr timeout request w) = checked_response request message"
    if "tcp_action mode query = Ok (Write bytes)" "mode \<noteq> Tcp_CloseImmediately" "prefix_with_length message = Ok bytes"
    for bytes message
    using tcp_send_checked [OF assms(1-3) small assms(6) that(3) assms(7), of "[]" timeout] wrote [OF that(1,2)] assms(9)
    by auto
  from assms(10) show ?thesis
  proof (elim disjE)
    assume cut: "cut_short mode \<and> expected = E_TruncatedResponse"
    obtain message bytes k where "prefix_with_length message = Ok bytes" "payload evs = take k bytes" "k < length bytes"
      using cut_short_payload [OF conjunct1 [OF cut] assms(3-5,8)] .
    with tcp_send_cut_short [OF assms(1-3) small assms(6) _ assms(7) _ _ assms(9)] cut show ?thesis by blast
  next
    assume zero: "mode = Tcp_ZeroLength \<and> expected = E_WireError IO"
    with i have "tcp_action mode query = Ok (Write [0, 0])" by (simp add: tcp_action_def)
    from answered [OF this, of "[]"] zero show ?thesis
      by (simp add: prefix_with_length_def be_bytes16_def checked_response_def response_from_bytes_def
          read_response_def bind_def read_u16_def read_exact_def)
  next
    assume "\<exists>reply i response. mode = Tcp_WrongTxid reply \<and> 2 \<le> length reply \<and> length reply < 65536
          \<and> i = ?i \<and> response_from_bytes (be_bytes16 (i + 1) @ drop 2 reply) = Ok response
          \<and> expected = E_MismatchedResponse (Mismatch_TransactionId i (i + 1))"
    then obtain reply response where wrong: "mode = Tcp_WrongTxid reply" "2 \<le> length reply" "length reply < 65536"
      "response_from_bytes (be_bytes16 (?i + 1) @ drop 2 reply) = Ok response"
      "expected = E_MismatchedResponse (Mismatch_TransactionId ?i (?i + 1))"
      by blast
    obtain bytes where b: "bind_outcome (with_txid reply (?i + 1)) prefixed = Ok bytes"
      "prefix_with_length (be_bytes16 (?i + 1) @ drop 2 reply) = Ok bytes"
      using numbered_reply [OF wrong(2,3)] .
    then have "tcp_action mode query = Ok (Write bytes)" using wrong(1) i by (simp add: tcp_action_def)
    from answered [OF this _ b(2)] wrong_txid_refused [OF wrong(4)] wrong(1,5) show ?thesis by simp
  qed
qed

lemma tcp_mock_refused_witness:
  "fst (tcp_send ''1.1.1.1'' 10 query_7
      (client_7 [(2, Arrives (outgoing (snd (handle_tcp (Tcp_HalfBodyThenClose refusal_7) server_7)))), (1, Arrives [])]))
    = Err E_TruncatedResponse"
proof -
  let ?mode = "Tcp_HalfBodyThenClose refusal_7"
  let ?es = "[(2, Arrives (outgoing (snd (handle_tcp ?mode server_7))))]"
  have "tcp_action ?mode query_7_sent = Ok (Write (0 # 12 # take 6 refusal_7))"
    by (simp add: tcp_action_def request_txid_def txid_def get_u16_def be16_def with_txid_eq prefixed_def
        be_bytes16_def half_body_def truncate_to_def)
  from server_7_writes [OF this] have some: "outgoing (snd (handle_tcp ?mode server_7)) \<noteq> []"
    by (simp add: handle_tcp_def)
  have cut: "cut_short ?mode" by simp
  show ?thesis
    by (rule tcp_mock_refused [where d = 1 and evs = ?es and d' = 1 and later = "[]" and others = "[]",
          OF parse_ip_host_port [OF parse_ip_1111] parse_ip_1111 query_7_bytes server_7_asked(2,1)
             _ _ _ _ disjI1 [OF conjI [OF cut refl]]])
      (use some in simp_all)
qed

subsection \<open>UDP\<close>

lemma udp_send_receives:
  fixes w :: "'w world_scheme"
  assumes "parse_host_port addr 53 = Ok (host, port)" and "parse_ip host = Some ip"
    and "request_to_bytes request = Ok query" and "opens w = Opens None evs # others" and "0 < timeout"
  shows "fst (udp_send addr timeout request w) = fst (receive request (deadline_after (clock w) timeout) evs (clock w))"
  using assms
  by (simp add: udp_send_def Let_def nameserver_def and_then_def just_def connect_udp_def addresses_def open_udp_def
      request_bytes_def socket_send_def udp_receive_def deadline_left_def io_left_def deadline_after_def
      case_prod_unfold)

text \<open>Datagrams that arrive one by one, whatever the waits and interruptions between them.\<close>

definition arriving :: "u8 list list \<Rightarrow> (nat \<times> datagram_event) list \<Rightarrow> bool" where
  "arriving ds evs \<longleftrightarrow> filter (\<lambda>ev. ev \<noteq> Recv_Fails K_Interrupted) (map snd evs) = map Datagram ds"

lemma filter_eq_append:
  "filter P xs = us @ vs \<Longrightarrow> \<exists>ys zs. xs = ys @ zs \<and> filter P ys = us \<and> filter P zs = vs"
proof (induction us arbitrary: xs)
  case Nil
  then have "xs = [] @ xs \<and> filter P [] = [] \<and> filter P xs = vs" by simp
  then show ?case by blast
next
  case (Cons u us)
  then obtain as bs where xs: "xs = as @ u # bs" "\<forall>a \<in> set as. \<not> P a" "P u" "filter P bs = us @ vs"
    by (auto simp: filter_eq_Cons_iff)
  from Cons.IH [OF this(4)] obtain ys zs where "bs = ys @ zs" "filter P ys = us" "filter P zs = vs" by blast
  with xs show ?case by (intro exI [of _ "as @ u # ys"] exI [of _ zs]) simp
qed

lemma arriving_last:
  "arriving (ds @ [b]) evs \<Longrightarrow> \<exists>before d after. evs = before @ (d, Datagram b) # after \<and> arriving ds before"
proof -
  let ?P = "\<lambda>ev. ev \<noteq> Recv_Fails K_Interrupted"
  assume "arriving (ds @ [b]) evs"
  then obtain l r where lr: "map snd evs = l @ r" "filter ?P l = map Datagram ds" "filter ?P r = [Datagram b]"
    using filter_eq_append [of ?P "map snd evs" "map Datagram ds" "[Datagram b]"] by (auto simp: arriving_def)
  then obtain us vs where "r = us @ Datagram b # vs" "\<forall>ev \<in> set us. \<not> ?P ev"
    by (auto simp: filter_eq_Cons_iff)
  with lr have "map snd evs = (l @ us) @ Datagram b # vs" "filter ?P (l @ us) = map Datagram ds"
    by (simp_all add: filter_empty_conv)
  then obtain m where m: "map snd evs = m @ Datagram b # vs" "filter ?P m = map Datagram ds" by blast
  then obtain before rest where "evs = before @ rest" "map snd before = m" "map snd rest = Datagram b # vs"
    by (auto simp: map_eq_append_conv)
  then obtain e after where "evs = before @ e # after" "map snd before = m" "snd e = Datagram b"
    by (cases rest) auto
  then have "evs = before @ (fst e, Datagram b) # after \<and> arriving ds before"
    using m(2) by (cases e) (simp add: arriving_def)
  then show ?thesis by blast
qed

lemma arriving_stray:
  assumes "arriving ds evs" and "\<forall>b \<in> set ds. stray request (Datagram b)"
  shows "\<forall>(d, ev) \<in> set evs. stray request ev"
proof safe
  fix d ev assume "(d, ev) \<in> set evs"
  then have "ev \<in> set (map snd evs)" by force
  then have "ev = Recv_Fails K_Interrupted \<or> ev \<in> set (map Datagram ds)"
    by (simp flip: assms(1) [unfolded arriving_def])
  then show "stray request ev" using assms(2) by (auto simp: stray_def)
qed

lemma udp_send_finds:
  fixes w :: "'w world_scheme"
  assumes "parse_host_port addr 53 = Ok (host, port)" and "parse_ip host = Some ip"
    and "request_to_bytes request = Ok query" and "opens w = Opens None evs # others"
    and "arriving (ds @ [b]) evs" and "delays evs < timeout" and "\<forall>b \<in> set ds. stray request (Datagram b)"
    and "checked_response request (take 65535 b) = Ok response"
  shows "fst (udp_send addr timeout request w) = Ok response"
proof -
  obtain before d after where evs: "evs = before @ (d, Datagram b) # after" "arriving ds before"
    using arriving_last [OF assms(5)] by blast
  have "delays (before @ (d, Datagram b) # after) = delays before + d + delays after"
    by (simp add: delays_def)
  then have "clock w + delays before + d < dl_at (deadline_after (clock w) timeout)"
    using assms(6) evs(1) by (simp add: deadline_after_def)
  with receive_finds [OF arriving_stray [OF evs(2) assms(7)], of b response "clock w" d _ after]
    udp_send_receives [OF assms(1-4), of timeout] assms(6,8)
  show ?thesis by (simp add: evs(1) checked_response_Ok)
qed
text \<open>The response that a server is to replay, of the servers that send the right one in the end.\<close>

fun udp_replayed :: "Udp \<Rightarrow> u8 list option" where
  "udp_replayed (Udp_Replay reply) = Some reply"
| "udp_replayed (Udp_After delay reply) = Some reply"
| "udp_replayed (Udp_WrongTxidThen reply) = Some reply"
| "udp_replayed (Udp_RawWithTxid reply) = Some reply"
| "udp_replayed _ = None"

lemma udp_replies_last:
  assumes "udp_replayed mode = Some reply" and "2 \<le> length reply" and "request_txid query = Ok i"
  obtains wrong where "udp_replies mode query = Ok (wrong @ [be_bytes16 i @ drop 2 reply])"
    and "\<forall>b \<in> set wrong. b = be_bytes16 (i + 1) @ drop 2 reply"
proof (cases mode)
  case (Udp_WrongTxidThen r)
  with assms that [of "[be_bytes16 (i + 1) @ drop 2 reply]"] show ?thesis
    by (simp add: udp_replies_def with_txid_eq)
qed (use assms that [of "[]"] in \<open>simp_all add: udp_replies_def with_txid_eq overwrite_txid_def\<close>)

lemma not_panic: "length bytes \<le> max_safe_message \<Longrightarrow> response_from_bytes bytes \<noteq> Panic"
  using wp_no_panic [OF wp_read_response] by (auto simp: response_from_bytes_def bind_outcome_Panic_iff)

lemma be_bytes16_inject [simp]: "be_bytes16 a = be_bytes16 b \<longleftrightarrow> a = b"
  using be16_nth_be_bytes16 [of a] be16_nth_be_bytes16 [of b] by metis

lemma wrong_txid_stray:
  assumes "length (be_bytes16 (i + 1) @ rest) \<le> max_safe_message" and "req_transaction_id request = i"
  shows "stray request (Datagram (be_bytes16 (i + 1) @ rest))"
proof -
  have len: "length rest \<le> 65533" using assms(1) by (simp add: max_safe_message_def)
  have "resp_transaction_id response = i + 1" if "response_from_bytes (be_bytes16 (i + 1) @ rest) = Ok response" for response
    using response_txid [OF that] be16_nth_be_bytes16 [of "i + 1"] by (simp add: header_field_def nth_append)
  then show ?thesis
    using not_panic [OF assms(1)] len assms(2)
    by (auto simp: stray_def answers_request_def carries_txid_def split: outcome.split)
qed

lemma udp_loop_one:
  assumes "udp_replies mode query = Ok ds" and "delay < IDLE" and "length query < 65536"
  obtains t where "udp_loop mode [(delay, Datagram query)] now [] [] = (Ok (), [query], map (Pair t) ds)"
  using assms
  by (intro that [of "case mode of Udp_After pause _ \<Rightarrow> now + delay + pause | _ \<Rightarrow> now + delay"]) (simp add: Let_def)



lemma message_question_end:
  assumes "valid_query q" and "length (message_bytes i bits [query_bytes q] as us xs) < 65536"
  shows "question_end (message_bytes i bits [query_bytes q] as us xs) = Ok (12 + length (query_bytes q))"
proof -
  let ?m = "message_bytes i bits [query_bytes q] as us xs"
  let ?head = "take 12 ?m"
  let ?rest = "be_bytes16 (type_number (query_qtype q)) @ be_bytes16 (qclass_to_u16 (query_qclass q))
    @ concat as @ concat us @ concat xs"
  have head: "length ?head = 12" by (simp add: message_bytes_def)
  have split: "?m = ?head @ (concat (map label_bytes (segments (query_qname q))) @ [0]) @ ?rest"
    by (simp add: message_bytes_def query_bytes_def name_bytes_def)
  have "name_at ?m 12 [] (segments (query_qname q)) (length (name_bytes (query_qname q)))"
    using name_at_label_bytes [of "segments (query_qname q)" ?head ?rest] assms(1) head
    unfolding split [symmetric] by (simp add: valid_query_def readable_name_def name_bytes_def)
  from skip_name_at [OF this] have "skip_name ?m 12 = Ok (12 + length (name_bytes (query_qname q)))" .
  moreover have "counts ?m = Ok (1, word_of_nat (length as), word_of_nat (length us), word_of_nat (length xs))"
  proof -
    let ?a = "be_bytes16 i @ be_bytes16 bits"
    let ?b = "?a @ be_bytes16 1"
    let ?c = "?b @ be_bytes16 (word_of_nat (length as))"
    let ?d = "?c @ be_bytes16 (word_of_nat (length us))"
    have "get_u16 ?m 4 = Ok 1" "get_u16 ?m 6 = Ok (word_of_nat (length as))"
      "get_u16 ?m 8 = Ok (word_of_nat (length us))" "get_u16 ?m 10 = Ok (word_of_nat (length xs))"
      using get_u16_at [of ?a 4 1] get_u16_at [of ?b 6 "word_of_nat (length as)"]
        get_u16_at [of ?c 8 "word_of_nat (length us)"] get_u16_at [of ?d 10 "word_of_nat (length xs)"]
      by (simp_all add: message_bytes_def)
    then show ?thesis by (simp add: counts_def)
  qed
  ultimately show ?thesis by (simp add: question_end_def HEADER_LEN_def query_bytes_def)
qed

lemma echo_message:
  assumes "valid_query q" and "length (message_bytes i bits [query_bytes q] as us xs) < 65536"
    and "valid_query q'" and "length (message_bytes i' bits' [query_bytes q'] as' us' xs') < 65536"
  shows "echo (message_bytes i bits [query_bytes q] as us xs) (message_bytes i' bits' [query_bytes q'] as' us' xs')
    = Ok (message_bytes i' bits [query_bytes q'] as us xs)"
  using message_question_end [OF assms(1,2)] message_question_end [OF assms(3,4)]
  by (simp add: echo_def truncate_to_def HEADER_LEN_def request_txid_def txid_def get_u16_def with_txid_eq)
     (simp add: message_bytes_def be16_nth_be_bytes16 [simplified] nth_append)
text \<open>
  C30: A nameserver of the tests that echoes answers whatever dog asks: given a response of records
  without compression, to any question, it puts dog's own question and transaction ID in it, and dog
  accepts what it gets and has those records of it, section by section.
\<close>

theorem udp_echo_answers:
  fixes w :: "'w world_scheme"
  assumes "parse_host_port addr 53 = Ok (host, port)" and "parse_ip host = Some ip"
    and "valid_request request" and "length (request_message request) < 65536" and "delay < IDLE"
    and "valid_query q" and "list_all2 answer_bytes as abss" and "list_all2 answer_bytes us ubs"
    and "list_all2 answer_bytes xs xbs" and "length as < 65536" "length us < 65536" "length xs < 65536"
    and "bit bits 15" and "length (message_bytes i bits [query_bytes q] abss ubs xbs) < 65536"
    and "length (message_bytes i bits [query_bytes (req_query request)] abss ubs xbs) < 65536"
    and "opens w = Opens None evs # others" and "delays evs < timeout"
    and "arriving (map snd (snd (snd (udp_loop (Udp_Echo (message_bytes i bits [query_bytes q] abss ubs xbs))
           [(delay, Datagram (request_message request))] now [] [])))) evs"
  shows "\<exists>response. fst (udp_send addr timeout request w) = Ok response
    \<and> resp_queries response = [req_query request] \<and> resp_answers response = as
    \<and> resp_authorities response = us \<and> resp_additionals response = xs"
proof -
  let ?mode = "Udp_Echo (message_bytes i bits [query_bytes q] abss ubs xbs)"
  let ?i = "req_transaction_id request"
  let ?echoed = "message_bytes ?i bits [query_bytes (req_query request)] abss ubs xbs"
  let ?response = "\<lparr>resp_transaction_id = ?i,
      resp_flags = (flags_from_u16 bits)\<lparr>flag_error_code := error_code_from_bits (word_of_nat (full_rcode bits xs))\<rparr>,
      resp_queries = [req_query request], resp_answers = as, resp_authorities = us, resp_additionals = xs\<rparr>"
  have query: "request_to_bytes request = Ok (request_message request)"
    by (rule request_to_bytes_message [OF assms(3)])
  have valid: "valid_query (req_query request)" using assms(3) by (simp add: valid_request_def)
  have "echo (message_bytes i bits [query_bytes q] abss ubs xbs) (request_message request) = Ok ?echoed"
    using echo_message [OF assms(6,14) valid assms(4) [unfolded request_message_def]] by (simp add: request_message_def)
  then have "udp_replies ?mode (request_message request) = Ok [?echoed]"
    using request_to_bytes_txid(3) [OF query] by (simp add: udp_replies_def)
  from udp_loop_one [OF this assms(5,4)] obtain t where
    "udp_loop ?mode [(delay, Datagram (request_message request))] now [] []
      = (Ok (), [request_message request], map (Pair t) [?echoed])" .
  with assms(18) have arrive: "arriving ([] @ [?echoed]) evs" by simp
  have parse: "response_from_bytes ?echoed = Ok ?response"
    using message_parses [of "[req_query request]" as abss us ubs xs xbs ?i bits] valid assms(7-12,15)
    by (simp add: message_bytes_def)
  have "flag_response (flags_from_u16 bits)" using assms(13) by (simp add: flags_from_u16_def)
  then have "answers_request request ?response" by (simp add: answers_request_def)
  moreover have "length ?echoed < 65536" using assms(15) by (simp add: message_bytes_def)
  then have "take 65535 ?echoed = ?echoed" by simp
  ultimately have "checked_response request (take 65535 ?echoed) = Ok ?response"
    using parse by (simp add: checked_response_Ok)
  from udp_send_finds [OF assms(1,2) query assms(16) arrive assms(17) _ this] show ?thesis by simp
qed

lemma udp_echo_answers_witness:
  "\<exists>response. fst (udp_send ''1.1.1.1'' 10 query_7
      \<lparr>clock = 100, incoming = [], accepts = [], outgoing = [], lookups = [], connects = [],
       opens = [Opens None (map (\<lambda>b. (1, Datagram b)) (map snd (snd (snd (udp_loop
         (Udp_Echo (message_bytes 0 0x8180 [query_bytes \<lparr>query_qname = root, query_qclass = CH, query_qtype = T_MX\<rparr>] [] [] []))
         [(5, Datagram (request_message query_7))] 0 [] [])))))],
       datagrams = [], send_fails = None, nodelay_fails = None, dialled = []\<rparr>) = Ok response
    \<and> resp_queries response = [req_query query_7]"
proof -
  let ?q = "\<lparr>query_qname = root, query_qclass = CH, query_qtype = T_MX\<rparr>"
  let ?reply = "message_bytes 0 0x8180 [query_bytes ?q] [] [] []"
  let ?ds = "map snd (snd (snd (udp_loop (Udp_Echo ?reply) [(5, Datagram (request_message query_7))] 0 [] [])))"
  have request: "valid_request query_7"
    by (simp add: valid_request_def valid_query_def root_name canonical_type_def record_type_from_def known_types_def
        canonical_class_def qclass_from_u16_def flags_query_def flags_from_u16_def be_bytes16_def opcode_from_bits_def)
  have q: "valid_query ?q"
    by (simp add: valid_query_def root_name canonical_type_def record_type_from_def known_types_def
        canonical_class_def qclass_from_u16_def)
  have "filter (\<lambda>ev. ev \<noteq> Recv_Fails K_Interrupted) (map Datagram ds) = map Datagram ds" for ds
    by (simp add: filter_id_conv)
  then have arrive: "arriving ?ds (map (\<lambda>b. (1, Datagram b)) ?ds)" by (simp add: arriving_def comp_def)
  have "take 65535 (request_message query_7) = request_message query_7"
    by (simp add: request_message_def message_bytes_def query_bytes_def root_name)
  then have "length ?ds \<le> 1"
    by (cases "request_txid (request_message query_7)"; cases "echo ?reply (request_message query_7)")
      (simp_all add: udp_replies_def IDLE_def Let_def)
  then have soon: "delays (map (\<lambda>b. (1, Datagram b)) ?ds) < 10" by (simp add: delays_def comp_def sum_list_triv)
  have none: "list_all2 answer_bytes [] []" by simp
  have "\<exists>response. fst (udp_send ''1.1.1.1'' 10 query_7
      \<lparr>clock = 100, incoming = [], accepts = [], outgoing = [], lookups = [], connects = [],
       opens = [Opens None (map (\<lambda>b. (1, Datagram b)) ?ds)],
       datagrams = [], send_fails = None, nodelay_fails = None, dialled = []\<rparr>) = Ok response
    \<and> resp_queries response = [req_query query_7] \<and> resp_answers response = []
    \<and> resp_authorities response = [] \<and> resp_additionals response = []"
    by (rule udp_echo_answers [where others = "[]",
          OF parse_ip_host_port [OF parse_ip_1111] parse_ip_1111 request _ _ q none none none
             _ _ _ _ _ _ _ soon arrive])
      (simp_all add: IDLE_def message_bytes_def request_message_def query_bytes_def root_name)
  then show ?thesis by blast
qed

end
