(* ===== verification/Mock_Http.thy ===== *)
theory Mock_Http
  imports Mock_Dns
begin

text \<open>
  Dog's client against the HTTP servers of its tests, as in \<open>Mock_Dns\<close>: \<open>https.rs\<close> and \<open>h2.rs\<close> of
  \<open>dns-transport/src/\<close> at one end, and at the other the servers of HTTP/1.1 and HTTP/2 of
  \<open>test-support/src/mock.rs\<close>, which find in dog's requests where they end and their transaction IDs.
\<close>

subsection \<open>HTTP/1.1\<close>

text \<open>Lines of ASCII, without their line breaks: what the heads of HTTP messages are made of.\<close>

definition plain_line :: "string \<Rightarrow> bool" where
  "plain_line l \<longleftrightarrow> l \<noteq> [] \<and> clean_line l \<and> list_all (\<lambda>c. (of_char c :: nat) < 0x80) l"

abbreviation head_text :: "string list \<Rightarrow> string" where
  "head_text ls \<equiv> concat (map (\<lambda>l. l @ crlf) ls) @ crlf"

lemma find_blank_line:
  assumes "13 \<notin> set l"
  shows "find_blank (l @ 13 # 10 # rest) =
    (if take 2 rest = [13, 10] then Some (length l) else map_option ((+) (length l + 2)) (find_blank rest))"
  using assms
proof (induction l)
  case Nil
  then show ?case by (cases "find_blank rest") (auto simp: blank_line_def)
next
  case (Cons b l)
  then have "take 4 (b # l @ 13 # 10 # rest) \<noteq> blank_line" by (auto simp: blank_line_def)
  with Cons show ?case by (cases "find_blank rest") auto
qed

lemma crlf_bytes [simp]: "bytes_of crlf = [13, 10]" "length crlf = 2"
  by (simp_all add: bytes_of_def crlf_def byte_of_char_def)

lemma clean_line_bytes: "clean_line l \<Longrightarrow> 13 \<notin> set (bytes_of l)"
proof -
  have "byte_of_char CHR 0x0D = 13" by (simp add: byte_of_char_def)
  then have "c = CHR 0x0D" if "13 = byte_of_char c" for c
    using that by (metis char_of_byte_of_char)
  then show "clean_line l \<Longrightarrow> 13 \<notin> set (bytes_of l)" by (auto simp: clean_line_def bytes_of_def)
qed

lemma find_blank_head:
  "ls \<noteq> [] \<Longrightarrow> list_all plain_line ls \<Longrightarrow>
     find_blank (bytes_of (head_text ls) @ body) = Some (length (head_text ls) - 4)"
proof (induction ls)
  case (Cons l ls)
  then have l: "13 \<notin> set (bytes_of l)" by (simp add: plain_line_def clean_line_bytes)
  show ?case
  proof (cases ls)
    case Nil
    then show ?thesis using find_blank_line [OF l, of "13 # 10 # body"] by simp
  next
    case (Cons m ms)
    with Cons.prems have "13 \<notin> set (bytes_of m)" "length (bytes_of m) \<noteq> 0"
      by (simp_all add: plain_line_def clean_line_bytes)
    then have "take 2 (bytes_of (head_text ls) @ body) \<noteq> [13, 10]"
      using Cons by (cases "bytes_of m") auto
    with Cons.IH Cons.prems Cons find_blank_line [OF l, of "bytes_of (head_text ls) @ body"]
    show ?thesis by simp
  qed
qed simp

text \<open>The lines of the head, as the servers see them.\<close>

lemma lossy_ascii: "list_all (\<lambda>c. (of_char c :: nat) < 0x80) s \<Longrightarrow> lossy (bytes_of s) = s"
proof (induction s)
  case Nil
  then show ?case by (simp add: bytes_of_def lossy.simps)
next
  case (Cons c s)
  then have "byte_of_char c < 0x80" by (simp add: word_less_nat_alt)
  with Cons show ?case
    by (simp add: bytes_of_def lossy.simps utf8_step_def string_of_def)
qed

lemma head_text_pieces:
  "list_all clean_line ls \<Longrightarrow> split_char CHR 0x0A (head_text ls) = map (\<lambda>l. l @ [CHR 0x0D]) ls @ [[CHR 0x0D], []]"
proof (induction ls)
  case (Cons l ls)
  then have "CHR 0x0A \<notin> set (l @ [CHR 0x0D])" by (simp add: clean_line_def)
  from split_char_append [OF this] Cons show ?case by (simp add: crlf_def)
qed (simp add: crlf_def)

lemma head_text_lines: "list_all clean_line ls \<Longrightarrow> str_lines (head_text ls) = ls @ [[]]"
proof -
  have "without_cr (x @ [CHR 0x0D]) = x" for x
    using strip_suffix_char_Some_iff [of "CHR 0x0D" "x @ [CHR 0x0D]" x] by (simp add: without_cr_def)
  from this this [of "[]"] show "list_all clean_line ls \<Longrightarrow> str_lines (head_text ls) = ls @ [[]]"
    by (simp add: str_lines_def head_text_pieces butlast_append comp_def)
qed
text \<open>The head of a request from dog, as the server sees it.\<close>

definition request_lines :: "HttpsUrl \<Rightarrow> nat \<Rightarrow> string list" where
  "request_lines url n = (''POST '' @ url_path url @ '' HTTP/1.1'') # request_fields url n"

lemma request_lines_plain:
  assumes "parse_https_url s = Ok url"
  shows "list_all plain_line (request_lines url n)"
proof -
  have graphic: "list_all (\<lambda>c. (of_char c :: nat) < 0x80) t" if "list_all is_ascii_graphic t" for t
    using that by (auto simp: list_all_iff is_ascii_graphic_def)
  from parse_https_url_parts [OF assms] have path: "list_all is_ascii_graphic (url_path url)"
    and "list_all host_char (url_host url)" by simp_all
  then have host: "list_all is_ascii_graphic (url_host url)" by (auto simp: list_all_iff host_char_graphic)
  have "list_all (\<lambda>c. (of_char c :: nat) < 0x80) (host_header url)"
    using graphic [OF host] dec_ascii by (simp add: host_header_def Let_def)
  with graphic [OF path] dec_ascii [of n]
  have "list_all (\<lambda>l. l \<noteq> [] \<and> list_all (\<lambda>c. (of_char c :: nat) < 0x80) l) (request_lines url n)"
    by (simp add: request_lines_def request_fields_def USER_AGENT_def)
  moreover have "list_all clean_line (request_lines url n)"
    using http_request_lines [OF assms, of "replicate n 0"] by (simp add: request_lines_def)
  ultimately show ?thesis by (auto simp: list_all_iff plain_line_def)
qed

lemma build_http_request_head:
  assumes "parse_https_url s = Ok url"
  shows "build_http_request url body = bytes_of (head_text (request_lines url (length body))) @ body"
  using http_request_lines [OF assms, of body] by (simp add: request_lines_def)

lemma trim_head: "\<not> is_whitespace c \<Longrightarrow> \<exists>cs'. trim (c # cs) = c # cs'"
  by (cases "dropWhile is_whitespace (rev cs) = []") (auto simp: trim_def dropWhile_append intro: exI [of _ "rev (dropWhile is_whitespace (rev cs))"])

lemma post_not_length: "\<not> trimmed_is (CHR ''P'' # s) ''content-length''"
proof -
  obtain cs where "trim (80 # chars s) = 80 # cs"
    using trim_head [of 80 "chars s"] by (auto simp: is_whitespace_def)
  then show ?thesis
    by (simp add: trimmed_is_def trim_to_ascii_def Let_def eq_ignore_ascii_case_def eq_bytes_ignore_ascii_case_iff
        bytes_of_def byte_of_char_def ascii_lower_def)
qed

lemma post_skipped:
  "List.find (\<lambda>(name, _). trimmed_is name ''content-length'')
      (List.map_filter (split_once CHR '':'') ((CHR ''P'' # s) # ls))
    = List.find (\<lambda>(name, _). trimmed_is name ''content-length'') (List.map_filter (split_once CHR '':'') ls)"
proof (cases "split_once CHR '':'' (CHR ''P'' # s)")
  case None
  then show ?thesis by (simp only: List.map_filter_simps option.case)
next
  case (Some pair)
  obtain a b where pair: "pair = (a, b)" by (cases pair)
  with Some have "CHR ''P'' # s = a @ CHR '':'' # b" by (simp only: split_once_Some_iff)
  then have "\<exists>t. a = CHR ''P'' # t" by (cases a) auto
  then show ?thesis
    unfolding List.map_filter_simps Some pair by (auto simp: post_not_length)
qed

lemma field_names:
  "\<not> trimmed_is ''Host'' ''content-length''" "\<not> trimmed_is ''Content-Type'' ''content-length''"
  "\<not> trimmed_is ''Accept'' ''content-length''" "\<not> trimmed_is ''User-Agent'' ''content-length''"
  "trimmed_is ''Content-Length'' ''content-length''"
  by (simp_all add: trimmed_is_def trim_to_ascii_def trim_def is_whitespace_def Let_def eq_ignore_ascii_case_def
      eq_bytes_ignore_ascii_case_iff bytes_of_def byte_of_char_def ascii_lower_def char_of_eq_iff)

lemma request_lines_length:
  assumes "parse_https_url s = Ok url" and "n < 2 ^ 64"
  shows "request_content_length (bytes_of (head_text (request_lines url n))) = n"
proof -
  let ?ls = "request_lines url n"
  have plain: "list_all plain_line ?ls" by (rule request_lines_plain [OF assms(1)])
  then have clean: "list_all clean_line ?ls" and "list_all (list_all (\<lambda>c. (of_char c :: nat) < 0x80)) ?ls"
    by (auto simp: list_all_iff plain_line_def)
  then have "list_all (\<lambda>c. (of_char c :: nat) < 0x80) (head_text ?ls)"
    by (auto simp: list_all_iff crlf_def)
  from lossy_ascii [OF this] head_text_lines [OF clean]
  have lines: "str_lines (lossy (bytes_of (head_text ?ls))) = ?ls @ [[]]" by simp
  have space: "trim (chars (CHR '' '' # dec n)) = trim (chars (dec n))"
    by (simp add: trim_def is_whitespace_def)
  have fields: "List.find (\<lambda>(name, _). trimmed_is name ''content-length'')
      (List.map_filter (split_once CHR '':'') (request_fields url n @ [[]])) = Some (''Content-Length'', '' '' @ dec n)"
    by (simp add: request_fields_def List.map_filter_simps field_names)
  have "List.find (\<lambda>(name, _). trimmed_is name ''content-length'')
      (List.map_filter (split_once CHR '':'') (?ls @ [[]])) = Some (''Content-Length'', '' '' @ dec n)"
    using fields unfolding request_lines_def append_Cons post_skipped .
  with parse_content_number(2) [OF assms(2)] space show ?thesis
    unfolding request_content_length_def lines by simp
qed
text \<open>The request is whole when all of it has come, and not before.\<close>

lemma request_header_end:
  assumes "parse_https_url s = Ok url"
  shows "http_header_end (build_http_request url body) = Some (length (head_text (request_lines url (length body))))"
    and "4 \<le> length (head_text (request_lines url (length body)))"
proof -
  let ?ls = "request_lines url (length body)"
  have "?ls \<noteq> []" by (simp add: request_lines_def)
  from find_blank_head [OF this request_lines_plain [OF assms]]
  have blank: "find_blank (bytes_of (head_text ?ls) @ body) = Some (length (head_text ?ls) - 4)" .
  have "4 \<le> length (head_text ?ls)" by (simp add: request_lines_def)
  with blank show "http_header_end (build_http_request url body) = Some (length (head_text ?ls))"
    and "4 \<le> length (head_text ?ls)"
    by (simp_all add: http_header_end_def build_http_request_head [OF assms])
qed

lemma request_complete:
  assumes "parse_https_url s = Ok url" and "length body < 2 ^ 64"
  shows "http_complete (build_http_request url body)"
    and "k < length (build_http_request url body) \<Longrightarrow> \<not> http_complete (take k (build_http_request url body))"
proof -
  let ?r = "build_http_request url body"
  obtain head where head: "head = bytes_of (head_text (request_lines url (length body)))" by blast
  have r: "?r = head @ body" unfolding head by (rule build_http_request_head [OF assms(1)])
  have size: "request_content_length head = length body" unfolding head by (rule request_lines_length [OF assms])
  have ends: "http_header_end ?r = Some (length head)"
    unfolding head using request_header_end(1) [OF assms(1), of body] by simp
  from ends size show "http_complete ?r" by (simp add: http_complete_def r)
  assume k: "k < length ?r"
  show "\<not> http_complete (take k ?r)"
  proof (cases "find_blank (take k ?r)")
    case None
    then show ?thesis by (simp add: http_complete_def http_header_end_def)
  next
    case (Some p)
    with find_blank_append [OF Some, of "drop k ?r"] ends have p: "p + 4 = length head" "length head \<le> k"
      by (auto simp: http_header_end_def)
    then have "take (p + 4) (take k ?r) = head" by (simp add: r)
    with Some p k size show ?thesis
      by (simp add: http_complete_def http_header_end_def r)
  qed
qed

lemma request_body_txid:
  assumes "parse_https_url s = Ok url" and "request_to_bytes request = Ok query"
  shows "body_txid (build_http_request url query) = Ok (Some (req_transaction_id request))"
proof -
  let ?head = "bytes_of (head_text (request_lines url (length query)))"
  from request_to_bytes_txid(1,2) [OF assms(2)] have q: "query = be_bytes16 (req_transaction_id request) @ drop 2 query"
    and len: "12 \<le> length query"
    by (metis append_take_drop_id)+
  have "get_u16 (build_http_request url query) (length ?head) = Ok (req_transaction_id request)"
    using get_u16_at [of ?head "length ?head" "req_transaction_id request" "drop 2 query"] q
    by (simp add: build_http_request_head [OF assms(1)])
  with request_header_end(1) [OF assms(1), of query] len show ?thesis
    by (simp add: body_txid_def build_http_request_head [OF assms(1)])
qed

definition request_comes :: "u8 list \<Rightarrow> 'w net_scheme \<Rightarrow> bool" where
  "request_comes bytes w \<longleftrightarrow>
     (\<exists>evs later. incoming w = evs @ later \<and> payload evs = bytes
        \<and> list_all (\<lambda>(d, ev). d < IDLE \<and> (\<exists>bs. ev = Arrives bs \<and> bs \<noteq> [])) evs)
     \<and> accepts w = [] \<and> outgoing w = []"

lemma read_until_comes:
  assumes "request_comes bytes w" and "complete bytes" and "\<And>k. k < length bytes \<Longrightarrow> \<not> complete (take k bytes)"
  obtains w' where "read_until complete [] w = (Ok bytes, w')" "leaves w w'"
proof -
  from assms(1) obtain evs later where "incoming w = evs @ later" "payload evs = bytes"
    "list_all (\<lambda>(d, ev). d < IDLE \<and> (\<exists>bs. ev = Arrives bs \<and> bs \<noteq> [])) evs"
    by (auto simp: request_comes_def)
  with read_until_steady [of evs w later "[]" bytes complete] assms(2,3) that show ?thesis by auto
qed

text \<open>The response that a server is to send, of the servers that send one.\<close>

fun http_replayed :: "Http \<Rightarrow> u8 list option" where
  "http_replayed (Http_Reply reply) = Some reply"
| "http_replayed (Http_Drip reply) = Some reply"
| "http_replayed (Http_Trickle reply delay) = Some reply"
| "http_replayed _ = None"

lemma http_action_replays:
  assumes "http_replayed mode = Some (head @ message)" and "http_header_end head = Some (length head)"
    and "2 \<le> length message" and "http_is_dns (head @ message) = Ok True" and "body_txid request = Ok (Some i)"
  obtains act where "http_action mode request = Ok act" and "act \<noteq> Hold"
    and "put_bytes act = head @ be_bytes16 i @ drop 2 message"
proof -
  have ends: "http_header_end (head @ message) = Some (length head)"
    using assms(2) find_blank_append [of head] by (auto simp: http_header_end_def)
  from this have "reply_for (head @ message) request = Ok (head @ be_bytes16 i @ drop 2 message)"
    using assms(3-5) by (simp add: reply_for_def http_body_def patch_body_txid_def set_u16_def)
  with assms(1) that show ?thesis
    by (cases mode) (auto simp: http_action_def)
qed
lemma http_mock_serves:
  fixes v :: "'v server_scheme"
  assumes "parse_https_url s = Ok url" and "request_to_bytes request = Ok query" and "length query < 2 ^ 64"
    and "request_comes (build_http_request url query) v"
    and "http_replayed mode = Some (head @ message)" and "http_header_end head = Some (length head)"
    and "2 \<le> length message" and "http_is_dns (head @ message) = Ok True"
  obtains v' where "serve_http_stream mode v = (Ok (), v')"
    and "received v' = received v @ [build_http_request url query]"
    and "outgoing v' = head @ be_bytes16 (req_transaction_id request) @ drop 2 message"
proof -
  let ?i = "req_transaction_id request"
  let ?sent = "build_http_request url query"
  let ?message = "be_bytes16 ?i @ drop 2 message"
  obtain v' where read: "read_http_request v = (Ok ?sent, v')" "leaves v v'"
    using read_until_comes [OF assms(4) request_complete [OF assms(1,3)]] by (auto simp: read_http_request_def)
  obtain act where act: "http_action mode ?sent = Ok act" "act \<noteq> Hold" "put_bytes act = head @ ?message"
    using http_action_replays [OF assms(5-8) request_body_txid [OF assms(1,2)]] .
  from assms(4) have "accepts v = []" "outgoing v = []" by (simp_all add: request_comes_def)
  from serve_writes [where read = read_http_request and answer = "http_action mode", OF read this act(1,2)] show ?thesis
    using that unfolding serve_http_stream_def act(3) by blast
qed


text \<open>What the servers find in a head made of lines.\<close>

lemma http_header_end_head:
  assumes "ls \<noteq> []" and "list_all plain_line ls"
  shows "http_header_end (bytes_of (head_text ls) @ body) = Some (length (head_text ls))"
    and "4 \<le> length (head_text ls)"
proof -
  from assms(1) show "4 \<le> length (head_text ls)" by (cases ls) simp_all
  with find_blank_head [OF assms] show "http_header_end (bytes_of (head_text ls) @ body) = Some (length (head_text ls))"
    by (simp add: http_header_end_def)
qed

lemma head_text_join: "ls \<noteq> [] \<Longrightarrow> head_text ls = join crlf ls @ crlf @ crlf"
  by (induction crlf ls rule: join.induct) simp_all

lemma split_crlf_clean: "clean_line l \<Longrightarrow> split_crlf l = [l]"
  by (induction l rule: split_crlf.induct) (auto simp: clean_line_def)

lemma split_crlf_line: "clean_line l \<Longrightarrow> split_crlf (l @ crlf @ rest) = l # split_crlf rest"
proof (induction l)
  case (Cons c l)
  then have "CHR 0x0D \<noteq> c" "clean_line l" by (simp_all add: clean_line_def)
  with Cons show ?case by (cases "l @ crlf @ rest") (auto simp: crlf_def)
qed (simp add: crlf_def)

lemma split_crlf_join: "ls \<noteq> [] \<Longrightarrow> list_all clean_line ls \<Longrightarrow> split_crlf (join crlf ls) = ls"
  by (induction crlf ls rule: join.induct) (simp_all add: split_crlf_clean split_crlf_line)

lemma http_head_lines_head:
  assumes "ls \<noteq> []" and "list_all plain_line ls"
  shows "http_head_lines (bytes_of (head_text ls) @ body) = Ok ls"
proof -
  have clean: "list_all clean_line ls" and "list_all (list_all (\<lambda>c. (of_char c :: nat) < 0x80)) ls"
    using assms(2) by (auto simp: list_all_iff plain_line_def)
  then have "list_all (\<lambda>c. (of_char c :: nat) < 0x80) (head_text ls)"
    by (auto simp: list_all_iff crlf_def)
  then have "list_all (\<lambda>c. (of_char c :: nat) < 0x80) (join crlf ls)"
    unfolding head_text_join [OF assms(1)] by simp
  then have "list_all (\<lambda>b. b < 0x80) (bytes_of (join crlf ls))"
    by (simp add: bytes_of_def list_all_iff word_less_nat_alt)
  then have "from_utf8 (bytes_of (join crlf ls)) = Some (join crlf ls)"
    by (simp add: from_utf8_def is_utf8_ascii)
  then show ?thesis
    using http_header_end_head(1) [OF assms, of body] http_header_end_head(2) [OF assms] head_text_join [OF assms(1)] split_crlf_join [OF assms(1) clean]
    by (simp add: http_head_lines_def)
qed

lemma http_is_dns_head:
  assumes "ls \<noteq> []" and "list_all plain_line ls"
  shows "http_is_dns (bytes_of (head_text ls) @ body) =
    Ok (list_ex (\<lambda>line. case split_once CHR '':'' line of
              None \<Rightarrow> False
            | Some (name, val) \<Rightarrow>
                trimmed_is name ''content-type'' \<and> trimmed_is val ''application/dns-message'')
          (drop 1 ls))"
  using http_header_end_head(1) [OF assms, of body] http_header_end_head(2) [OF assms] http_head_lines_head [OF assms, of body]
  by (simp add: http_is_dns_def)

lemma request_comes_at_once:
  assumes "d < IDLE" and "bs \<noteq> []" and "incoming w = [(d, Arrives bs)]" and "accepts w = []" and "outgoing w = []"
  shows "request_comes bs w"
proof -
  have "incoming w = [(d, Arrives bs)] @ []" "payload [(d, Arrives bs)] = bs"
    "list_all (\<lambda>(d, ev). d < IDLE \<and> (\<exists>bs. ev = Arrives bs \<and> bs \<noteq> [])) [(d, Arrives bs)]"
    using assms by simp_all
  with assms(4,5) show ?thesis unfolding request_comes_def by blast
qed


subsection \<open>HTTP/2\<close>

lemma h2_complete_ends: "h2_complete data \<longleftrightarrow> list_ex ends_stream (h2_frames data)"
  by (simp add: h2_complete_def ends_stream_def list_ex_iff)

lemma h2_frames_in_preface:
  assumes "k < length H2_PREFACE"
  shows "h2_frames (take k H2_PREFACE) = []"
proof -
  have "strip_prefix H2_PREFACE (take k H2_PREFACE) = None"
    using assms by (auto simp: strip_prefix_None_iff dest!: arg_cong [where f = length])
  moreover have "take 9 (take k H2_PREFACE) = take 9 H2_PREFACE" if "9 \<le> k" using that by simp
  ultimately show ?thesis
    using assms by (auto simp: h2_frames_def after_preface_def h2_frames_from.simps H2_PREFACE_bytes)
qed

lemma h2_request_complete:
  assumes "h2_request_bytes url body = Ok bytes"
  shows "h2_complete bytes" and "k < length bytes \<Longrightarrow> \<not> h2_complete (take k bytes)"
proof -
  obtain fs f where bytes: "bytes = H2_PREFACE @ frames_bytes (fs @ [f])"
    and proper: "list_all (\<lambda>f. proper_frame (frame_of f)) (fs @ [f])"
    and ends: "\<not> list_ex ends_stream fs" "ends_stream f"
    by (rule h2_request_walked [OF assms])
  show "h2_complete bytes"
    using h2_frames_frames_bytes(2) [OF proper] ends(2) unfolding h2_complete_ends bytes by simp
  assume k: "k < length bytes"
  show "\<not> h2_complete (take k bytes)"
  proof (cases "k < length H2_PREFACE")
    case True
    then have "take k bytes = take k H2_PREFACE" by (simp add: bytes)
    with h2_frames_in_preface [OF True] show ?thesis by (simp add: h2_complete_ends)
  next
    case False
    let ?k = "k - length H2_PREFACE"
    from False have part: "take k bytes = H2_PREFACE @ take ?k (frames_bytes (fs @ [f]))" by (simp add: bytes)
    from h2_frames_from_take [OF proper, of H2_PREFACE ?k] k False obtain j where
      j: "h2_frames (take k bytes) = take j (fs @ [f])" "j < length (fs @ [f])"
      unfolding part h2_frames_after_preface by (auto simp: bytes)
    then have "h2_frames (take k bytes) = take j fs" by simp
    then show ?thesis using ends(1) by (auto simp: h2_complete_ends list_ex_iff dest: in_set_takeD)
  qed
qed

lemma h2_txid_found:
  assumes "request_to_bytes request = Ok query" and "h2_request_bytes url query = Ok bytes"
  shows "h2_request_txid bytes = Ok (Some (req_transaction_id request))"
proof -
  have "h2_body bytes = query" using h2_request_walked [OF assms(2)] by metis
  with request_to_bytes_txid(1,2) [OF assms(1)] get_u16_at [of "[]" 0 "req_transaction_id request" "drop 2 query"]
  show ?thesis by (simp add: h2_request_txid_def) (metis append_Nil append_take_drop_id outcome.distinct bind_outcome.simps(1))
qed

lemma hold_leaves: "leaves w (snd (hold w))"
proof (induction w rule: hold.induct)
  case (1 w)
  obtain s v where s: "socket_read IDLE 512 w = (s, v)" by fastforce
  then have v: "leaves w v" by (auto simp: socket_read_def leaves_def split: list.splits if_splits read_event.splits)
  show ?case
    using 1 [OF s [symmetric]] v s
    by (cases s) (auto simp: hold.simps [of w] leaves_def split: if_splits)
qed
text \<open>The response with the transaction ID in the frame that takes it.\<close>

definition numbered_frames :: "H2Frame list \<Rightarrow> H2Frame \<Rightarrow> H2Frame list \<Rightarrow> u16 \<Rightarrow> H2Frame list" where
  "numbered_frames before f after i = before @ f\<lparr>h2_payload := be_bytes16 i @ drop 2 (h2_payload f)\<rparr> # after"

lemma h2_mock_serves:
  fixes v :: "'v server_scheme"
  assumes "request_to_bytes request = Ok query" and "h2_request_bytes url query = Ok bytes" and "request_comes bytes v"
    and "list_all (\<lambda>f. proper_frame (frame_of f)) (before @ f # after)"
    and "\<not> list_ex takes_txid before" and "takes_txid f"
  obtains v' where "serve_http2_stream (Http2_Reply (frames_bytes (before @ f # after))) v = (Ok (), v')"
    and "received v' = received v @ [bytes]"
    and "outgoing v' = frames_bytes (numbered_frames before f after (req_transaction_id request))"
proof -
  let ?i = "req_transaction_id request"
  let ?reply = "frames_bytes (before @ f # after)"
  let ?out = "frames_bytes (numbered_frames before f after ?i)"
  obtain u where read: "read_h2_request v = (Ok bytes, u)" "leaves v u"
    using read_until_comes [OF assms(3) h2_request_complete [OF assms(2)]] by (auto simp: read_h2_request_def)
  have "h2_patch_body_txid ?reply ?i = Ok ?out"
    using h2_txid_patched [OF assms(4,5), of ?i] assms(6) by (simp add: numbered_frames_def)
  then have reply: "http2_reply (Http2_Reply ?reply) bytes = Ok ?out"
    using h2_txid_found [OF assms(1,2)] by (simp add: http2_reply_def)
  let ?u = "record_request bytes u"
  have u: "accepts ?u = []" "outgoing ?u = []" "received ?u = received v @ [bytes]"
    using assms(3) read(2) received_leaves [OF read(2)]
    by (simp_all add: request_comes_def record_request_def leaves_def)
  let ?w = "?u\<lparr>outgoing := outgoing ?u @ ?out\<rparr>"
  note leaves = hold_leaves [of ?w]
  show ?thesis
    using that [of "snd (hold ?w)"] u reply read(1) received_leaves [OF leaves] leaves idle_write_all_free [of ?u ?out]
    by (simp add: serve_http2_stream_def serve_def and_then_def leaves_def)
qed

text \<open>
  C32: Dog and the nameservers of its tests understand each other over HTTP/2. A server that is given
  a response to send waits for the whole of dog's request, takes exactly that for the request, and
  finds the transaction ID in it; and dog, on the same connection, gets the DNS message in the frames
  that the server sends, with that ID in them, if they are a response and the message answers the
  request, cut up and interrupted in any way but in time.
\<close>

theorem h2_mock_answers:
  fixes w :: "'w net_scheme" and v :: "'v server_scheme"
  assumes "request_to_bytes request = Ok query" and "h2_request_bytes url query = Ok bytes" and "request_comes bytes v"
    and "list_all (\<lambda>f. proper_frame (frame_of f)) (before @ f # after)"
    and "\<not> list_ex takes_txid before" and "takes_txid f"
    and "response_frames False (map frame_of (numbered_frames before f after (req_transaction_id request))) body replies"
    and "length body \<le> MAX_BODY"
    and "incoming w = evs @ later" and "steady evs" and "clock w + delays evs < dl_at dl" and "accepts w = []"
    and "payload evs = outgoing (snd (serve_http2_stream (Http2_Reply (frames_bytes (before @ f # after))) v))"
    and "response_from_bytes body = Ok response" and "answers_request request response"
  shows "(\<exists>w'. h2_exchange dl url request w = (Ok response, w') \<and> outgoing w' = outgoing w @ bytes @ replies)
    \<and> received (snd (serve_http2_stream (Http2_Reply (frames_bytes (before @ f # after))) v)) = received v @ [bytes]"
proof -
  let ?frames = "numbered_frames before f after (req_transaction_id request)"
  obtain v' where v': "serve_http2_stream (Http2_Reply (frames_bytes (before @ f # after))) v = (Ok (), v')"
    "received v' = received v @ [bytes]" "outgoing v' = frames_bytes ?frames"
    using h2_mock_serves [OF assms(1-6)] .
  let ?w = "w\<lparr>outgoing := outgoing w @ bytes\<rparr>"
  have "write_fully dl bytes w = (Ok (), ?w)"
    using stream_write_all_free [OF assms(12), of dl bytes] assms(11) by (simp add: write_fully_def)
  moreover have "\<exists>w'. read_body dl incoming_default ?w = (Ok body, w') \<and> outgoing w' = outgoing ?w @ replies"
  proof (rule response_body_read [OF assms(7) _ assms(8,10)])
    show "list_all proper_frame (map frame_of ?frames)"
      using assms(4,6)
      by (auto simp: numbered_frames_def list_all_iff proper_frame_def frame_of_def takes_txid_def)
    show "payload evs = concat (map frame_bytes (map frame_of ?frames)) @ []"
      using assms(13) v' by (simp add: comp_def)
  qed (use assms in simp_all)
  ultimately show ?thesis
    using assms(1,2,14,15) v' checked_response_Ok [of request body response]
    by (auto simp: h2_exchange_def request_bytes_def and_then_def just_def)
qed

lemma refusal_frames:
  "response_frames False (map frame_of [sent HEADERS END_HEADERS 1 [0x88], sent DATA END_STREAM 1 refusal_7]) refusal_7 []"
proof -
  let ?headers = "\<lparr>frame_kind = HEADERS, frame_flags = END_HEADERS, frame_stream = 1, frame_payload = [0x88]\<rparr>"
  let ?body = "\<lparr>frame_kind = DATA, frame_flags = END_STREAM, frame_stream = 1, frame_payload = refusal_7\<rparr>"
  have "carries ?headers [0x88]"
    unfolding carries_def by (intro exI [of _ "[]"]) (simp add: frame_flags_defs)
  with status_200 have head: "head_of ?headers 200" by (auto simp: head_of_def ours_def STREAM_def)
  have "carries ?body refusal_7"
    unfolding carries_def by (intro exI [of _ "[]"]) (simp add: frame_flags_defs frame_types)
  then have "response_frames True [?body] refusal_7 []"
    by (intro last_chunk) (simp_all add: ours_def ends_def STREAM_def frame_flags_defs)
  then have "response_frames False [?headers, ?body] refusal_7 []"
    by (intro response_frames.head [OF head]) (simp add: ends_def frame_flags_defs)
  then show ?thesis by (simp add: sent_def frame_of_def)
qed

lemma query_7_over_h2:
  obtains bytes where
    "h2_request_bytes \<lparr>url_host = ''d'', url_port = 443, url_path = ''/q''\<rparr> query_7_sent = Ok bytes"
proof -
  let ?url = "\<lparr>url_host = ''d'', url_port = 443, url_path = ''/q''\<rparr>"
  have "length (dec 17) \<le> 2" by (rule length_dec_le) simp_all
  then have "length (header_block ?url 17) \<le> MAX_FRAME"
    by (simp add: header_block_def header_fields_def host_header_def integer_def integer_rest.simps USER_AGENT_def
        MAX_FRAME_def)
  moreover have "length query_7_sent = 17" by simp
  ultimately have fits: "length (header_block ?url (length query_7_sent)) \<le> MAX_FRAME" by metis
  from h2_request_frames [of ?url query_7_sent] obtain bytes where "h2_request_bytes ?url query_7_sent = Ok bytes"
    unfolding eqTrueI [OF fits] if_True by blast
  then show ?thesis by (rule that)
qed

lemma h2_mock_answers_witness:
  "\<exists>bytes response w'. h2_request_bytes \<lparr>url_host = ''d'', url_port = 443, url_path = ''/q''\<rparr> query_7_sent = Ok bytes
    \<and> h2_exchange \<lparr>dl_at = 100, dl_timeout = 100\<rparr> \<lparr>url_host = ''d'', url_port = 443, url_path = ''/q''\<rparr> query_7
        \<lparr>clock = 0, incoming = [(5, Arrives (outgoing (snd (serve_http2_stream
           (Http2_Reply (frames_bytes [sent HEADERS END_HEADERS 1 [0x88], sent DATA END_STREAM 1 (0xAA # 0xAA # drop 2 refusal_7)]))
           \<lparr>clock = 0, incoming = [(1, Arrives bytes)], accepts = [], outgoing = [], received = []\<rparr>))))],
         accepts = [], outgoing = []\<rparr> = (Ok response, w')"
proof -
  let ?url = "\<lparr>url_host = ''d'', url_port = 443, url_path = ''/q''\<rparr>"
  let ?head = "sent HEADERS END_HEADERS 1 [0x88]" and ?data = "\<lambda>bs. sent DATA END_STREAM 1 bs"
  let ?mode = "Http2_Reply (frames_bytes [?head, ?data (0xAA # 0xAA # drop 2 refusal_7)])"
  obtain bytes where sent: "h2_request_bytes ?url query_7_sent = Ok bytes" using query_7_over_h2 .
  have some_bytes: "bytes \<noteq> []"
    by (rule h2_request_walked [OF sent]) (simp add: H2_PREFACE_bytes)
  let ?v = "\<lparr>clock = 0, incoming = [(1, Arrives bytes)], accepts = [], outgoing = [], received = []\<rparr>"
  let ?es = "[(5, Arrives (outgoing (snd (serve_http2_stream ?mode ?v))))]"
  let ?w = "\<lparr>clock = 0, incoming = ?es, accepts = [], outgoing = []\<rparr>"
  have comes: "request_comes bytes ?v"
    by (rule request_comes_at_once [of 1]) (simp_all add: IDLE_def some_bytes)
  have proper: "list_all (\<lambda>f. proper_frame (frame_of f)) ([?head] @ ?data (0xAA # 0xAA # drop 2 refusal_7) # [])"
    and takes: "\<not> list_ex takes_txid [?head]" "takes_txid (?data (0xAA # 0xAA # drop 2 refusal_7))"
    by (simp_all add: sent_def frame_of_def proper_frame_def MAX_FRAME_def takes_txid_def sent_defs)
  have numbered: "numbered_frames [?head] (?data (0xAA # 0xAA # drop 2 refusal_7)) [] 7 = [?head, ?data refusal_7]"
    by (simp add: numbered_frames_def sent_def be_bytes16_def)
  have some: "outgoing (snd (serve_http2_stream ?mode ?v)) \<noteq> []"
  proof -
    obtain v' where "serve_http2_stream ?mode ?v = (Ok (), v')"
      "outgoing v' = frames_bytes (numbered_frames [?head] (?data (0xAA # 0xAA # drop 2 refusal_7)) [] (req_transaction_id query_7))"
      using h2_mock_serves [OF query_7_bytes sent comes proper takes] unfolding append_Cons append_Nil by blast
    then show ?thesis by (simp add: numbered_frames_def frame_bytes_def)
  qed
  obtain response where response: "response_from_bytes refusal_7 = Ok response" "answers_request query_7 response"
    using refusal_answers .
  have "(\<exists>w'. h2_exchange \<lparr>dl_at = 100, dl_timeout = 100\<rparr> ?url query_7 ?w = (Ok response, w') \<and> outgoing w' = outgoing ?w @ bytes @ [])
    \<and> received (snd (serve_http2_stream ?mode ?v)) = received ?v @ [bytes]"
    by (rule h2_mock_answers [where evs = ?es and later = "[]" and before = "[?head]" and after = "[]" and body = refusal_7,
         OF query_7_bytes sent comes proper takes, unfolded append_Cons append_Nil])
      (use refusal_frames numbered response some in \<open>simp_all add: MAX_BODY_def\<close>)
  with sent show ?thesis by blast
qed

end
