(* ===== verification/Test_Fixtures.thy ===== *)
theory Test_Fixtures
  imports Test_Mock
begin

text \<open>
  What the tests keep in files (\<open>test-support/src/fixtures.rs\<close>, \<open>golden.rs\<close>) and their watchdog
  (\<open>watchdog.rs\<close>): the messages captured from real servers and the list of them, the expected output
  and its comparison with what dog prints, and the limit on the time of a test. The files are a
  parameter: what reading each path gives, and where writing succeeds. A test that fails panics.
\<close>

subsection \<open>Fixtures\<close>

type_synonym disk = "string \<Rightarrow> (io_kind, u8 list) outcome"

definition join_path :: "string \<Rightarrow> string \<Rightarrow> string" where
  "join_path p q =
     (if strip_prefix ''/'' q \<noteq> None then q else if p = [] \<or> last p = CHR ''/'' then p @ q else p @ ''/'' @ q)"

definition fixtures_root :: "string \<Rightarrow> string" where
  "fixtures_root manifest_dir = join_path (join_path (join_path manifest_dir ''..'') ''tests'') ''fixtures''"

definition load_fixture :: "string \<Rightarrow> disk \<Rightarrow> string \<Rightarrow> u8 list checked" where
  "load_fixture manifest_dir fs relative =
     (case fs (join_path (fixtures_root manifest_dir) relative) of Ok bytes \<Rightarrow> Ok bytes | _ \<Rightarrow> Panic)"

definition fixture_text :: "string \<Rightarrow> disk \<Rightarrow> string \<Rightarrow> string checked" where
  "fixture_text manifest_dir fs relative =
     bind_outcome (load_fixture manifest_dir fs relative) (\<lambda>bytes.
     case from_utf8 bytes of Some s \<Rightarrow> Ok s | None \<Rightarrow> Panic)"

definition fixture_response :: "string \<Rightarrow> disk \<Rightarrow> string \<Rightarrow> u8 list checked" where
  "fixture_response manifest_dir fs name = load_fixture manifest_dir fs (''dns/'' @ name @ ''.response.bin'')"

definition fixture_query :: "string \<Rightarrow> disk \<Rightarrow> string \<Rightarrow> u8 list checked" where
  "fixture_query manifest_dir fs name = load_fixture manifest_dir fs (''dns/'' @ name @ ''.query.bin'')"

definition fixture_dig :: "string \<Rightarrow> disk \<Rightarrow> string \<Rightarrow> string checked" where
  "fixture_dig manifest_dir fs name = fixture_text manifest_dir fs (''dns/'' @ name @ ''.dig.txt'')"

definition fixture_http_response :: "string \<Rightarrow> disk \<Rightarrow> string \<Rightarrow> u8 list checked" where
  "fixture_http_response manifest_dir fs name = load_fixture manifest_dir fs (''doh/'' @ name @ ''.response.http'')"

definition fixture_http_request :: "string \<Rightarrow> disk \<Rightarrow> string \<Rightarrow> u8 list checked" where
  "fixture_http_request manifest_dir fs name = load_fixture manifest_dir fs (''doh/'' @ name @ ''.request.http'')"

definition fixture_h2_response :: "string \<Rightarrow> disk \<Rightarrow> string \<Rightarrow> u8 list checked" where
  "fixture_h2_response manifest_dir fs name = load_fixture manifest_dir fs (''doh/'' @ name @ ''.response.h2'')"

definition fixture_h2_request :: "string \<Rightarrow> disk \<Rightarrow> string \<Rightarrow> u8 list checked" where
  "fixture_h2_request manifest_dir fs name = load_fixture manifest_dir fs (''doh/'' @ name @ ''.request.h2'')"

record ManifestRow =
  row_name :: string
  row_tier :: nat                \<comment> \<open>a \<open>u8\<close>\<close>
  row_transport :: string
  row_server :: string
  row_port :: u16
  row_qname :: string
  row_qtype :: string
  row_qclass :: string
  row_knobs :: string
  row_txid :: u16

definition is_dns :: "ManifestRow \<Rightarrow> bool" where
  "is_dns row \<longleftrightarrow> strip_prefix ''doh'' (row_transport row) = None"

definition knob :: "ManifestRow \<Rightarrow> string \<Rightarrow> string option" where
  "knob row key =
     map_option snd (List.find (\<lambda>(k, _). k = key)
       (List.map_filter (split_once CHR ''='') (split_char CHR '','' (row_knobs row))))"

text \<open>\<open>trim_start_matches\<close> and \<open>u16::from_str_radix\<close> of the standard library.\<close>

function trim_start_matches :: "'a list \<Rightarrow> 'a list \<Rightarrow> 'a list" where
  "trim_start_matches pat s =
     (case strip_prefix pat s of
        Some rest \<Rightarrow> if pat = [] then s else trim_start_matches pat rest
      | None \<Rightarrow> s)"
  by pat_completeness auto
termination
  by (relation "measure (\<lambda>(pat, s). length s)") (auto simp: strip_prefix_Some_iff)

declare trim_start_matches.simps [simp del]

definition radix16_value :: "string \<Rightarrow> nat option" where
  "radix16_value s =
     foldl (\<lambda>v c. case (v, to_digit 16 c) of (Some n, Some d) \<Rightarrow> Some (n * 16 + d) | _ \<Rightarrow> None) (Some 0) s"

definition from_hex :: "nat \<Rightarrow> string \<Rightarrow> nat option" where
  "from_hex bound s =
     (let digits = (case s of c # d # rest \<Rightarrow> if c = CHR ''+'' then d # rest else s | _ \<Rightarrow> s) in
      if digits = [] then None
      else case radix16_value digits of Some n \<Rightarrow> if n < bound then Some n else None | None \<Rightarrow> None)"

definition expect :: "'a option \<Rightarrow> 'a checked" where
  "expect v = (case v of Some x \<Rightarrow> Ok x | None \<Rightarrow> Panic)"

definition get_cell :: "string list \<Rightarrow> string list \<Rightarrow> string \<Rightarrow> string checked" where
  "get_cell head cells column =
     (case List.find (\<lambda>(h, _). h = column) (zip head [0..<length head]) of
        None \<Rightarrow> Panic
      | Some (_, index) \<Rightarrow> if index < length cells then Ok (cells ! index) else Panic)"

definition parse_row :: "string list \<Rightarrow> string \<Rightarrow> ManifestRow checked" where
  "parse_row head line =
     (let cells = split_char CHR 0x09 line; get = get_cell head cells in
      bind_outcome (get ''name'') (\<lambda>name.
      bind_outcome (bind_outcome (get ''tier'') (\<lambda>t. expect (parse_unsigned (2 ^ 8) t))) (\<lambda>tier.
      bind_outcome (get ''transport'') (\<lambda>transport.
      bind_outcome (get ''server'') (\<lambda>server.
      bind_outcome (bind_outcome (get ''port'') (\<lambda>p. expect (parse_unsigned (2 ^ 16) p))) (\<lambda>port.
      bind_outcome (get ''qname'') (\<lambda>qname.
      bind_outcome (get ''qtype'') (\<lambda>qtype.
      bind_outcome (get ''qclass'') (\<lambda>qclass.
      bind_outcome (get ''knobs'') (\<lambda>knobs.
      bind_outcome (bind_outcome (get ''txid'') (\<lambda>t. expect (from_hex (2 ^ 16) (trim_start_matches ''0x'' t)))) (\<lambda>i.
      Ok \<lparr>row_name = name, row_tier = tier, row_transport = transport, row_server = server,
          row_port = word_of_nat port, row_qname = qname, row_qtype = qtype, row_qclass = qclass,
          row_knobs = knobs, row_txid = word_of_nat i\<rparr>)))))))))))"

definition manifest :: "string \<Rightarrow> disk \<Rightarrow> ManifestRow list checked" where
  "manifest manifest_dir fs =
     bind_outcome (fixture_text manifest_dir fs ''MANIFEST.tsv'') (\<lambda>t.
     case str_lines t of
       [] \<Rightarrow> Panic
     | first # rest \<Rightarrow>
         collect_outcome (parse_row (split_char CHR 0x09 first)) (filter (\<lambda>line. line \<noteq> []) rest))"

definition dns_rows :: "string \<Rightarrow> disk \<Rightarrow> ManifestRow list checked" where
  "dns_rows manifest_dir fs = bind_outcome (manifest manifest_dir fs) (\<lambda>rows. Ok (filter is_dns rows))"


subsection \<open>Golden files\<close>

record golden_disk =
  file_at :: disk
  dir_fails :: "string \<Rightarrow> bool"
  write_fails :: "string \<Rightarrow> bool"

definition golden_dir :: "string \<Rightarrow> string" where
  "golden_dir manifest_dir = join_path (join_path (join_path manifest_dir ''..'') ''tests'') ''golden''"

definition blessing :: "string option \<Rightarrow> bool" where
  "blessing dog_bless \<longleftrightarrow> dog_bless = Some ''1''"

definition write_golden :: "string \<Rightarrow> string \<Rightarrow> golden_disk \<Rightarrow> unit checked \<times> golden_disk" where
  "write_golden path contents d =
     (let fails = (case rsplit_once CHR ''/'' path of Some (parent, _) \<Rightarrow> dir_fails d parent | None \<Rightarrow> False) in
      if fails \<or> write_fails d path then (Panic, d)
      else (Ok (), d\<lparr>file_at := (file_at d)(path := Ok (bytes_of contents))\<rparr>))"

definition assert_golden ::
  "string \<Rightarrow> string option \<Rightarrow> string \<Rightarrow> string \<Rightarrow> string \<Rightarrow> golden_disk \<Rightarrow> unit checked \<times> golden_disk" where
  "assert_golden manifest_dir dog_bless case_name stream actual d =
     (let path = join_path (golden_dir manifest_dir) (case_name @ ''.'' @ stream) in
      if blessing dog_bless then write_golden path actual d
      else
        (case file_at d path of
           Ok bytes \<Rightarrow>
             (case from_utf8 bytes of
                Some expected \<Rightarrow> (if expected = actual then Ok () else Panic, d)
              | None \<Rightarrow> (Panic, d))
         | _ \<Rightarrow> (Panic, d)))"

text \<open>\<open>str::find\<close> of a text: what is before it, and what is after.\<close>

fun split_at :: "'a list \<Rightarrow> 'a list \<Rightarrow> ('a list \<times> 'a list) option" where
  "split_at pat [] = (if pat = [] then Some ([], []) else None)"
| "split_at pat (x # xs) =
     (case strip_prefix pat (x # xs) of
        Some rest \<Rightarrow> Some ([], rest)
      | None \<Rightarrow> map_option (\<lambda>(before, after). (x # before, after)) (split_at pat xs))"

lemma split_at_Some: "split_at pat s = Some (before, after) \<Longrightarrow> s = before @ pat @ after"
proof (induction s arbitrary: before)
  case (Cons x xs)
  then show ?case
    using strip_prefix_Some_iff [of pat "x # xs"]
    by (auto simp del: strip_prefix.simps split: option.splits)
qed (auto split: if_splits)

text \<open>Digits and dots become one letter. With an empty marker the loop would not end, and that is None.\<close>

abbreviation number_char :: "char \<Rightarrow> bool" where
  "number_char c \<equiv> is_ascii_digit c \<or> c = CHR ''.''"

function replace_numbers_after :: "string \<Rightarrow> string \<Rightarrow> string option" where
  "replace_numbers_after rest marker =
     (if marker = [] then None
      else
        (case split_at marker rest of
           None \<Rightarrow> Some rest
         | Some (before, after) \<Rightarrow>
             (let number = (if takeWhile number_char after \<noteq> [] then ''N'' else []) in
              map_option (\<lambda>out. before @ marker @ number @ out)
                (replace_numbers_after (dropWhile number_char after) marker))))"
  by pat_completeness auto
termination
  by (relation "measure (\<lambda>(rest, marker). length rest)")
    (auto dest!: split_at_Some simp: le_imp_less_Suc intro!: le_less_trans [OF length_dropWhile_le])

declare replace_numbers_after.simps [simp del]

definition normalise_timing :: "string \<Rightarrow> string option" where
  "normalise_timing out =
     foldl (\<lambda>t marker. Option.bind t (\<lambda>t. replace_numbers_after t marker)) (Some out)
       [''Ran in '', [CHR 0x22] @ ''secs'' @ [CHR 0x22] @ '':'', [CHR 0x22] @ ''millis'' @ [CHR 0x22] @ '':'']"


subsection \<open>The watchdog\<close>

text \<open>What a test does: it ends after some time, with a value or a panic, or it never does.\<close>

datatype 'a test_run = Ends nat "'a checked" | Never

definition within :: "nat \<Rightarrow> 'a test_run \<Rightarrow> 'a checked" where
  "within limit f = (case f of Ends t r \<Rightarrow> if t \<le> limit then r else Panic | Never \<Rightarrow> Panic)"


subsection \<open>What the files are good for\<close>

text \<open>What was blessed passes, and nothing else does.\<close>

lemma golden_round_trip:
  assumes "assert_golden dir (Some ''1'') case_name stream out d = (Ok (), d')" and "is_utf8 (bytes_of out)"
  shows "assert_golden dir None case_name stream actual d' = (if actual = out then Ok () else Panic, d')"
  using assms
  by (auto simp: assert_golden_def blessing_def write_golden_def Let_def from_utf8_def split: if_splits option.splits)

text \<open>The normalised output always is one, and does not depend on the number after a marker.\<close>

lemma replace_numbers_after_ends: "marker \<noteq> [] \<Longrightarrow> replace_numbers_after rest marker \<noteq> None"
  by (induction rest marker rule: replace_numbers_after.induct)
    (subst replace_numbers_after.simps, auto split: option.split)

lemma normalise_timing_ends: "normalise_timing out \<noteq> None"
  by (simp add: normalise_timing_def replace_numbers_after_ends bind_eq_None_conv del: not_None_eq)

lemma split_at_first: "m \<notin> set before \<Longrightarrow> split_at (m # ms) (before @ m # ms @ after) = Some (before, after)"
  using strip_prefix_Some_iff [of ms "ms @ after" after]
  by (induction before) auto

lemma number_forgotten:
  assumes "m \<notin> set before" and "n \<noteq> []" and "list_all number_char n"
    and "after = [] \<or> \<not> number_char (hd after)"
  shows "replace_numbers_after (before @ (m # ms) @ n @ after) (m # ms) =
    map_option (\<lambda>out. before @ (m # ms) @ ''N'' @ out) (replace_numbers_after after (m # ms))"
proof -
  have "takeWhile number_char (n @ after) = n" "dropWhile number_char (n @ after) = after"
    using assms(3,4) by (cases after; auto simp: list_all_iff takeWhile_append dropWhile_append)+
  with split_at_first [OF assms(1), of ms "n @ after"] assms(2) show ?thesis
    by (subst replace_numbers_after.simps) (simp add: Let_def)
qed

end
