(* ===== verification/Spec2Isabelle.thy ===== *)
theory Spec2Isabelle
  imports Build_Script Logger Rdata Record_Loc Resolve_Windows Mock_Http Test_Fixtures
begin

text \<open>
  dog is a command-line DNS client. It is made of three crates: \<^verbatim>\<open>dns\<close>, which encodes requests and
  parses responses; \<^verbatim>\<open>dns-transport\<close>, which gets a request to a nameserver and its response back
  within a time limit; and the program in \<^verbatim>\<open>src/\<close>, which reads the command line, works out what to
  ask and whom, and prints the answers. This development models all three, file by file, from the
  arguments of \<open>main\<close> to the status it exits with, and proves that what is printed answers what was
  asked.

  \<^bold>\<open>How the code is modelled.\<close> Machine integers are words of their width. A function that can fail
  returns an \<open>outcome\<close>: a value, an error, or \<open>Panic\<close>, which is what the arithmetic of a build
  with overflow checks (the profile of \<^verbatim>\<open>Cargo.toml\<close>), an index out of range or an unwrap leave
  behind. A cursor over a packet is a function of the whole buffer and the position in it, so
  that compression pointers can go back; \<open>bind\<close> is the question mark of the code. Strings of Rust
  are strings of bytes. The outside world is explicit state: the clock, what name lookups, sockets
  and TLS handshakes have in store and when it comes (\<open>net\<close> and the records that extend it), and a
  console that takes what is written or fails after so many bytes.

  \<^bold>\<open>The library \<^verbatim>\<open>dns\<close>\<close>, in the order of the theories:

  \<^item> \<open>Prelude\<close>, \<open>Rust_Str\<close>: outcomes, checked arithmetic, big-endian integers, and the part of
    Rust's string library that the code calls.

  \<^item> \<open>Cursor\<close>: the readers of a packet (\<^verbatim>\<open>dns/src/wire.rs\<close>), with a calculus for each of the two
    directions of a proof: \<open>wp\<close> (every run that starts here ends well) and \<open>parses\<close> (these bytes
    are read as this value).

  \<^item> \<open>Labels\<close> (\<^verbatim>\<open>dns/src/strings.rs\<close>): domain names; the names a user types, the names written to
    the wire, and the names read back through at most eight compression pointers. The inductive
    \<open>name_at\<close> is the specification of a name in a packet.

  \<^item> \<open>Registry\<close>, \<open>Flags\<close> (\<^verbatim>\<open>dns/src/record/registry.rs\<close>, \<^verbatim>\<open>others.rs\<close>, \<^verbatim>\<open>mod.rs\<close>, \<^verbatim>\<open>dns/src/wire.rs\<close>):
    the numbers of record types, algorithms, classes, opcodes and error codes, and the flag
    word of the header.

  \<^item> \<open>Wire_Reader\<close>: the interface \<open>Wire\<close> between the message and its record types, as the locales
    \<open>wire_reader\<close> (a reader of record data does not panic and does not move back) and
    \<open>exact_reader\<close> (it also reads exactly the length it was told). Each record type of
    \<^verbatim>\<open>dns/src/record/\<close> is an interpretation: \<open>Records_Fixed\<close>, \<open>Records_Names\<close>, \<open>Record_Nsec\<close>,
    \<open>Record_Txt\<close>, \<open>Record_Loc\<close>. CAA is a \<open>wire_reader\<close> only.

  \<^item> \<open>Message\<close> (\<^verbatim>\<open>dns/src/wire.rs\<close>, \<^verbatim>\<open>dns/src/types.rs\<close>): writing a request, reading a response. The
    entries of the four sections share the locale \<open>entry_reader\<close>.

  \<^item> \<open>Rdata\<close>: the wire format as a relation between a record and its bytes, written from the RFCs
    and not from the readers, with the readers proved to agree with it.

  \<^item> \<open>Validate\<close> (\<^verbatim>\<open>dns/src/validate.rs\<close>): whether a response answers a request.

  \<^bold>\<open>The library \<^verbatim>\<open>dns-transport\<close>\<close>:

  \<^item> \<open>Ip_Addr\<close>, \<open>Address\<close> (\<^verbatim>\<open>address.rs\<close>): the address parsers of the standard library, and the
    addresses and URLs of nameservers.

  \<^item> \<open>Net\<close> (\<^verbatim>\<open>net.rs\<close>, \<^verbatim>\<open>error.rs\<close>): deadlines, connecting to the addresses of a host in turn, and
    streams that give up at a deadline.

  \<^item> \<open>Transport\<close> (\<^verbatim>\<open>tcp.rs\<close>, \<^verbatim>\<open>udp.rs\<close>, \<^verbatim>\<open>auto.rs\<close>, \<^verbatim>\<open>failover.rs\<close>): the transports, each an interpretation
    of the locale \<open>transport\<close>: whatever arrives, what is returned was parsed from a message and
    answers the request, and it is returned in time.

  \<^item> \<open>Utf8\<close>, \<open>Http1\<close> (\<^verbatim>\<open>https.rs\<close>): requests and responses over HTTP/1.1.

  \<^item> \<open>H2\<close>, \<open>H2_Status\<close>, \<open>H2_Frames\<close>, \<open>H2_Request\<close> (\<^verbatim>\<open>h2.rs\<close>): HTTP/2; the first is the code, the
    others prove what becomes of the header block of a response, of its frames, and of the request.

  \<^item> \<open>Secure\<close> (\<^verbatim>\<open>tls_stream.rs\<close>, \<^verbatim>\<open>tls.rs\<close>, \<^verbatim>\<open>https.rs\<close>): handshakes, and the TLS and HTTPS transports,
    which are interpretations of \<open>transport\<close> too.

  \<^bold>\<open>The program\<close>:

  \<^item> \<open>Connect\<close> (\<^verbatim>\<open>src/connect.rs\<close>): the transport for a protocol and a list of nameservers.

  \<^item> \<open>Files\<close>, \<open>Resolve\<close> (\<^verbatim>\<open>src/resolve.rs\<close>, \<^verbatim>\<open>hints.rs\<close>, \<^verbatim>\<open>system.rs\<close>): lines of a file; the nameservers
    and search list of \<^verbatim>\<open>resolv.conf\<close>, the names a search list makes of one name, the hosts file.
    \<open>Resolve_Windows\<close> is the same file on Windows, where the nameserver is one of a network adapter,
    and on systems of neither kind.

  \<^item> \<open>Requests\<close> (\<^verbatim>\<open>src/requests.rs\<close>, \<^verbatim>\<open>txid.rs\<close>): the requests for every combination of inputs.

  \<^item> \<open>F64\<close>, \<open>Options\<close>, \<open>Options_Correct\<close> (\<^verbatim>\<open>src/options.rs\<close>): floating-point numbers as far as a time
    limit needs them; the options, and what is true of those that are accepted. The locale \<open>idna\<close>
    states what is relied on of the processing of labels.

  \<^item> \<open>Output_Text\<close>, \<open>Json\<close>, \<open>Table\<close>, \<open>Output\<close> (\<^verbatim>\<open>src/output.rs\<close>, \<^verbatim>\<open>table.rs\<close>, \<^verbatim>\<open>colours.rs\<close>, \<^verbatim>\<open>stderr.rs\<close>):
    records as text and as JSON, the table, and printing. \<open>Output_Correct\<close> has the abstract
    specification of printing, \<open>document\<close>: a text for each format that depends on the responses
    alone; printing is proved to implement it, whatever becomes of standard output.
    \<open>Ip_Text\<close> shows that an IP address that is displayed is read as the same address, so that dog can
    be given the addresses it prints.

  \<^item> \<open>Dog\<close>, \<open>Dog_Correct\<close> (\<^verbatim>\<open>src/main.rs\<close>): sending the requests, collecting the answers, the exit
    status. The theorems here put the components together: an accepted command line gives requests
    that a server reads as what was asked, what is printed answers one of them, and the status
    tells how it went.

  \<^item> \<open>Version\<close>, \<open>Build_Script\<close> (\<^verbatim>\<open>build-support/version.rs\<close>, \<^verbatim>\<open>build.rs\<close>): the texts of \<^verbatim>\<open>--version\<close> and
    \<^verbatim>\<open>--help\<close>, with the date of the build. \<open>next_day\<close> is the specification of the calendar.

  \<^item> \<open>Logger\<close> (\<^verbatim>\<open>src/logger.rs\<close>): the log for debugging. Log calls have no effect on what is sent or
    printed, so they are left out of the other theories.

  \<^bold>\<open>What the tests share\<close> (\<^verbatim>\<open>test-support/src/\<close>):

  \<^item> \<open>Test_Wire\<close> (\<^verbatim>\<open>wire.rs\<close>): walking and changing the bytes of DNS, HTTP and HTTP/2 messages without
    dog's parser. The walker and the parser are proved to find the same records, and the frames of
    the tests to be the frames of \<open>H2\<close>.

  \<^item> \<open>Test_Mock\<close> (\<^verbatim>\<open>mock.rs\<close>, \<^verbatim>\<open>tls.rs\<close>): the nameservers that the tests run, good and bad. A server
    is the record \<open>server\<close>, a \<open>net\<close> with the requests it has received.

  \<^item> \<open>Mock_Dns\<close>, \<open>Mock_Http\<close>: the client of \<^verbatim>\<open>dns-transport\<close> at one end and those servers at the
    other. Each reads what the other wrote: the servers find the end and the transaction ID of dog's
    requests in every protocol, and dog takes the good answers and refuses the bad ones.

  \<^item> \<open>Test_Fixtures\<close> (\<^verbatim>\<open>fixtures.rs\<close>, \<^verbatim>\<open>golden.rs\<close>, \<^verbatim>\<open>watchdog.rs\<close>): captured messages and their list,
    expected output with its times made alike, and the time limit of a test.

  \<^bold>\<open>Bounds.\<close> No proof uses fuel: every loop ends for a reason the code gives. A name follows at
  most eight pointers and each label takes bytes, a section has at most 65535 entries, and a
  stream that is read or written either makes progress or has used up one of the finitely many
  events in store for it. A packet of at most 65303 bytes cannot make the parser panic. One byte
  more can, since the lengths of a TXT record are added up in sixteen bits; so the theorems about
  \<open>run\<close> say what happens when no transport panics.

  \<^bold>\<open>Parameters\<close> stand for other packages: the processing of labels by UTS 46 (idna), the parser of
  HTTP/1.1 heads (httparse), the splitting of arguments into options (getopts), random numbers,
  base64, JSON values as text (serde_json), terminal styles (nu_ansi_term), the
  adapters of Windows (ipconfig), the messages of errors that are not dog's own, and what Cargo, Git and the checkout tell the build script.

  \<^bold>\<open>What is not modelled.\<close> The builds without TLS, HTTPS or IDNA, which leave code out; log
  calls; how the servers of the tests open their sockets and start their threads; and the tests
  themselves, which run the program on examples.
\<close>

end
